(* ===== verification/Prelude.thy ===== *)
theory Prelude
  imports Main "HOL-Library.Word"
begin

text \<open>
  Shared vocabulary of the development: the machine integers of the C++ code
  (\<^verbatim>\<open>quint8\<close>, \<^verbatim>\<open>quint16\<close>, \<^verbatim>\<open>quint32\<close>, \<^verbatim>\<open>uint64_t\<close>), the big-endian byte helpers of
  \<^verbatim>\<open>modbus_tcp_client/crc16.h\<close>, and the generic lemmas on words, lists and folds that the
  component theories share.  The collection \<open>frame_simps\<close> holds the rewrite rules for byte
  frames, \<open>machine_simps\<close> those for runs of handlers.
\<close>

unbundle bit_operations_syntax

named_theorems frame_simps "rewrite rules for byte frames"
named_theorems machine_simps "rewrite rules for runs of handlers"

type_synonym u8 = "8 word"
type_synonym u16 = "16 word"
type_synonym u32 = "32 word"
type_synonym u64 = "64 word"
type_synonym bytes = "8 word list"

subsection \<open>Byte helpers (crc16.h)\<close>

definition msb :: "u16 \<Rightarrow> u8" where
  "msb d = ucast (drop_bit 8 d)"

definition lsb :: "u16 \<Rightarrow> u8" where
  "lsb d = ucast (d AND 0xFF)"

definition toUInt16 :: "u8 \<Rightarrow> u8 \<Rightarrow> u16" where
  "toUInt16 m l = push_bit 8 (ucast m) OR ucast l"

text \<open>
  \<^verbatim>\<open>QByteArray\<close> reads: one past the end gives the terminating NUL that the array keeps after
  its data (\<^verbatim>\<open>a[offset]\<close> on a constant array), and a read through \<^verbatim>\<open>QByteRef\<close> (a mutable
  array) gives 0 anywhere past the end.
\<close>

definition byte_at :: "bytes \<Rightarrow> nat \<Rightarrow> u8" where
  "byte_at a i = (if i < length a then a ! i else 0)"

definition toUInt16_at :: "bytes \<Rightarrow> nat \<Rightarrow> u16" where
  "toUInt16_at a offset = toUInt16 (byte_at a offset) (byte_at a (offset + 1))"

lemma bit_u8_out [simp]: "\<not> n < 8 \<Longrightarrow> \<not> bit (w :: u8) n"
  using bit_imp_le_length [of w n] by auto

lemma bit_u16_out [simp]: "\<not> n < 16 \<Longrightarrow> \<not> bit (w :: u16) n"
  using bit_imp_le_length [of w n] by auto

lemma bit_0xFF: "bit (0xFF :: u16) n \<longleftrightarrow> n < 8"
proof -
  have m: "mask 8 = (0xFF :: u16)" by (simp add: mask_eq_exp_minus_1)
  show ?thesis unfolding m [symmetric] bit_mask_iff by auto
qed

lemma bit_msb: "bit (msb d) n \<longleftrightarrow> n < 8 \<and> bit d (8 + n)"
  by (auto simp: msb_def bit_simps)

lemma bit_lsb: "bit (lsb d) n \<longleftrightarrow> n < 8 \<and> bit d n"
  unfolding lsb_def bit_ucast_iff bit_and_iff bit_0xFF by auto

lemma bit_toUInt16: "bit (toUInt16 m l) n \<longleftrightarrow>
    (if n < 8 then bit l n else n < 16 \<and> bit m (n - 8))"
  by (auto simp: toUInt16_def bit_simps)

lemma msb_toUInt16 [simp, frame_simps]: "msb (toUInt16 m l) = m"
  by (rule bit_word_eqI) (simp add: bit_msb bit_toUInt16)

lemma lsb_toUInt16 [simp, frame_simps]: "lsb (toUInt16 m l) = l"
  by (rule bit_word_eqI) (simp add: bit_lsb bit_toUInt16)

lemma toUInt16_msb_lsb [simp, frame_simps]: "toUInt16 (msb d) (lsb d) = d"
  by (rule bit_word_eqI) (auto simp: bit_msb bit_lsb bit_toUInt16)

lemma toUInt16_inject: "toUInt16 a b = toUInt16 c d \<longleftrightarrow> a = c \<and> b = d"
  by (metis lsb_toUInt16 msb_toUInt16)

lemma toUInt16_0_0 [simp, frame_simps]: "toUInt16 0 0 = 0"
  by (simp add: toUInt16_def)

text \<open>Registers on the wire: most significant byte first.\<close>

definition reg_bytes :: "u16 list \<Rightarrow> bytes" where
  "reg_bytes values = concat (map (\<lambda>v. [msb v, lsb v]) values)"

lemma reg_bytes_simps [simp, frame_simps]:
  "reg_bytes [] = []"
  "reg_bytes (v # vs) = msb v # lsb v # reg_bytes vs"
  by (simp_all add: reg_bytes_def)

lemma length_reg_bytes [simp, frame_simps]: "length (reg_bytes vs) = 2 * length vs"
  by (induction vs) simp_all

lemma reg_bytes_eq_Nil [simp, frame_simps]: "reg_bytes vs = [] \<longleftrightarrow> vs = []"
  by (cases vs) simp_all

lemma reg_bytes_append [simp, frame_simps]: "reg_bytes (xs @ ys) = reg_bytes xs @ reg_bytes ys"
  by (simp add: reg_bytes_def)

lemma byte_at_simps [simp, frame_simps]:
  "byte_at (b # bs) 0 = b"
  "byte_at (b # bs) (Suc n) = byte_at bs n"
  "byte_at [] n = 0"
  "0 < k \<Longrightarrow> byte_at (b # bs) k = byte_at bs (k - 1)"
  by (auto simp: byte_at_def nth_Cons')

lemma unat_u8_less [simp]: "unat (w :: u8) < 256"
  using unsigned_less [of w] by simp

lemma unat_u16_less [simp]: "unat (w :: u16) < 65536"
  using unsigned_less [of w] by simp

lemma unat_of_nat_u8: "n < 256 \<Longrightarrow> unat (of_nat n :: u8) = n"
  by (simp add: unsigned_of_nat take_bit_eq_mod)

lemma unat_of_nat_u16: "n < 65536 \<Longrightarrow> unat (of_nat n :: u16) = n"
  by (simp add: unsigned_of_nat take_bit_eq_mod)

lemma unat_toUInt16: "unat (toUInt16 m l) = 256 * unat m + unat l"
proof -
  have "push_bit 8 (ucast m :: u16) AND ucast l = 0"
    by (rule bit_word_eqI) (auto simp: bit_simps)
  then have "toUInt16 m l = push_bit 8 (ucast m) + ucast l"
    by (simp add: toUInt16_def disjunctive_add_eq_or)
  also have "\<dots> = of_nat (256 * unat m + unat l)"
    by (simp add: push_bit_eq_mult)
  finally have e: "toUInt16 m l = of_nat (256 * unat m + unat l)" .
  have "256 * unat m + unat l < 65536"
    using unat_u8_less [of m] unat_u8_less [of l] by linarith
  then show ?thesis
    unfolding e by (rule unat_of_nat_u16)
qed

subsection \<open>Runs of handlers\<close>

text \<open>
  Every component is a state with handlers; a run is a fold of its step function over the
  events that the environment delivers, in order.
\<close>

definition run :: "('s \<Rightarrow> 'e \<Rightarrow> 's) \<Rightarrow> 's \<Rightarrow> 'e list \<Rightarrow> 's" where
  "run step s es = foldl step s es"

lemma run_Nil [simp, machine_simps]: "run step s [] = s"
  by (simp add: run_def)

lemma run_Cons [simp, machine_simps]: "run step s (e # es) = run step (step s e) es"
  by (simp add: run_def)

lemma run_append [machine_simps]: "run step s (es @ fs) = run step (run step s es) fs"
  by (simp add: run_def)

text \<open>The contract of an invariant, proved once for every component that has one.\<close>

locale invariant_machine =
  fixes step :: "'s \<Rightarrow> 'e \<Rightarrow> 's"
    and inv :: "'s \<Rightarrow> bool"
    and ok :: "'e \<Rightarrow> bool"
  assumes step_inv: "inv s \<Longrightarrow> ok e \<Longrightarrow> inv (step s e)"
begin

lemma run_inv: "inv s \<Longrightarrow> list_all ok es \<Longrightarrow> inv (run step s es)"
  by (induction es arbitrary: s) (auto intro: step_inv)

lemma run_inv_prefix: "inv s \<Longrightarrow> list_all ok (es @ fs) \<Longrightarrow> inv (run step s es)"
  by (auto intro: run_inv)

end

text \<open>
  A counter of consecutive errors that reports whenever it gets to a limit and then starts again, as
  the polling engines have it.  \<open>reported\<close> is the number of reports so far.
\<close>

locale error_counter =
  fixes limit :: nat
    and fail :: "'s \<Rightarrow> 's"
    and errors :: "'s \<Rightarrow> int"
    and reported :: "'s \<Rightarrow> nat"
  assumes limit_pos: "0 < limit"
    and fail_errors: "0 \<le> errors s \<Longrightarrow> errors s < int limit \<Longrightarrow>
      errors (fail s) = (if errors s + 1 = int limit then 0 else errors s + 1)"
    and fail_reported: "0 \<le> errors s \<Longrightarrow> errors s < int limit \<Longrightarrow>
      reported (fail s) = (if errors s + 1 = int limit then Suc (reported s) else reported s)"
begin

lemma fail_many:
  assumes "errors s = int k" "k < limit"
  shows "errors ((fail ^^ n) s) = int ((k + n) mod limit) \<and>
    reported ((fail ^^ n) s) = reported s + (k + n) div limit"
proof (induction n)
  case 0
  then show ?case using assms by simp
next
  case (Suc n)
  have lt: "(k + n) mod limit < limit" using limit_pos by simp
  have bounds: "0 \<le> errors ((fail ^^ n) s)" "errors ((fail ^^ n) s) < int limit" using Suc lt by simp_all
  show ?case
  proof (cases "Suc ((k + n) mod limit) = limit")
    case True
    then have "Suc (k + n) mod limit = 0" "Suc (k + n) div limit = Suc ((k + n) div limit)"
      by (simp_all add: mod_Suc div_Suc)
    then show ?thesis using Suc True by (simp add: fail_errors [OF bounds] fail_reported [OF bounds])
  next
    case False
    then have "Suc (k + n) mod limit = Suc ((k + n) mod limit)" "Suc (k + n) div limit = (k + n) div limit"
      by (simp_all add: mod_Suc div_Suc)
    then show ?thesis using Suc False lt by (simp add: fail_errors [OF bounds] fail_reported [OF bounds])
  qed
qed

end

subsection \<open>Data refinement\<close>

text \<open>
  Operations with a result, on a concrete state where they may fail and on an abstract one where they
  do not, and sequences of them.
\<close>

fun op_run :: "('op \<Rightarrow> 'c \<Rightarrow> ('r \<times> 'c) option) \<Rightarrow> 'op list \<Rightarrow> 'c \<Rightarrow> ('r list \<times> 'c) option" where
  "op_run step [] c = Some ([], c)"
| "op_run step (x # xs) c =
     (case step x c of None \<Rightarrow> None | Some (r, c') \<Rightarrow> map_option (map_prod (Cons r) id) (op_run step xs c'))"

fun spec_run :: "('op \<Rightarrow> 'a \<Rightarrow> 'r \<times> 'a) \<Rightarrow> 'op list \<Rightarrow> 'a \<Rightarrow> 'r list \<times> 'a" where
  "spec_run step [] a = ([], a)"
| "spec_run step (x # xs) a = (let (r, a') = step x a in map_prod (Cons r) id (spec_run step xs a'))"

locale data_refinement =
  fixes ok :: "'c \<Rightarrow> bool"
    and abs :: "'c \<Rightarrow> 'a"
    and cstep :: "'op \<Rightarrow> 'c \<Rightarrow> ('r \<times> 'c) option"
    and astep :: "'op \<Rightarrow> 'a \<Rightarrow> 'r \<times> 'a"
  assumes simulates: "ok c \<Longrightarrow>
    \<exists>c'. cstep x c = Some (fst (astep x (abs c)), c') \<and> ok c' \<and> abs c' = snd (astep x (abs c))"
begin

lemma runs:
  "ok c \<Longrightarrow> \<exists>c'. op_run cstep xs c = Some (fst (spec_run astep xs (abs c)), c') \<and> ok c' \<and>
    abs c' = snd (spec_run astep xs (abs c))"
proof (induction xs arbitrary: c)
  case (Cons x xs)
  obtain c' where c': "cstep x c = Some (fst (astep x (abs c)), c')" "ok c'" "abs c' = snd (astep x (abs c))"
    using simulates [OF Cons.prems] by blast
  from Cons.IH [OF c'(2)] show ?case using c' by (auto simp: split_beta)
qed simp

end

end
