(* ===== verification/Crc16.thy ===== *)
theory Crc16
  imports Prelude
begin

text \<open>
  The CRC of Modbus RTU frames (\<^verbatim>\<open>modbus_tcp_client/crc16.h\<close> and \<^verbatim>\<open>crc16.cpp\<close>): the two lookup
  tables, the class \<^verbatim>\<open>Crc16\<close> as a record, and its operations.  The lemmas show that the table
  driven routine computes the bitwise CRC with the reflected polynomial 0xA001, that a frame
  followed by its own checksum has checksum 0, and that every change confined to two adjacent
  bytes changes the checksum.
\<close>

definition CrcHi :: "u8 list" where
  "CrcHi = [
    0x00, 0xC1, 0x81, 0x40, 0x01, 0xC0, 0x80, 0x41, 0x01, 0xC0, 0x80, 0x41, 0x00, 0xC1, 0x81, 0x40,
    0x01, 0xC0, 0x80, 0x41, 0x00, 0xC1, 0x81, 0x40, 0x00, 0xC1, 0x81, 0x40, 0x01, 0xC0, 0x80, 0x41,
    0x01, 0xC0, 0x80, 0x41, 0x00, 0xC1, 0x81, 0x40, 0x00, 0xC1, 0x81, 0x40, 0x01, 0xC0, 0x80, 0x41,
    0x00, 0xC1, 0x81, 0x40, 0x01, 0xC0, 0x80, 0x41, 0x01, 0xC0, 0x80, 0x41, 0x00, 0xC1, 0x81, 0x40,
    0x01, 0xC0, 0x80, 0x41, 0x00, 0xC1, 0x81, 0x40, 0x00, 0xC1, 0x81, 0x40, 0x01, 0xC0, 0x80, 0x41,
    0x00, 0xC1, 0x81, 0x40, 0x01, 0xC0, 0x80, 0x41, 0x01, 0xC0, 0x80, 0x41, 0x00, 0xC1, 0x81, 0x40,
    0x00, 0xC1, 0x81, 0x40, 0x01, 0xC0, 0x80, 0x41, 0x01, 0xC0, 0x80, 0x41, 0x00, 0xC1, 0x81, 0x40,
    0x01, 0xC0, 0x80, 0x41, 0x00, 0xC1, 0x81, 0x40, 0x00, 0xC1, 0x81, 0x40, 0x01, 0xC0, 0x80, 0x41,
    0x01, 0xC0, 0x80, 0x41, 0x00, 0xC1, 0x81, 0x40, 0x00, 0xC1, 0x81, 0x40, 0x01, 0xC0, 0x80, 0x41,
    0x00, 0xC1, 0x81, 0x40, 0x01, 0xC0, 0x80, 0x41, 0x01, 0xC0, 0x80, 0x41, 0x00, 0xC1, 0x81, 0x40,
    0x00, 0xC1, 0x81, 0x40, 0x01, 0xC0, 0x80, 0x41, 0x01, 0xC0, 0x80, 0x41, 0x00, 0xC1, 0x81, 0x40,
    0x01, 0xC0, 0x80, 0x41, 0x00, 0xC1, 0x81, 0x40, 0x00, 0xC1, 0x81, 0x40, 0x01, 0xC0, 0x80, 0x41,
    0x00, 0xC1, 0x81, 0x40, 0x01, 0xC0, 0x80, 0x41, 0x01, 0xC0, 0x80, 0x41, 0x00, 0xC1, 0x81, 0x40,
    0x01, 0xC0, 0x80, 0x41, 0x00, 0xC1, 0x81, 0x40, 0x00, 0xC1, 0x81, 0x40, 0x01, 0xC0, 0x80, 0x41,
    0x01, 0xC0, 0x80, 0x41, 0x00, 0xC1, 0x81, 0x40, 0x00, 0xC1, 0x81, 0x40, 0x01, 0xC0, 0x80, 0x41,
    0x00, 0xC1, 0x81, 0x40, 0x01, 0xC0, 0x80, 0x41, 0x01, 0xC0, 0x80, 0x41, 0x00, 0xC1, 0x81, 0x40]"

definition CrcLo :: "u8 list" where
  "CrcLo = [
    0x00, 0xC0, 0xC1, 0x01, 0xC3, 0x03, 0x02, 0xC2, 0xC6, 0x06, 0x07, 0xC7, 0x05, 0xC5, 0xC4, 0x04,
    0xCC, 0x0C, 0x0D, 0xCD, 0x0F, 0xCF, 0xCE, 0x0E, 0x0A, 0xCA, 0xCB, 0x0B, 0xC9, 0x09, 0x08, 0xC8,
    0xD8, 0x18, 0x19, 0xD9, 0x1B, 0xDB, 0xDA, 0x1A, 0x1E, 0xDE, 0xDF, 0x1F, 0xDD, 0x1D, 0x1C, 0xDC,
    0x14, 0xD4, 0xD5, 0x15, 0xD7, 0x17, 0x16, 0xD6, 0xD2, 0x12, 0x13, 0xD3, 0x11, 0xD1, 0xD0, 0x10,
    0xF0, 0x30, 0x31, 0xF1, 0x33, 0xF3, 0xF2, 0x32, 0x36, 0xF6, 0xF7, 0x37, 0xF5, 0x35, 0x34, 0xF4,
    0x3C, 0xFC, 0xFD, 0x3D, 0xFF, 0x3F, 0x3E, 0xFE, 0xFA, 0x3A, 0x3B, 0xFB, 0x39, 0xF9, 0xF8, 0x38,
    0x28, 0xE8, 0xE9, 0x29, 0xEB, 0x2B, 0x2A, 0xEA, 0xEE, 0x2E, 0x2F, 0xEF, 0x2D, 0xED, 0xEC, 0x2C,
    0xE4, 0x24, 0x25, 0xE5, 0x27, 0xE7, 0xE6, 0x26, 0x22, 0xE2, 0xE3, 0x23, 0xE1, 0x21, 0x20, 0xE0,
    0xA0, 0x60, 0x61, 0xA1, 0x63, 0xA3, 0xA2, 0x62, 0x66, 0xA6, 0xA7, 0x67, 0xA5, 0x65, 0x64, 0xA4,
    0x6C, 0xAC, 0xAD, 0x6D, 0xAF, 0x6F, 0x6E, 0xAE, 0xAA, 0x6A, 0x6B, 0xAB, 0x69, 0xA9, 0xA8, 0x68,
    0x78, 0xB8, 0xB9, 0x79, 0xBB, 0x7B, 0x7A, 0xBA, 0xBE, 0x7E, 0x7F, 0xBF, 0x7D, 0xBD, 0xBC, 0x7C,
    0xB4, 0x74, 0x75, 0xB5, 0x77, 0xB7, 0xB6, 0x76, 0x72, 0xB2, 0xB3, 0x73, 0xB1, 0x71, 0x70, 0xB0,
    0x50, 0x90, 0x91, 0x51, 0x93, 0x53, 0x52, 0x92, 0x96, 0x56, 0x57, 0x97, 0x55, 0x95, 0x94, 0x54,
    0x9C, 0x5C, 0x5D, 0x9D, 0x5F, 0x9F, 0x9E, 0x5E, 0x5A, 0x9A, 0x9B, 0x5B, 0x99, 0x59, 0x58, 0x98,
    0x88, 0x48, 0x49, 0x89, 0x4B, 0x8B, 0x8A, 0x4A, 0x4E, 0x8E, 0x8F, 0x4F, 0x8D, 0x4D, 0x4C, 0x8C,
    0x44, 0x84, 0x85, 0x45, 0x87, 0x47, 0x46, 0x86, 0x82, 0x42, 0x43, 0x83, 0x41, 0x81, 0x80, 0x40]"

record crc16 =
  mCrcLo :: u8
  mCrcHi :: u8

definition crc_reset :: crc16 where
  "crc_reset = \<lparr> mCrcLo = 0xFF, mCrcHi = 0xFF \<rparr>"

definition crc_add :: "crc16 \<Rightarrow> u8 \<Rightarrow> crc16" where
  "crc_add c b =
     (let index = unat (mCrcHi c XOR b)
      in \<lparr> mCrcLo = CrcLo ! index, mCrcHi = mCrcLo c XOR CrcHi ! index \<rparr>)"

definition crc_add_all :: "crc16 \<Rightarrow> bytes \<Rightarrow> crc16" where
  "crc_add_all c bs = foldl crc_add c bs"

definition crc_value :: "crc16 \<Rightarrow> u16" where
  "crc_value c = toUInt16 (mCrcHi c) (mCrcLo c)"

definition crc_getValue :: "bytes \<Rightarrow> u16" where
  "crc_getValue bs = crc_value (crc_add_all crc_reset bs)"

subsection \<open>The bitwise reference\<close>

definition crc_bit :: "u16 \<Rightarrow> u16" where
  "crc_bit c = (if bit c 0 then drop_bit 1 c XOR 0xA001 else drop_bit 1 c)"

definition crc_byte :: "u16 \<Rightarrow> u16" where
  "crc_byte c = (crc_bit ^^ 8) c"

definition crc_ref_add :: "u16 \<Rightarrow> u8 \<Rightarrow> u16" where
  "crc_ref_add c b = crc_byte (c XOR ucast b)"

definition crc_ref :: "bytes \<Rightarrow> u16" where
  "crc_ref bs = foldl crc_ref_add 0xFFFF bs"

subsection \<open>The tables are the bitwise CRC\<close>

lemma crc_bit_xor: "crc_bit (x XOR y) = crc_bit x XOR crc_bit y"
  by (auto simp: crc_bit_def bit_simps ac_simps drop_bit_xor intro: bit_eqI)

lemma crc_bit_pow_xor: "(crc_bit ^^ n) (x XOR y) = (crc_bit ^^ n) x XOR (crc_bit ^^ n) y"
  by (induction n) (simp_all add: crc_bit_xor)

lemma crc_byte_xor: "crc_byte (x XOR y) = crc_byte x XOR crc_byte y"
  by (simp add: crc_byte_def crc_bit_pow_xor)

lemma crc_bit_even: "\<not> bit c 0 \<Longrightarrow> crc_bit c = drop_bit 1 c"
  by (simp add: crc_bit_def)

lemma crc_bits_high: "n \<le> 8 \<Longrightarrow> (crc_bit ^^ n) (push_bit 8 (ucast (h :: u8))) = push_bit (8 - n) (ucast h)"
proof (induction n)
  case 0
  then show ?case by simp
next
  case (Suc n)
  then have "(crc_bit ^^ Suc n) (push_bit 8 (ucast h)) = crc_bit (push_bit (8 - n) (ucast h))"
    by simp
  also have "\<dots> = drop_bit 1 (push_bit (8 - n) (ucast h))"
    using Suc.prems by (intro crc_bit_even) (simp add: bit_simps)
  also have "\<dots> = push_bit (8 - Suc n) (ucast h)"
    proof (rule bit_word_eqI)
    fix m
    show "bit (drop_bit 1 (push_bit (8 - n) (ucast h)) :: u16) m \<longleftrightarrow>
        bit (push_bit (8 - Suc n) (ucast h) :: u16) m"
      using Suc.prems bit_imp_le_length [of h "Suc m + n - 8"] by (auto simp: bit_simps)
  qed
  finally show ?case .
qed

lemma crc_byte_high: "crc_byte (push_bit 8 (ucast (h :: u8))) = ucast h"
  using crc_bits_high [of 8 h] by (simp add: crc_byte_def)

definition xor_double :: "u8 \<Rightarrow> u8 list \<Rightarrow> u8 list" where
  "xor_double b xs = xs @ map ((XOR) b) xs"

lemma map_upt_double:
  assumes "\<And>i. i < 2 ^ k \<Longrightarrow> f (2 ^ k + i) = f (2 ^ k) XOR f i"
  shows "map f [0..<2 ^ Suc k] = xor_double (f (2 ^ k)) (map f [0..<2 ^ k])"
proof -
  have "[0..<2 ^ Suc k] = [0..<2 ^ k] @ map (\<lambda>i. 2 ^ k + i) [0..<2 ^ k]"
    using upt_add_eq_append [of 0 "2 ^ k" "2 ^ k"] map_add_upt [of "2 ^ k" "2 ^ k"]
    by (simp add: add.commute mult_2)
  then show ?thesis
    using assms by (simp add: xor_double_def)
qed

lemma of_nat_xor_split:
  assumes "i < 2 ^ k"
  shows "(of_nat (2 ^ k + i) :: u16) = of_nat (2 ^ k) XOR of_nat i"
proof -
  have "\<not> bit i k"
    using assms by (simp add: bit_iff_odd)
  then have "2 ^ k AND i = 0"
    by (intro bit_eqI) (auto simp: bit_simps)
  then have "2 ^ k + i = 2 ^ k XOR i"
    by (rule disjunctive_add_eq_xor)
  then show ?thesis
    by (simp add: of_nat_xor_eq)
qed

lemma crc_byte_nat_split:
  "i < 2 ^ k \<Longrightarrow> crc_byte (of_nat (2 ^ k + i)) = crc_byte (of_nat (2 ^ k)) XOR crc_byte (of_nat i)"
  by (simp only: of_nat_xor_split crc_byte_xor)

lemma lsb_xor: "lsb (x XOR y) = lsb x XOR lsb y"
  by (rule bit_word_eqI) (auto simp: bit_lsb bit_xor_iff)

lemma msb_xor: "msb (x XOR y) = msb x XOR msb y"
  by (rule bit_word_eqI) (auto simp: bit_msb bit_xor_iff)

lemma crc_basis:
  "crc_byte 0 = 0"
  "crc_byte 1 = 0xc0c1"
  "crc_byte 2 = 0xc181"
  "crc_byte 4 = 0xc301"
  "crc_byte 8 = 0xc601"
  "crc_byte 16 = 0xcc01"
  "crc_byte 32 = 0xd801"
  "crc_byte 64 = 0xf001"
  "crc_byte 128 = 0xa001"
  by code_simp+

lemma CrcHi_table: "map (\<lambda>i. lsb (crc_byte (of_nat i))) [0..<256] = CrcHi"
proof -
  let ?f = "\<lambda>i. lsb (crc_byte (of_nat i))"
  have d: "map ?f [0..<2 ^ Suc k] = xor_double (?f (2 ^ k)) (map ?f [0..<2 ^ k])" for k
    by (rule map_upt_double) (simp only: crc_byte_nat_split lsb_xor)
  have "map ?f [0..<256] = map ?f [0..<2 ^ 8]" by simp
  also have "\<dots> = xor_double (?f 128) (xor_double (?f 64) (xor_double (?f 32) (xor_double (?f 16)
      (xor_double (?f 8) (xor_double (?f 4) (xor_double (?f 2) (xor_double (?f 1) [?f 0])))))))"
    using d [of 7] d [of 6] d [of 5] d [of 4] d [of 3] d [of 2] d [of 1] d [of 0] by simp
  also have "\<dots> = CrcHi"
    by (simp add: crc_basis lsb_def xor_double_def CrcHi_def)
  finally show ?thesis .
qed

lemma CrcLo_table: "map (\<lambda>i. msb (crc_byte (of_nat i))) [0..<256] = CrcLo"
proof -
  let ?f = "\<lambda>i. msb (crc_byte (of_nat i))"
  have d: "map ?f [0..<2 ^ Suc k] = xor_double (?f (2 ^ k)) (map ?f [0..<2 ^ k])" for k
    by (rule map_upt_double) (simp only: crc_byte_nat_split msb_xor)
  have "map ?f [0..<256] = map ?f [0..<2 ^ 8]" by simp
  also have "\<dots> = xor_double (?f 128) (xor_double (?f 64) (xor_double (?f 32) (xor_double (?f 16)
      (xor_double (?f 8) (xor_double (?f 4) (xor_double (?f 2) (xor_double (?f 1) [?f 0])))))))"
    using d [of 7] d [of 6] d [of 5] d [of 4] d [of 3] d [of 2] d [of 1] d [of 0] by simp
  also have "\<dots> = CrcLo"
    by (simp add: crc_basis msb_def xor_double_def CrcLo_def)
  finally show ?thesis .
qed

lemma nth_CrcHi: "CrcHi ! unat w = lsb (crc_byte (ucast (w :: u8)))"
proof -
  have "CrcHi ! unat w = lsb (crc_byte (of_nat (unat w)))"
    by (simp flip: CrcHi_table)
  then show ?thesis by simp
qed

lemma nth_CrcLo: "CrcLo ! unat w = msb (crc_byte (ucast (w :: u8)))"
proof -
  have "CrcLo ! unat w = msb (crc_byte (of_nat (unat w)))"
    by (simp flip: CrcLo_table)
  then show ?thesis by simp
qed

lemma length_CrcTables [simp]: "length CrcHi = 256" "length CrcLo = 256"
  by (simp_all flip: CrcHi_table CrcLo_table)

subsection \<open>The class implements the bitwise CRC\<close>

text \<open>The register of the bitwise CRC that a \<open>crc16\<close> object represents.\<close>

definition crc_abs :: "crc16 \<Rightarrow> u16" where
  "crc_abs c = toUInt16 (mCrcLo c) (mCrcHi c)"

lemma crc_abs_add: "crc_abs (crc_add c b) = crc_ref_add (crc_abs c) b"
proof -
  let ?w = "mCrcHi c XOR b"
  have "crc_abs c XOR ucast b = push_bit 8 (ucast (mCrcLo c)) XOR ucast ?w"
    by (rule bit_word_eqI) (auto simp: crc_abs_def bit_toUInt16 bit_simps)
  then have "crc_ref_add (crc_abs c) b = ucast (mCrcLo c) XOR crc_byte (ucast ?w)"
    by (simp only: crc_ref_add_def crc_byte_xor crc_byte_high)
  also have "\<dots> = toUInt16 (msb (crc_byte (ucast ?w))) (mCrcLo c XOR lsb (crc_byte (ucast ?w)))"
    by (rule bit_word_eqI) (auto simp: bit_toUInt16 bit_msb bit_lsb bit_simps)
  finally show ?thesis
    by (simp add: crc_add_def Let_def crc_abs_def nth_CrcHi nth_CrcLo)
qed

lemma crc_abs_reset: "crc_abs crc_reset = 0xFFFF"
  by (simp add: crc_abs_def crc_reset_def toUInt16_def)

lemma crc_abs_add_all: "crc_abs (crc_add_all c bs) = foldl crc_ref_add (crc_abs c) bs"
  by (induction bs arbitrary: c) (simp_all add: crc_add_all_def crc_abs_add)

lemma crc_value_abs: "crc_value c = toUInt16 (lsb (crc_abs c)) (msb (crc_abs c))"
  by (simp add: crc_value_def crc_abs_def)

lemma crc_getValue_ref_lemma:
  "crc_getValue bs = toUInt16 (lsb (crc_ref bs)) (msb (crc_ref bs))"
  by (simp add: crc_getValue_def crc_value_abs crc_abs_add_all crc_abs_reset crc_ref_def)

subsection \<open>Residue and error detection\<close>

lemma crc_add_all_append [simp]:
  "crc_add_all c (xs @ ys) = crc_add_all (crc_add_all c xs) ys"
  by (simp add: crc_add_all_def)

lemma crc_add_all_simps [simp]:
  "crc_add_all c [] = c"
  "crc_add_all c (b # bs) = crc_add_all (crc_add c b) bs"
  by (simp_all add: crc_add_all_def)

lemma nth_Crc_0: "CrcHi ! 0 = 0" "CrcLo ! 0 = 0"
  using nth_CrcHi [of 0] nth_CrcLo [of 0] by (simp_all add: crc_basis msb_def lsb_def)

lemma crc_residue_lemma:
  "crc_getValue (bs @ [msb (crc_getValue bs), lsb (crc_getValue bs)]) = 0"
  by (simp add: crc_getValue_def crc_value_def crc_add_def Let_def nth_Crc_0)

lemma CrcLo_kernel: "msb (crc_byte (ucast (w :: u8))) = 0 \<Longrightarrow> w = 0"
proof -
  assume z: "msb (crc_byte (ucast w)) = 0"
  have "list_all (\<lambda>x. x \<noteq> 0) (tl CrcLo)"
    by (simp add: CrcLo_def)
  then have "CrcLo ! i \<noteq> 0" if "0 < i" "i < 256" for i
    using that by (cases i) (auto simp: list_all_length nth_tl)
  then have "unat w = 0"
    using z nth_CrcLo [of w] by (metis neq0_conv unat_u8_less)
  then show "w = 0" by (simp only: unsigned_eq_0_iff)
qed

lemma xor_u8_cancel: "(x :: u8) XOR a = y XOR a \<longleftrightarrow> x = y"
proof
  assume "x XOR a = y XOR a"
  then have "(x XOR a) XOR a = (y XOR a) XOR a" by (rule arg_cong)
  then show "x = y" by (simp add: xor.assoc)
qed simp

lemma xor_u8_cancel': "(a :: u8) XOR x = a XOR y \<longleftrightarrow> x = y"
  using xor_u8_cancel [of x a y] by (simp add: xor.commute)

lemma CrcLo_inject: "CrcLo ! unat v = CrcLo ! unat (w :: u8) \<longleftrightarrow> v = w"
proof
  assume "CrcLo ! unat v = CrcLo ! unat w"
  then have "msb (crc_byte (ucast v) XOR crc_byte (ucast w)) = 0"
    by (simp add: nth_CrcLo msb_xor)
  then have "msb (crc_byte (ucast (v XOR w))) = 0"
    by (simp add: crc_byte_xor unsigned_xor_eq)
  then have "v XOR w = w XOR w" by (simp add: CrcLo_kernel)
  then show "v = w" by (simp only: xor_u8_cancel)
qed simp

lemma crc_add_inject: "crc_add c b = crc_add d b \<longleftrightarrow> c = d"
  by (cases c; cases d)
    (auto simp: crc_add_def Let_def CrcLo_inject xor_u8_cancel)

lemma crc_add_all_inject: "crc_add_all c bs = crc_add_all d bs \<longleftrightarrow> c = d"
  by (induction bs arbitrary: c d) (simp_all add: crc_add_inject)

lemma crc_value_inject: "crc_value c = crc_value d \<longleftrightarrow> c = d"
  by (cases c; cases d) (auto simp: crc_value_def toUInt16_inject)

lemma crc_two_bytes_inject:
  "crc_add (crc_add c a) b = crc_add (crc_add c a') b' \<longleftrightarrow> a = a' \<and> b = b'"
  by (auto simp: crc_add_def Let_def CrcLo_inject xor_u8_cancel xor_u8_cancel')

lemma crc_detects_adjacent_lemma:
  assumes "(a, b) \<noteq> (a', b')"
  shows "crc_getValue (p @ [a, b] @ s) \<noteq> crc_getValue (p @ [a', b'] @ s)"
  using assms
  by (simp add: crc_getValue_def crc_value_inject crc_add_all_inject crc_two_bytes_inject)

subsection \<open>Properties\<close>

text \<open>
  C19. The table driven checksum is the CRC-16 of the Modbus specification (reflected polynomial
  0xA001, initial value 0xFFFF, computed bit by bit), with its low byte first, and a message with
  its checksum appended has checksum 0.
\<close>

theorem crc_is_modbus_crc:
  "crc_getValue bs = toUInt16 (lsb (crc_ref bs)) (msb (crc_ref bs)) \<and>
   crc_getValue (bs @ [msb (crc_getValue bs), lsb (crc_getValue bs)]) = 0"
  by (simp only: crc_getValue_ref_lemma [symmetric] crc_residue_lemma)

text \<open>
  Any change within two adjacent bytes of a message, wherever they are and whatever surrounds
  them, changes the checksum.
\<close>

theorem crc_detects_adjacent_change:
  assumes "(a, b) \<noteq> (a', b')"
  shows "crc_getValue (p @ [a, b] @ s) \<noteq> crc_getValue (p @ [a', b'] @ s)"
  using assms by (rule crc_detects_adjacent_lemma)

theorem crc_detects_adjacent_change_witness:
  "crc_getValue ([1, 3, 2] @ [0x11, 0x22] @ [0x33]) \<noteq> crc_getValue ([1, 3, 2] @ [0x22, 0x11] @ [0x33])"
  by (rule crc_detects_adjacent_change) simp

end
