(* ===== verification/Modbus_Reply.thy ===== *)
theory Modbus_Reply
  imports Prelude
begin

text \<open>
  The result object of a Modbus request (\<^verbatim>\<open>modbus_reply.h\<close>, \<^verbatim>\<open>modbus_reply.cpp\<close>) and the
  function codes of the two clients.  \<^verbatim>\<open>setResult\<close> stores a result once: it returns the updated
  reply and whether the signal \<^verbatim>\<open>finished()\<close> is emitted.  An \<^verbatim>\<open>ExceptionCode\<close> is a byte, since
  the clients cast whatever the device sends to the enumeration.
\<close>

type_synonym exception_code = u8

definition NoException :: exception_code where "NoException = 0"
definition IllegalFunction :: exception_code where "IllegalFunction = 1"
definition IllegalDataAddress :: exception_code where "IllegalDataAddress = 2"
definition ParseError :: exception_code where "ParseError = 253"
definition TimeoutError :: exception_code where "TimeoutError = 254"
definition TcpError :: exception_code where "TcpError = 255"

text \<open>The codes of \<^verbatim>\<open>enum FunctionCode\<close> that the clients use.\<close>

definition ReadHoldingRegisters :: u8 where "ReadHoldingRegisters = 3"
definition ReadInputRegisters :: u8 where "ReadInputRegisters = 4"
definition WriteSingleRegister :: u8 where "WriteSingleRegister = 6"
definition WriteMultipleRegisters :: u8 where "WriteMultipleRegisters = 16"

lemmas function_codes = ReadHoldingRegisters_def ReadInputRegisters_def
  WriteSingleRegister_def WriteMultipleRegisters_def

record modbus_reply =
  mRegisters :: "u16 list"
  mError :: exception_code
  isFinished :: bool

definition new_reply :: modbus_reply where
  "new_reply = \<lparr> mRegisters = [], mError = NoException, isFinished = False \<rparr>"

text \<open>The argument of the two overloads of \<^verbatim>\<open>setResult\<close>.\<close>

datatype result = Registers "u16 list" | Exception exception_code

fun setResult :: "result \<Rightarrow> modbus_reply \<Rightarrow> modbus_reply \<times> bool" where
  "setResult (Registers regs) r =
     (if isFinished r then (r, False)
      else (r\<lparr> mRegisters := regs, mError := NoException, isFinished := True \<rparr>, True))"
| "setResult (Exception e) r =
     (if isFinished r then (r, False)
      else (r\<lparr> mError := e, isFinished := True \<rparr>, True))"

lemma setResult_finished [simp]: "isFinished (fst (setResult x r))"
  by (cases x) simp_all

lemma setResult_emits [simp]: "snd (setResult x r) \<longleftrightarrow> \<not> isFinished r"
  by (cases x) simp_all

lemma setResult_once [simp]: "isFinished r \<Longrightarrow> setResult x r = (r, False)"
  by (cases x) simp_all

end
