(* ===== verification/Modbus_Tcp.thy ===== *)
theory Modbus_Tcp
  imports Modbus_Reply "HOL-Library.AList"
begin

text \<open>
  The Modbus TCP client (\<^verbatim>\<open>modbus_tcp_client.h\<close>, \<^verbatim>\<open>modbus_tcp_client.cpp\<close>).  The state of a
  \<^verbatim>\<open>ModbusTcpClient\<close> is a record: reply objects live in a store indexed by an allocation number,
  \<^verbatim>\<open>mPendingReplies\<close> maps a transaction id to such a number, and \<open>mOut\<close> logs what the client does
  to the outside, in order (socket calls and signals).  A slot connected to a reply's
  \<^verbatim>\<open>finished()\<close> runs synchronously inside \<^verbatim>\<open>setResult\<close>, and may send the next request; it is
  the argument \<open>slot\<close> of the handlers.
\<close>

datatype tcp_out =
    SocketConnect string u16
  | SocketDisconnect
  | SocketWrite bytes
  | SignalConnected
  | SignalDisconnected
  | SignalFinished nat

record tcp_client =
  mSocketConnected :: bool
  mTimeout :: int
  mConnectTimerId :: nat
  mRunningTimers :: "nat list"
  mNextTimer :: nat
  mPendingReplies :: "(u16 \<times> nat) list"
  mReplies :: "nat \<Rightarrow> modbus_reply option"
  mReplyTid :: "nat \<Rightarrow> u16"
  mNextReply :: nat
  mBuffer :: bytes
  mHostName :: string
  mTcpPort :: u16
  mTransactionId :: u16
  mOut :: "tcp_out list"

definition DefaultTcpPort :: u16 where
  "DefaultTcpPort = 502"

definition tcp_new :: tcp_client where
  "tcp_new = \<lparr> mSocketConnected = False, mTimeout = 1000, mConnectTimerId = 0,
     mRunningTimers = [], mNextTimer = 1,
     mPendingReplies = [], mReplies = Map.empty, mReplyTid = (\<lambda>_. 0), mNextReply = 0,
     mBuffer = [], mHostName = [], mTcpPort = 0, mTransactionId = 0, mOut = [] \<rparr>"

definition tcp_emit :: "tcp_out \<Rightarrow> tcp_client \<Rightarrow> tcp_client" where
  "tcp_emit x c = c\<lparr> mOut := mOut c @ [x] \<rparr>"

text \<open>
  \<^verbatim>\<open>startTimer\<close> gives a fresh positive id; \<^verbatim>\<open>mConnectTimerId\<close> is 0 when no connect timer is
  remembered.  A timer runs until \<^verbatim>\<open>killTimer\<close> stops it.
\<close>

definition tcp_connectToServer :: "string \<Rightarrow> u16 \<Rightarrow> tcp_client \<Rightarrow> tcp_client" where
  "tcp_connectToServer host port c =
     tcp_emit (SocketConnect host port)
       (c\<lparr> mHostName := host, mTcpPort := port, mConnectTimerId := mNextTimer c,
           mRunningTimers := mRunningTimers c @ [mNextTimer c],
           mNextTimer := mNextTimer c + 1 \<rparr>)"

definition tcp_setTimeout :: "int \<Rightarrow> tcp_client \<Rightarrow> tcp_client" where
  "tcp_setTimeout t c = c\<lparr> mTimeout := t \<rparr>"

subsection \<open>Requests\<close>

text \<open>
  \<^verbatim>\<open>createFrame\<close> increments the transaction id and writes the MBAP header.  \<open>count\<close> is a
  \<^verbatim>\<open>quint8\<close>; the length byte is \<^verbatim>\<open>static_cast<char>(count + 2)\<close> and the high length byte is 0.
\<close>

definition tcp_createFrame :: "u8 \<Rightarrow> u8 \<Rightarrow> u8 \<Rightarrow> tcp_client \<Rightarrow> bytes \<times> tcp_client" where
  "tcp_createFrame function unitId count c =
     (let c' = c\<lparr> mTransactionId := mTransactionId c + 1 \<rparr>;
          tid = mTransactionId c'
      in ([msb tid, lsb tid, 0, 0, 0, count + 2, unitId, function], c'))"

definition tcp_sendFrame :: "bytes \<Rightarrow> tcp_client \<Rightarrow> nat \<times> tcp_client" where
  "tcp_sendFrame frame c =
     (let rid = mNextReply c; tid = mTransactionId c
      in (rid, tcp_emit (SocketWrite frame)
           (c\<lparr> mNextReply := rid + 1,
               mReplies := (mReplies c)(rid \<mapsto> new_reply),
               mReplyTid := (mReplyTid c)(rid := tid),
               mPendingReplies := AList.update tid rid (mPendingReplies c) \<rparr>)))"

definition tcp_readRegisters :: "u8 \<Rightarrow> u8 \<Rightarrow> u16 \<Rightarrow> u16 \<Rightarrow> tcp_client \<Rightarrow> nat \<times> tcp_client" where
  "tcp_readRegisters function unitId startReg count c =
     (let (frame, c') = tcp_createFrame function unitId 4 c
      in tcp_sendFrame (frame @ [msb startReg, lsb startReg, msb count, lsb count]) c')"

definition tcp_readHoldingRegisters :: "u8 \<Rightarrow> u16 \<Rightarrow> u16 \<Rightarrow> tcp_client \<Rightarrow> nat \<times> tcp_client" where
  "tcp_readHoldingRegisters = tcp_readRegisters ReadHoldingRegisters"

definition tcp_readInputRegisters :: "u8 \<Rightarrow> u16 \<Rightarrow> u16 \<Rightarrow> tcp_client \<Rightarrow> nat \<times> tcp_client" where
  "tcp_readInputRegisters = tcp_readRegisters ReadInputRegisters"

definition tcp_writeSingleHoldingRegister ::
    "u8 \<Rightarrow> u16 \<Rightarrow> u16 \<Rightarrow> tcp_client \<Rightarrow> nat \<times> tcp_client" where
  "tcp_writeSingleHoldingRegister unitId reg value c =
     (let (frame, c') = tcp_createFrame WriteSingleRegister unitId 4 c
      in tcp_sendFrame (frame @ [msb reg, lsb reg, msb value, lsb value]) c')"

definition tcp_writeMultipleHoldingRegisters ::
    "u8 \<Rightarrow> u16 \<Rightarrow> u16 list \<Rightarrow> tcp_client \<Rightarrow> nat \<times> tcp_client" where
  "tcp_writeMultipleHoldingRegisters unitId startReg values c =
     (let n = length values;
          (frame, c') = tcp_createFrame WriteMultipleRegisters unitId (of_nat (5 + 2 * n)) c
      in tcp_sendFrame
           (frame @ [msb startReg, lsb startReg, msb (of_nat n), lsb (of_nat n), of_nat (n * 2)]
              @ reg_bytes values) c')"

subsection \<open>Replies\<close>

text \<open>\<^verbatim>\<open>setResult\<close> on a reply object: the slot runs if the signal is emitted.\<close>

definition tcp_finish ::
    "(nat \<Rightarrow> tcp_client \<Rightarrow> tcp_client) \<Rightarrow> nat \<Rightarrow> result \<Rightarrow> tcp_client \<Rightarrow> tcp_client" where
  "tcp_finish slot rid x c =
     (case mReplies c rid of
        None \<Rightarrow> c
      | Some r \<Rightarrow>
          (let (r', emitted) = setResult x r;
               c' = c\<lparr> mReplies := (mReplies c)(rid \<mapsto> r') \<rparr>
           in if emitted then slot rid (tcp_emit (SignalFinished rid) c') else c'))"

definition tcp_popReply :: "u16 \<Rightarrow> tcp_client \<Rightarrow> nat option \<times> tcp_client" where
  "tcp_popReply tid c =
     (case map_of (mPendingReplies c) tid of
        None \<Rightarrow> (None, c)
      | Some rid \<Rightarrow> (Some rid, c\<lparr> mPendingReplies := AList.delete tid (mPendingReplies c) \<rparr>))"

definition tcp_setFinished ::
    "(nat \<Rightarrow> tcp_client \<Rightarrow> tcp_client) \<Rightarrow> u16 \<Rightarrow> result \<Rightarrow> tcp_client \<Rightarrow> tcp_client" where
  "tcp_setFinished slot tid x c =
     (case tcp_popReply tid c of
        (None, c') \<Rightarrow> c'
      | (Some rid, c') \<Rightarrow> tcp_finish slot rid x c')"

text \<open>
  The loop \<^verbatim>\<open>for (; i0 < i1; i0 += 2) values.append(toUInt16(mBuffer, i0))\<close>.  An odd
  payload reads one byte past \<open>i1\<close>.
\<close>

fun tcp_registers_from :: "bytes \<Rightarrow> nat \<Rightarrow> nat \<Rightarrow> u16 list" where
  "tcp_registers_from buf i0 0 = []"
| "tcp_registers_from buf i0 (Suc 0) = [toUInt16_at buf i0]"
| "tcp_registers_from buf i0 (Suc (Suc k)) = toUInt16_at buf i0 # tcp_registers_from buf (i0 + 2) k"

text \<open>
  One iteration of the loop of \<^verbatim>\<open>onReadyRead\<close>: what is passed to \<^verbatim>\<open>setFinished\<close> for the frame at
  the head of the buffer, \<open>None\<close> for a function code that the switch does not handle.  The tests on
  the size look at the whole buffer, as the code does, not at the frame.
\<close>

definition tcp_decode :: "bytes \<Rightarrow> result option" where
  "tcp_decode buf =
     (let len = unat (toUInt16_at buf 4) + 6;
          functionCode = byte_at buf 7
      in if functionCode AND 0x80 = 0 then
           (if functionCode = ReadHoldingRegisters \<or> functionCode = ReadInputRegisters then
              (let payloadSize = unat (byte_at buf 8)
               in if length buf > 8 \<and> 9 + payloadSize = len
                  then Some (Registers (tcp_registers_from buf 9 payloadSize))
                  else Some (Exception ParseError))
            else if functionCode = WriteSingleRegister then
              (if length buf > 11 then Some (Registers [toUInt16_at buf 10])
               else Some (Exception ParseError))
            else if functionCode = WriteMultipleRegisters then
              (if length buf = 12 then Some (Registers []) else Some (Exception ParseError))
            else None)
         else
           (if length buf > 8 then Some (Exception (byte_at buf 8))
            else Some (Exception ParseError)))"

function tcp_process ::
    "(nat \<Rightarrow> tcp_client \<Rightarrow> tcp_client) \<Rightarrow> bytes \<Rightarrow> tcp_client \<Rightarrow> bytes \<times> tcp_client" where
  "tcp_process slot buf c =
     (if length buf < 6 then (buf, c)
      else let len = unat (toUInt16_at buf 4) + 6
           in if length buf < len then (buf, c)
              else let tid = toUInt16_at buf 0;
                       c' = (case tcp_decode buf of
                               None \<Rightarrow> c
                             | Some x \<Rightarrow> tcp_setFinished slot tid x c)
                   in tcp_process slot (drop len buf) c')"
  by pat_completeness auto
termination
  by (relation "measure (\<lambda>(slot, buf, c). length buf)") auto

declare tcp_process.simps [simp del]

definition tcp_onReadyRead ::
    "(nat \<Rightarrow> tcp_client \<Rightarrow> tcp_client) \<Rightarrow> tcp_client \<Rightarrow> bytes \<Rightarrow> tcp_client" where
  "tcp_onReadyRead slot c chunk =
     (let (rest, c') = tcp_process slot (mBuffer c @ chunk) c
      in c'\<lparr> mBuffer := rest \<rparr>)"

subsection \<open>The other slots\<close>

text \<open>
  \<^verbatim>\<open>killTimer(mConnectTimerId)\<close>, and the slot of any running timer of the client (the id of the
  event is not looked at).
\<close>

definition tcp_killConnectTimer :: "tcp_client \<Rightarrow> tcp_client" where
  "tcp_killConnectTimer c =
     c\<lparr> mRunningTimers := removeAll (mConnectTimerId c) (mRunningTimers c), mConnectTimerId := 0 \<rparr>"

definition tcp_timerEvent :: "tcp_client \<Rightarrow> tcp_client" where
  "tcp_timerEvent c =
     (if mConnectTimerId c = 0 then c
      else tcp_emit SignalDisconnected (tcp_emit SocketDisconnect (tcp_killConnectTimer c)))"

definition tcp_onConnected :: "tcp_client \<Rightarrow> tcp_client" where
  "tcp_onConnected c =
     (let c' = c\<lparr> mSocketConnected := True \<rparr>;
          c'' = (if mConnectTimerId c' > 0 then tcp_killConnectTimer c' else c')
      in tcp_emit SignalConnected c'')"

text \<open>\<^verbatim>\<open>Reply::timerEvent\<close>: the request timed out; the reply stays in \<^verbatim>\<open>mPendingReplies\<close>.\<close>

definition tcp_replyTimeout ::
    "(nat \<Rightarrow> tcp_client \<Rightarrow> tcp_client) \<Rightarrow> nat \<Rightarrow> tcp_client \<Rightarrow> tcp_client" where
  "tcp_replyTimeout slot rid c = tcp_finish slot rid (Exception TimeoutError) c"

definition tcp_onReplyDestroyed :: "nat \<Rightarrow> tcp_client \<Rightarrow> tcp_client" where
  "tcp_onReplyDestroyed rid c =
     c\<lparr> mPendingReplies := AList.delete (mReplyTid c rid) (mPendingReplies c),
        mReplies := (mReplies c)(rid := None) \<rparr>"

text \<open>
  \<^verbatim>\<open>onSocketErrorReceived\<close>: \<^verbatim>\<open>foreach\<close> iterates over a copy of the map; the order of a
  \<^verbatim>\<open>QHash\<close> is not specified, here it is the order of the list.
\<close>

definition tcp_onSocketErrorReceived ::
    "(nat \<Rightarrow> tcp_client \<Rightarrow> tcp_client) \<Rightarrow> tcp_client \<Rightarrow> tcp_client" where
  "tcp_onSocketErrorReceived slot c =
     (let c' = foldl (\<lambda>d p. tcp_finish slot (snd p) (Exception TcpError) d) c (mPendingReplies c)
      in tcp_emit SignalDisconnected (c'\<lparr> mPendingReplies := [] \<rparr>))"

subsection \<open>Request frames\<close>

lemma tcp_emit_simps [simp]:
  "mSocketConnected (tcp_emit x c) = mSocketConnected c"
  "mPendingReplies (tcp_emit x c) = mPendingReplies c"
  "mReplies (tcp_emit x c) = mReplies c"
  "mReplyTid (tcp_emit x c) = mReplyTid c"
  "mNextReply (tcp_emit x c) = mNextReply c"
  "mBuffer (tcp_emit x c) = mBuffer c"
  "mTransactionId (tcp_emit x c) = mTransactionId c"
  "mConnectTimerId (tcp_emit x c) = mConnectTimerId c"
  "mRunningTimers (tcp_emit x c) = mRunningTimers c"
  "mOut (tcp_emit x c) = mOut c @ [x]"
  by (simp_all add: tcp_emit_def)

text \<open>
  The wire format that a Modbus TCP server reads: transaction id, protocol 0, a length that
  counts unit id and PDU, the unit id, the function code, the rest of the PDU.
\<close>

record adu =
  adu_tid :: u16
  adu_unit :: u8
  adu_function :: u8
  adu_data :: bytes

fun adu_parse :: "bytes \<Rightarrow> adu option" where
  "adu_parse (t1 # t0 # p1 # p0 # l1 # l0 # uid # fc # rest) =
     (if toUInt16 p1 p0 = 0 \<and> unat (toUInt16 l1 l0) = length rest + 2
      then Some \<lparr> adu_tid = toUInt16 t1 t0, adu_unit = uid, adu_function = fc, adu_data = rest \<rparr>
      else None)"
| "adu_parse _ = None"

text \<open>What a request call puts on the wire, and how it is registered.\<close>

definition tcp_sent :: "tcp_client \<Rightarrow> nat \<times> tcp_client \<Rightarrow> adu \<Rightarrow> bool" where
  "tcp_sent c res req \<longleftrightarrow>
     (let (rid, c') = res
      in \<exists>frame. mOut c' = mOut c @ [SocketWrite frame]
           \<and> adu_parse frame = Some req
           \<and> map_of (mPendingReplies c') (adu_tid req) = Some rid
           \<and> mReplies c' rid = Some new_reply
           \<and> adu_tid req = mTransactionId c + 1
           \<and> mTransactionId c' = mTransactionId c + 1)"

lemma tcp_sendFrame_sent:
  assumes "tcp_createFrame fc uid count c = (hdr, c')"
    and "unat (count + 2) = length body + 2"
  shows "tcp_sent c (tcp_sendFrame (hdr @ body) c')
           \<lparr> adu_tid = mTransactionId c + 1, adu_unit = uid, adu_function = fc, adu_data = body \<rparr>"
  using assms
  by (auto simp: tcp_createFrame_def tcp_sendFrame_def tcp_sent_def Let_def unat_toUInt16 update_conv)

lemma tcp_readRegisters_sent:
  "tcp_sent c (tcp_readRegisters fc uid start count c)
     \<lparr> adu_tid = mTransactionId c + 1, adu_unit = uid, adu_function = fc,
       adu_data = reg_bytes [start, count] \<rparr>"
  unfolding tcp_readRegisters_def
  by (auto split: prod.split intro!: tcp_sendFrame_sent)

lemma tcp_writeSingle_sent:
  "tcp_sent c (tcp_writeSingleHoldingRegister uid reg value c)
     \<lparr> adu_tid = mTransactionId c + 1, adu_unit = uid, adu_function = WriteSingleRegister,
       adu_data = reg_bytes [reg, value] \<rparr>"
  unfolding tcp_writeSingleHoldingRegister_def
  by (auto split: prod.split intro!: tcp_sendFrame_sent)

lemma tcp_writeMultiple_sent:
  assumes "length values \<le> 124"
  shows "tcp_sent c (tcp_writeMultipleHoldingRegisters uid start values c)
     \<lparr> adu_tid = mTransactionId c + 1, adu_unit = uid, adu_function = WriteMultipleRegisters,
       adu_data = reg_bytes [start, of_nat (length values)]
         @ [of_nat (2 * length values)] @ reg_bytes values \<rparr>"
proof -
  have "(of_nat (5 + 2 * length values) + 2 :: u8) = of_nat (7 + 2 * length values)"
    by (simp add: algebra_simps)
  then have "unat (of_nat (5 + 2 * length values) + 2 :: u8) = 7 + 2 * length values"
    using assms unat_of_nat_u8 [of "7 + 2 * length values"] by simp
  then show ?thesis
    unfolding tcp_writeMultipleHoldingRegisters_def Let_def
    by (auto split: prod.split intro!: tcp_sendFrame_sent simp: mult.commute)
qed

subsection \<open>Response frames\<close>

text \<open>What a Modbus TCP server sends, and the result it stands for.\<close>

datatype response =
    ReadResponse bool "u16 list"
  | WriteSingleResponse u16 u16
  | WriteMultipleResponse u16 u16
  | ExceptionResponse u8 u8

fun response_pdu :: "response \<Rightarrow> bytes" where
  "response_pdu (ReadResponse holding vs) =
     (if holding then ReadHoldingRegisters else ReadInputRegisters)
       # of_nat (2 * length vs) # reg_bytes vs"
| "response_pdu (WriteSingleResponse reg value) = WriteSingleRegister # reg_bytes [reg, value]"
| "response_pdu (WriteMultipleResponse reg count) = WriteMultipleRegisters # reg_bytes [reg, count]"
| "response_pdu (ExceptionResponse fc code) = [fc OR 0x80, code]"

fun response_result :: "response \<Rightarrow> result" where
  "response_result (ReadResponse holding vs) = Registers vs"
| "response_result (WriteSingleResponse reg value) = Registers [value]"
| "response_result (WriteMultipleResponse reg count) = Registers []"
| "response_result (ExceptionResponse fc code) = Exception code"

fun response_ok :: "response \<Rightarrow> bool" where
  "response_ok (ReadResponse holding vs) \<longleftrightarrow> length vs < 128"
| "response_ok (WriteMultipleResponse reg count) \<longleftrightarrow> False"
| "response_ok _ \<longleftrightarrow> True"

definition response_frame :: "u16 \<Rightarrow> u8 \<Rightarrow> response \<Rightarrow> bytes" where
  "response_frame tid uid r =
     (let len = of_nat (1 + length (response_pdu r))
      in [msb tid, lsb tid, 0, 0, msb len, lsb len, uid] @ response_pdu r)"

lemma length_response_pdu: "response_ok r \<Longrightarrow> length (response_pdu r) < 300"
  by (cases r) auto

lemma registers_from_reg_bytes:
  "length vs = n \<Longrightarrow> tcp_registers_from (xs @ reg_bytes vs @ ys) (length xs) (2 * n) = vs"
proof (induction vs arbitrary: xs n)
  case Nil
  then show ?case by simp
next
  case (Cons v vs)
  then obtain m where n: "n = Suc m" "length vs = m" by auto
  have at: "toUInt16_at (xs @ reg_bytes (v # vs) @ ys) (length xs) = v"
    by (simp add: toUInt16_at_def byte_at_def nth_append)
  have "tcp_registers_from ((xs @ [msb v, lsb v]) @ reg_bytes vs @ ys)
      (length (xs @ [msb v, lsb v])) (2 * m) = vs"
    using n(2) by (rule Cons.IH)
  then show ?case
    using at n by simp
qed

lemma response_length_field:
  "toUInt16_at (response_frame tid uid r @ rest) 4 = of_nat (1 + length (response_pdu r))"
  by (simp add: response_frame_def Let_def toUInt16_at_def)

lemma length_response_frame:
  assumes "response_ok r"
  shows "length (response_frame tid uid r) = unat (toUInt16_at (response_frame tid uid r @ rest) 4) + 6"
proof -
  have "unat (of_nat (1 + length (response_pdu r)) :: u16) = 1 + length (response_pdu r)"
    using length_response_pdu [OF assms] by (intro unat_of_nat_u16) simp
  then show ?thesis
    unfolding response_length_field by (simp add: response_frame_def Let_def)
qed

lemma bit_or_0x80: "(fc OR 0x80) AND 0x80 \<noteq> (0 :: u8)"
proof
  assume "(fc OR 0x80) AND 0x80 = (0 :: u8)"
  then have "bit ((fc OR 0x80) AND (0x80 :: u8)) 7 = bit (0 :: u8) 7" by simp
  then show False by (simp add: bit_simps)
qed

lemma tcp_decode_frame:
  assumes "response_ok r"
  shows "tcp_decode (response_frame tid uid r @ rest) = Some (response_result r)"
proof -
  let ?buf = "response_frame tid uid r @ rest"
  have "length (response_frame tid uid r) = 7 + length (response_pdu r)"
    by (simp add: response_frame_def Let_def)
  then have len: "unat (toUInt16_at ?buf 4) + 6 = 7 + length (response_pdu r)"
    using length_response_frame [OF assms, of tid uid rest] by linarith
  show ?thesis
  proof (cases r)
    case (ReadResponse holding vs)
    obtain pre where pre: "?buf = pre @ reg_bytes vs @ rest" "length pre = 9"
    proof
      show "?buf = (take 7 ?buf @ take 2 (response_pdu r)) @ reg_bytes vs @ rest"
        "length (take 7 ?buf @ take 2 (response_pdu r)) = 9"
        by (simp_all add: ReadResponse response_frame_def Let_def)
    qed
    have "tcp_registers_from ?buf 9 (2 * length vs) = vs"
      using registers_from_reg_bytes [of vs "length vs" pre rest] by (simp add: pre)
    then show ?thesis
      using assms len unat_of_nat_u8 [of "2 * length vs"]
      by (auto simp: ReadResponse tcp_decode_def response_frame_def Let_def function_codes unat_of_nat_u8)
  qed (use assms len in \<open>auto simp: tcp_decode_def response_frame_def Let_def function_codes
         toUInt16_at_def bit_or_0x80\<close>)
qed

subsection \<open>A stream of responses, in any chunks\<close>

type_synonym numbered_response = "u16 \<times> u8 \<times> response"

definition stream :: "numbered_response list \<Rightarrow> bytes" where
  "stream rs = concat (map (\<lambda>(tid, uid, r). response_frame tid uid r) rs)"

definition deliver ::
    "(nat \<Rightarrow> tcp_client \<Rightarrow> tcp_client) \<Rightarrow> tcp_client \<Rightarrow> numbered_response \<Rightarrow> tcp_client" where
  "deliver slot c = (\<lambda>(tid, uid, r). tcp_setFinished slot tid (response_result r) c)"

definition numbered_ok :: "numbered_response \<Rightarrow> bool" where
  "numbered_ok x = response_ok (snd (snd x))"

lemma numbered_ok_simp [simp]: "numbered_ok (tid, uid, r) = response_ok r"
  by (simp add: numbered_ok_def)

lemma stream_simps [simp]:
  "stream [] = []"
  "stream ((tid, uid, r) # rs) = response_frame tid uid r @ stream rs"
  by (simp_all add: stream_def)

lemma length_response_frame_ge: "7 \<le> length (response_frame tid uid r)"
  by (simp add: response_frame_def Let_def)

definition tcp_incomplete :: "bytes \<Rightarrow> bool" where
  "tcp_incomplete buf \<longleftrightarrow> length buf < 6 \<or> length buf < unat (toUInt16_at buf 4) + 6"

lemma tcp_process_stop: "tcp_incomplete buf \<Longrightarrow> tcp_process slot buf c = (buf, c)"
  by (subst tcp_process.simps) (auto simp: tcp_incomplete_def Let_def)

lemma tcp_process_step:
  "\<not> tcp_incomplete buf \<Longrightarrow> tcp_process slot buf c =
    tcp_process slot (drop (unat (toUInt16_at buf 4) + 6) buf)
      (case tcp_decode buf of None \<Rightarrow> c
       | Some x \<Rightarrow> tcp_setFinished slot (toUInt16_at buf 0) x c)"
  by (subst tcp_process.simps) (auto simp: tcp_incomplete_def Let_def)

lemma tcp_process_shrinks:
  "\<not> tcp_incomplete buf \<Longrightarrow> length (drop (unat (toUInt16_at buf 4) + 6) buf) < length buf"
  by (auto simp: tcp_incomplete_def)

lemma tcp_process_frame:
  assumes "response_ok r"
  shows "tcp_process slot (response_frame tid uid r @ rest) c =
    tcp_process slot rest (deliver slot c (tid, uid, r))"
proof -
  let ?f = "response_frame tid uid r"
  have len: "length ?f = unat (toUInt16_at (?f @ rest) 4) + 6"
    using assms by (rule length_response_frame)
  have tid: "toUInt16_at (?f @ rest) 0 = tid"
    by (simp add: response_frame_def Let_def toUInt16_at_def)
  show ?thesis
    using length_response_frame_ge [of tid uid r]
    by (subst tcp_process.simps)
      (simp add: Let_def len [symmetric] tid tcp_decode_frame [OF assms] deliver_def)
qed

text \<open>Of an incomplete frame nothing is consumed.\<close>

lemma tcp_process_partial:
  assumes "response_ok r" and p: "response_frame tid uid r = p @ q" "q \<noteq> []"
  shows "tcp_process slot p c = (p, c)"
proof (cases "length p < 6")
  case True
  then show ?thesis by (subst tcp_process.simps) simp
next
  case False
  have "length (p @ q) = unat (toUInt16_at ((p @ q) @ []) 4) + 6"
    using length_response_frame [OF assms(1), of tid uid "[]"] p(1) by simp
  moreover have "toUInt16_at ((p @ q) @ []) 4 = toUInt16_at p 4"
    using False by (simp add: toUInt16_at_def byte_at_def nth_append)
  ultimately have "length p < unat (toUInt16_at p 4) + 6"
    using p(2) by (simp flip: length_greater_0_conv)
  then show ?thesis
    by (subst tcp_process.simps) (simp add: Let_def)
qed

lemma tcp_process_stream:
  "list_all numbered_ok rs \<Longrightarrow> tcp_process slot (stream rs) c = ([], foldl (deliver slot) c rs)"
proof (induction rs arbitrary: c)
  case Nil
  then show ?case by (simp add: tcp_process.simps)
next
  case (Cons x rs)
  then show ?case
    by (cases x) (simp add: tcp_process_frame)
qed

text \<open>Cutting a stream anywhere: the rest of the first piece stays in front of the second.\<close>

lemma tcp_process_split:
  assumes "list_all numbered_ok rs" "p @ q @ z = stream rs"
  shows "tcp_process slot (p @ q) c =
    (let (rest, c') = tcp_process slot p c in tcp_process slot (rest @ q) c')
    \<and> (\<exists>rs'. list_all numbered_ok rs' \<and> fst (tcp_process slot p c) @ q @ z = stream rs')"
  using assms
proof (induction rs arbitrary: p c)
  case Nil
  then have "p = []" "q = []" by auto
  then show ?case
    using Nil by (auto simp: tcp_process.simps intro!: exI [of _ "[]"])
next
  case (Cons x rs)
  obtain tid uid r where x: "x = (tid, uid, r)" by (cases x)
  have r: "response_ok r" and rs: "list_all numbered_ok rs"
    using Cons.prems(1) by (auto simp: x)
  let ?f = "response_frame tid uid r"
  have eq: "p @ q @ z = ?f @ stream rs"
    using Cons.prems(2) by (simp add: x)
  obtain us where "p = ?f @ us \<and> us @ q @ z = stream rs \<or> p @ us = ?f \<and> q @ z = us @ stream rs"
    using eq append_eq_append_conv2 [of p "q @ z" ?f "stream rs"] by auto
  then consider p' where "p = ?f @ p'" "p' @ q @ z = stream rs"
    | y where "?f = p @ y" "y \<noteq> []"
    by (cases "us = []") (auto dest: sym)
  then show ?case
  proof cases
    case 1
    then show ?thesis
      using Cons.IH [OF rs 1(2)] by (simp add: tcp_process_frame [OF r])
  next
    case 2
    then show ?thesis
      using Cons.prems tcp_process_partial [OF r 2] by (auto intro!: exI [of _ "x # rs"])
  qed
qed

lemma tcp_process_settled:
  "tcp_process slot buf c = (rest, c') \<Longrightarrow> tcp_process slot rest d = (rest, d)"
proof (induction buf arbitrary: c rule: length_induct)
  case (1 buf)
  show ?case
  proof (cases "tcp_incomplete buf")
    case True
    then show ?thesis using "1.prems" by (simp add: tcp_process_stop)
  next
    case False
    show ?thesis
      using "1.prems" unfolding tcp_process_step [OF False]
      by (rule "1.IH" [rule_format, OF tcp_process_shrinks [OF False]])
  qed
qed

text \<open>
  Users of the client reach the receive buffer through no operation: a slot treats it as if it
  were not there.  The contract of such a slot, and what every one of them sees of a stream.
\<close>

locale tcp_slot =
  fixes slot :: "nat \<Rightarrow> tcp_client \<Rightarrow> tcp_client"
  assumes slot_buffer: "slot rid (c\<lparr> mBuffer := b \<rparr>) = (slot rid c)\<lparr> mBuffer := b \<rparr>"
begin

lemma finish_buffer:
  "tcp_finish slot rid x (c\<lparr> mBuffer := b \<rparr>) = (tcp_finish slot rid x c)\<lparr> mBuffer := b \<rparr>"
proof (cases "mReplies c rid")
  case (Some r)
  have upd: "c\<lparr> mBuffer := b, mReplies := m \<rparr> = c\<lparr> mReplies := m, mBuffer := b \<rparr>" for m
    by simp
  have emit: "tcp_emit e (d\<lparr> mBuffer := b \<rparr>) = (tcp_emit e d)\<lparr> mBuffer := b \<rparr>" for e d
    by (simp add: tcp_emit_def)
  from Some show ?thesis
    by (simp add: tcp_finish_def Let_def upd emit slot_buffer split: prod.split del: fun_upd_apply)
qed (simp add: tcp_finish_def)

lemma setFinished_buffer:
  "tcp_setFinished slot tid x (c\<lparr> mBuffer := b \<rparr>) = (tcp_setFinished slot tid x c)\<lparr> mBuffer := b \<rparr>"
proof (cases "map_of (mPendingReplies c) tid")
  case (Some rid)
  have upd: "c\<lparr> mBuffer := b, mPendingReplies := p \<rparr> = c\<lparr> mPendingReplies := p, mBuffer := b \<rparr>" for p
    by simp
  from Some show ?thesis
    by (simp add: tcp_setFinished_def tcp_popReply_def upd finish_buffer)
qed (simp add: tcp_setFinished_def tcp_popReply_def)

lemma process_buffer:
  "tcp_process slot buf (c\<lparr> mBuffer := b \<rparr>) =
    apsnd (\<lambda>c'. c'\<lparr> mBuffer := b \<rparr>) (tcp_process slot buf c)"
proof (induction buf arbitrary: c rule: length_induct)
  case (1 buf)
  show ?case
  proof (cases "tcp_incomplete buf")
    case True
    then show ?thesis by (simp add: tcp_process_stop)
  next
    case False
    have "(case tcp_decode buf of None \<Rightarrow> c\<lparr> mBuffer := b \<rparr>
         | Some x \<Rightarrow> tcp_setFinished slot tid x (c\<lparr> mBuffer := b \<rparr>)) =
        (case tcp_decode buf of None \<Rightarrow> c
         | Some x \<Rightarrow> tcp_setFinished slot tid x c)\<lparr> mBuffer := b \<rparr>" for tid
      by (simp add: setFinished_buffer split: option.split)
    then show ?thesis
      using "1.IH" tcp_process_shrinks [OF False] by (simp add: tcp_process_step [OF False])
  qed
qed

lemma deliver_buffer: "deliver slot (c\<lparr> mBuffer := b \<rparr>) r = (deliver slot c r)\<lparr> mBuffer := b \<rparr>"
  by (cases r) (simp add: deliver_def setFinished_buffer)

lemma foldl_deliver_buffer:
  "foldl (deliver slot) (c\<lparr> mBuffer := b \<rparr>) rs = (foldl (deliver slot) c rs)\<lparr> mBuffer := b \<rparr>"
  by (induction rs arbitrary: c) (simp_all add: deliver_buffer)

text \<open>However the network cuts a stream, the result is that of the whole stream.\<close>

lemma chunks_process:
  assumes "list_all numbered_ok rs" "mBuffer c @ concat chunks = stream rs"
    and "tcp_process slot (mBuffer c) c = (mBuffer c, c)"
  shows "foldl (tcp_onReadyRead slot) c chunks =
    (let (rest, c') = tcp_process slot (mBuffer c @ concat chunks) c in c'\<lparr> mBuffer := rest \<rparr>)"
  using assms
proof (induction chunks arbitrary: c rs)
  case Nil
  then show ?case by simp
next
  case (Cons q chunks)
  obtain rest c1 where c1: "tcp_process slot (mBuffer c @ q) c = (rest, c1)"
    by (cases "tcp_process slot (mBuffer c @ q) c")
  let ?c2 = "c1\<lparr> mBuffer := rest \<rparr>"
  have eq: "(mBuffer c @ q) @ concat chunks @ [] = stream rs"
    using Cons.prems(2) by simp
  note split = tcp_process_split [OF Cons.prems(1) eq, of slot c, unfolded c1]
  then obtain rs' where rs': "list_all numbered_ok rs'" "mBuffer ?c2 @ concat chunks = stream rs'"
    by auto
  have "foldl (tcp_onReadyRead slot) ?c2 chunks =
      (let (rest', c') = tcp_process slot (mBuffer ?c2 @ concat chunks) ?c2 in c'\<lparr> mBuffer := rest' \<rparr>)"
    using rs' tcp_process_settled [OF c1, of ?c2] by (intro Cons.IH) simp_all
  also have "\<dots> = (let (rest', c') = tcp_process slot (rest @ concat chunks) c1 in c'\<lparr> mBuffer := rest' \<rparr>)"
    by (simp add: process_buffer split: prod.split)
  also have "?c2 = tcp_onReadyRead slot c q"
    by (simp add: tcp_onReadyRead_def c1)
  finally show ?case
    using split by (simp split: prod.splits)
qed

lemma chunks_deliver:
  assumes "list_all numbered_ok rs" "concat chunks = stream rs" "mBuffer c = []"
  shows "foldl (tcp_onReadyRead slot) c chunks = foldl (deliver slot) c rs"
proof -
  have "c\<lparr> mBuffer := [] \<rparr> = c"
    using assms(3) by simp
  then have "(foldl (deliver slot) c rs)\<lparr> mBuffer := [] \<rparr> = foldl (deliver slot) c rs"
    using foldl_deliver_buffer [where c = c and b = "[]" and rs = rs] by simp
  then show ?thesis
    using chunks_process [where rs = rs and c = c and chunks = chunks] assms tcp_process_stream [OF assms(1), of slot c]
    by (simp add: tcp_process.simps [of slot "[]"])
qed

end

text \<open>
  The slots of the program: the updaters and the detectors answer a finished reply with the next
  read request, or with none.
\<close>

definition slot_read_next :: "(nat \<Rightarrow> tcp_client \<Rightarrow> (u8 \<times> u16 \<times> u16) option) \<Rightarrow>
    nat \<Rightarrow> tcp_client \<Rightarrow> tcp_client" where
  "slot_read_next nxt rid c =
     (case nxt rid (c\<lparr> mBuffer := [] \<rparr>) of
        None \<Rightarrow> c
      | Some (uid, start, count) \<Rightarrow> snd (tcp_readHoldingRegisters uid start count c))"

subsection \<open>Reply objects: no dangling pointer, every result signalled once\<close>

definition tcp_inv :: "tcp_client \<Rightarrow> bool" where
  "tcp_inv c \<longleftrightarrow>
     (\<forall>rid r. mReplies c rid = Some r \<longrightarrow>
        rid < mNextReply c \<and> (isFinished r \<longleftrightarrow> SignalFinished rid \<in> set (mOut c))) \<and>
     (\<forall>rid. count_list (mOut c) (SignalFinished rid) \<le> 1 \<and>
        (SignalFinished rid \<in> set (mOut c) \<longrightarrow> rid < mNextReply c)) \<and>
     distinct (map fst (mPendingReplies c)) \<and>
     (\<forall>tid rid. map_of (mPendingReplies c) tid = Some rid \<longrightarrow>
        mReplyTid c rid = tid \<and> mReplies c rid \<noteq> None)"

lemma tcp_inv_new: "tcp_inv tcp_new"
  by (simp add: tcp_inv_def tcp_new_def)

lemma tcp_inv_emit:
  "tcp_inv c \<Longrightarrow> (\<forall>rid. x \<noteq> SignalFinished rid) \<Longrightarrow> tcp_inv (tcp_emit x c)"
  by (auto simp: tcp_inv_def)

lemma tcp_inv_frame:
  assumes "tcp_inv c" "mReplies c' = mReplies c" "mNextReply c' = mNextReply c" "mOut c' = mOut c"
    "mReplyTid c' = mReplyTid c" "mPendingReplies c' = mPendingReplies c"
  shows "tcp_inv c'"
  using assms by (simp add: tcp_inv_def)

lemma tcp_inv_delete:
  "tcp_inv c \<Longrightarrow> tcp_inv (c\<lparr> mPendingReplies := AList.delete tid (mPendingReplies c) \<rparr>)"
  by (auto simp: tcp_inv_def delete_conv' distinct_delete)

lemma tcp_inv_clear: "tcp_inv c \<Longrightarrow> tcp_inv (c\<lparr> mPendingReplies := [] \<rparr>)"
  by (simp add: tcp_inv_def)

lemma tcp_inv_send: "tcp_inv c \<Longrightarrow> tcp_inv (snd (tcp_sendFrame frame c))"
  unfolding tcp_inv_def tcp_sendFrame_def Let_def
  by (auto simp: update_conv' distinct_update new_reply_def split: if_splits)
    (fastforce simp: less_Suc_eq)+

lemma tcp_inv_createFrame:
  "tcp_inv c \<Longrightarrow> tcp_inv (snd (tcp_createFrame fc uid n c))"
  unfolding tcp_createFrame_def Let_def by (rule tcp_inv_frame) simp_all

lemma tcp_inv_requests:
  assumes "tcp_inv c"
  shows "tcp_inv (snd (tcp_readRegisters fc uid start count c))"
    "tcp_inv (snd (tcp_writeSingleHoldingRegister uid reg value c))"
    "tcp_inv (snd (tcp_writeMultipleHoldingRegisters uid start values c))"
  using assms
  by (simp_all add: tcp_readRegisters_def tcp_writeSingleHoldingRegister_def
      tcp_writeMultipleHoldingRegisters_def Let_def case_prod_beta tcp_inv_send tcp_inv_createFrame)

lemma tcp_inv_set_result:
  assumes "tcp_inv c" "mReplies c rid = Some r" "\<not> isFinished r"
  shows "tcp_inv (tcp_emit (SignalFinished rid)
           (c\<lparr> mReplies := (mReplies c)(rid \<mapsto> fst (setResult x r)) \<rparr>))"
proof -
  have "SignalFinished rid \<notin> set (mOut c)" "rid < mNextReply c"
    using assms by (auto simp: tcp_inv_def)
  then have "count_list (mOut c) (SignalFinished rid) = 0"
    by simp
  with assms(1) \<open>rid < mNextReply c\<close> show ?thesis
    by (auto simp: tcp_inv_def)
qed

text \<open>What the handlers need of a slot: it keeps the invariant and touches no existing reply.\<close>

locale tcp_user = tcp_slot +
  assumes slot_inv: "tcp_inv c \<Longrightarrow> tcp_inv (slot rid c)"
    and slot_keeps: "tcp_inv c \<Longrightarrow> mReplies c r = Some x \<Longrightarrow> mReplies (slot rid c) r = Some x"
begin

lemma finish_inv: "tcp_inv c \<Longrightarrow> tcp_inv (tcp_finish slot rid x c)"
proof (cases "mReplies c rid")
  case (Some r)
  assume inv: "tcp_inv c"
  show ?thesis
  proof (cases "isFinished r")
    case True
    have "c\<lparr> mReplies := (mReplies c)(rid \<mapsto> r) \<rparr> = c"
      using Some by (simp add: fun_upd_idem)
    then show ?thesis
      using True Some inv by (simp add: tcp_finish_def)
  next
    case False
    have "tcp_finish slot rid x c = slot rid (tcp_emit (SignalFinished rid)
           (c\<lparr> mReplies := (mReplies c)(rid \<mapsto> fst (setResult x r)) \<rparr>))"
      using False Some by (simp add: tcp_finish_def Let_def case_prod_beta)
    then show ?thesis
      using slot_inv [OF tcp_inv_set_result [OF inv Some False]] by simp
  qed
qed (simp add: tcp_finish_def)

lemma finish_reply:
  assumes "tcp_inv c" "mReplies c r = Some y"
  shows "mReplies (tcp_finish slot rid x c) r = Some (if r = rid then fst (setResult x y) else y)"
proof (cases "mReplies c rid")
  case (Some z)
  show ?thesis
  proof (cases "isFinished z")
    case True
    then show ?thesis using Some assms by (auto simp: tcp_finish_def)
  next
    case False
    show ?thesis
      using Some False assms tcp_inv_set_result [OF assms(1) Some False]
      by (auto simp: tcp_finish_def Let_def case_prod_beta intro!: slot_keeps)
  qed
qed (use assms in \<open>auto simp: tcp_finish_def\<close>)

lemma setFinished_inv: "tcp_inv c \<Longrightarrow> tcp_inv (tcp_setFinished slot tid x c)"
  by (auto simp: tcp_setFinished_def tcp_popReply_def split: option.split
      intro!: finish_inv tcp_inv_delete)

lemma process_inv: "tcp_inv c \<Longrightarrow> tcp_inv (snd (tcp_process slot buf c))"
proof (induction buf arbitrary: c rule: length_induct)
  case (1 buf)
  show ?case
  proof (cases "tcp_incomplete buf")
    case True
    then show ?thesis using "1.prems" by (simp add: tcp_process_stop)
  next
    case False
    have "tcp_inv (case tcp_decode buf of None \<Rightarrow> c
         | Some x \<Rightarrow> tcp_setFinished slot (toUInt16_at buf 0) x c)"
      using "1.prems" by (auto intro: setFinished_inv split: option.split)
    then show ?thesis
      unfolding tcp_process_step [OF False]
      by (rule "1.IH" [rule_format, OF tcp_process_shrinks [OF False]])
  qed
qed

lemma onReadyRead_inv: "tcp_inv c \<Longrightarrow> tcp_inv (tcp_onReadyRead slot c chunk)"
  using process_inv [of c "mBuffer c @ chunk"]
  by (auto simp: tcp_onReadyRead_def case_prod_beta intro: tcp_inv_frame)

lemma foldl_finish_inv:
  "tcp_inv c \<Longrightarrow> tcp_inv (foldl (\<lambda>d p. tcp_finish slot (snd p) x d) c ps)"
  by (induction ps arbitrary: c) (simp_all add: finish_inv)

lemma foldl_finish_reply:
  "tcp_inv c \<Longrightarrow> mReplies c r = Some y \<Longrightarrow>
    mReplies (foldl (\<lambda>d p. tcp_finish slot (snd p) x d) c ps) r =
      Some (if r \<in> snd ` set ps then fst (setResult x y) else y)"
proof (induction ps arbitrary: c y)
  case (Cons p ps)
  then show ?case
    using finish_reply [OF Cons.prems, of "snd p" x] finish_inv [OF Cons.prems(1), of "snd p" x]
    by auto
qed simp

lemma onSocketError_reply:
  assumes "tcp_inv c" "(tid, rid) \<in> set (mPendingReplies c)"
  shows "\<exists>r. mReplies c rid = Some r \<and>
    mReplies (tcp_onSocketErrorReceived slot c) rid = Some (fst (setResult (Exception TcpError) r))"
proof -
  have "map_of (mPendingReplies c) tid = Some rid"
    using assms by (auto simp: tcp_inv_def)
  then have "mReplies c rid \<noteq> None"
    using assms(1) unfolding tcp_inv_def by blast
  then obtain r where r: "mReplies c rid = Some r"
    by blast
  moreover have "rid \<in> snd ` set (mPendingReplies c)"
    using assms(2) by force
  ultimately show ?thesis
    using foldl_finish_reply [OF assms(1) r, of "Exception TcpError" "mPendingReplies c"]
    by (simp add: tcp_onSocketErrorReceived_def Let_def del: setResult.simps)
qed

lemma onSocketError_inv: "tcp_inv c \<Longrightarrow> tcp_inv (tcp_onSocketErrorReceived slot c)"
  unfolding tcp_onSocketErrorReceived_def Let_def
  by (intro tcp_inv_emit tcp_inv_clear foldl_finish_inv) simp_all

end

lemma slot_read_next_keeps:
  assumes "tcp_inv c" "mReplies c r = Some x"
  shows "mReplies (slot_read_next nxt rid c) r = Some x"
proof -
  have "r < mNextReply c"
    using assms by (auto simp: tcp_inv_def)
  with assms(2) show ?thesis
    by (auto simp: slot_read_next_def tcp_readHoldingRegisters_def tcp_readRegisters_def
        tcp_createFrame_def tcp_sendFrame_def Let_def split: option.split)
qed

lemma slot_read_next_inv: "tcp_inv c \<Longrightarrow> tcp_inv (slot_read_next nxt rid c)"
  by (auto simp: slot_read_next_def tcp_readHoldingRegisters_def
      intro: tcp_inv_requests split: option.split)

lemma slot_read_next_buffer:
  "slot_read_next nxt rid (c\<lparr> mBuffer := b \<rparr>) = (slot_read_next nxt rid c)\<lparr> mBuffer := b \<rparr>"
  by (auto simp: slot_read_next_def tcp_readHoldingRegisters_def tcp_readRegisters_def
      tcp_createFrame_def tcp_sendFrame_def tcp_emit_def Let_def split: option.split)

interpretation tcp: tcp_user "slot_read_next nxt" for nxt
  by unfold_locales
    (simp_all add: slot_read_next_buffer slot_read_next_inv slot_read_next_keeps)

subsection \<open>Runs of the client\<close>

datatype tcp_event =
    EvConnect string u16
  | EvConnected
  | EvTimer
  | EvRead bool u8 u16 u16
  | EvWriteSingle u8 u16 u16
  | EvWriteMultiple u8 u16 "u16 list"
  | EvReceive bytes
  | EvReplyTimeout nat
  | EvReplyDestroyed nat
  | EvSocketError

fun tcp_step ::
    "(nat \<Rightarrow> tcp_client \<Rightarrow> tcp_client) \<Rightarrow> tcp_client \<Rightarrow> tcp_event \<Rightarrow> tcp_client" where
  "tcp_step slot c (EvConnect host port) = tcp_connectToServer host port c"
| "tcp_step slot c EvConnected = tcp_onConnected c"
| "tcp_step slot c EvTimer = tcp_timerEvent c"
| "tcp_step slot c (EvRead holding uid start count) =
     snd ((if holding then tcp_readHoldingRegisters else tcp_readInputRegisters) uid start count c)"
| "tcp_step slot c (EvWriteSingle uid reg value) = snd (tcp_writeSingleHoldingRegister uid reg value c)"
| "tcp_step slot c (EvWriteMultiple uid start values) =
     snd (tcp_writeMultipleHoldingRegisters uid start values c)"
| "tcp_step slot c (EvReceive chunk) = tcp_onReadyRead slot c chunk"
| "tcp_step slot c (EvReplyTimeout rid) = tcp_replyTimeout slot rid c"
| "tcp_step slot c (EvReplyDestroyed rid) = tcp_onReplyDestroyed rid c"
| "tcp_step slot c EvSocketError = tcp_onSocketErrorReceived slot c"

lemma tcp_inv_destroyed: "tcp_inv c \<Longrightarrow> tcp_inv (tcp_onReplyDestroyed rid c)"
  by (auto simp: tcp_inv_def tcp_onReplyDestroyed_def delete_conv' distinct_delete)

lemma tcp_inv_kill: "tcp_inv c \<Longrightarrow> tcp_inv (tcp_killConnectTimer c)"
  by (erule tcp_inv_frame) (simp_all add: tcp_killConnectTimer_def)

lemma tcp_inv_connect: "tcp_inv c \<Longrightarrow> tcp_inv (tcp_connectToServer host port c)"
  unfolding tcp_connectToServer_def by (rule tcp_inv_emit) (erule tcp_inv_frame, simp_all)

lemma tcp_inv_timer: "tcp_inv c \<Longrightarrow> tcp_inv (tcp_timerEvent c)"
  by (simp add: tcp_timerEvent_def tcp_inv_emit tcp_inv_kill)

lemma tcp_inv_connected: "tcp_inv c \<Longrightarrow> tcp_inv (tcp_onConnected c)"
proof -
  assume "tcp_inv c"
  then have "tcp_inv (c\<lparr> mSocketConnected := True \<rparr>)"
    by (rule tcp_inv_frame) simp_all
  then show ?thesis
    by (simp add: tcp_onConnected_def Let_def tcp_inv_emit tcp_inv_kill)
qed

lemmas tcp_inv_steps = tcp_inv_requests tcp_inv_destroyed tcp_inv_connect tcp_inv_timer
  tcp_inv_connected tcp.onReadyRead_inv tcp.finish_inv tcp.onSocketError_inv

lemma tcp_step_inv: "tcp_inv c \<Longrightarrow> tcp_inv (tcp_step (slot_read_next nxt) c e)"
  by (cases e) (auto simp: tcp_readHoldingRegisters_def tcp_readInputRegisters_def
      tcp_replyTimeout_def tcp_inv_steps)

interpretation tcp_run: invariant_machine "tcp_step (slot_read_next nxt)" tcp_inv "\<lambda>_. True" for nxt
  by unfold_locales (rule tcp_step_inv)

lemma tcp_reachable_inv: "tcp_inv (run (tcp_step (slot_read_next nxt)) tcp_new es)"
  by (rule tcp_run.run_inv) (simp_all add: tcp_inv_new list.pred_True)

lemma tcp_multiple_decode:
  "tcp_decode (response_frame tid uid (WriteMultipleResponse reg n)) = Some (Registers [])"
  "tcp_decode (response_frame tid uid (WriteMultipleResponse reg n) @ b # rest) =
    Some (Exception ParseError)"
  by (simp_all add: tcp_decode_def response_frame_def Let_def function_codes)

lemma tcp_connect_timers:
  "mRunningTimers (tcp_connectToServer h p (tcp_onSocketErrorReceived slot
      (tcp_connectToServer h p tcp_new))) = [1, 2]"
  "mConnectTimerId (tcp_connectToServer h p (tcp_onSocketErrorReceived slot
      (tcp_connectToServer h p tcp_new))) = 2"
  by (simp_all add: tcp_connectToServer_def tcp_onSocketErrorReceived_def Let_def tcp_new_def
      tcp_emit_def)

subsection \<open>Properties\<close>

text \<open>
  C30. A \<^verbatim>\<open>WriteMultipleHoldingRegisters\<close> request of up to 124 registers is a well-formed
  Modbus TCP frame that carries a fresh transaction id, the unit, the start register, the count,
  the byte count and every value, and the reply object is registered under that id.
\<close>

theorem tcp_write_multiple_wire:
  assumes "length values \<le> 124"
  shows "tcp_sent c (tcp_writeMultipleHoldingRegisters uid start values c)
     \<lparr> adu_tid = mTransactionId c + 1, adu_unit = uid, adu_function = WriteMultipleRegisters,
       adu_data = reg_bytes [start, of_nat (length values)]
         @ [of_nat (2 * length values)] @ reg_bytes values \<rparr>"
  using assms by (rule tcp_writeMultiple_sent)

theorem tcp_write_multiple_wire_witness:
  "tcp_sent tcp_new (tcp_writeMultipleHoldingRegisters 126 40242 [8500, 0, 120, 0, 1] tcp_new)
     \<lparr> adu_tid = mTransactionId tcp_new + 1, adu_unit = 126, adu_function = WriteMultipleRegisters,
       adu_data = reg_bytes [40242, of_nat (length [8500 :: u16, 0, 120, 0, 1])]
         @ [of_nat (2 * length [8500 :: u16, 0, 120, 0, 1])] @ reg_bytes [8500, 0, 120, 0, 1] \<rparr>"
  by (rule tcp_write_multiple_wire) simp



text \<open>
  C22. Whatever requests, bytes, timeouts, destructions and socket errors the client sees, every
  pending transaction points to a live reply object registered under its own id, ids are
  distinct, and no reply ever signals \<^verbatim>\<open>finished()\<close> twice.
\<close>

theorem tcp_replies_safe:
  "let c = run (tcp_step (slot_read_next nxt)) tcp_new es
   in list_all (\<lambda>(tid, rid). mReplies c rid \<noteq> None \<and> mReplyTid c rid = tid) (mPendingReplies c)
      \<and> distinct (map fst (mPendingReplies c))
      \<and> count_list (mOut c) (SignalFinished rid) \<le> 1"
  using tcp_reachable_inv [of nxt es]
  by (auto simp: tcp_inv_def Let_def list_all_iff)

text \<open>
  C35. A socket error finishes every pending reply (with \<^verbatim>\<open>TcpError\<close>, unless it was finished
  before) and leaves no transaction pending, in every reachable state.
\<close>

theorem tcp_socket_error_finishes_all:
  "let c = run (tcp_step (slot_read_next nxt)) tcp_new es;
       c' = tcp_onSocketErrorReceived (slot_read_next nxt) c
   in mPendingReplies c' = [] \<and>
      list_all (\<lambda>(tid, rid). map_option mError (mReplies c' rid) =
          (if SignalFinished rid \<in> set (mOut c) then map_option mError (mReplies c rid)
           else Some TcpError)
        \<and> map_option isFinished (mReplies c' rid) = Some True) (mPendingReplies c)"
proof -
  let ?c = "run (tcp_step (slot_read_next nxt)) tcp_new es"
  have inv: "tcp_inv ?c" by (rule tcp_reachable_inv)
  have "map_option mError (mReplies (tcp_onSocketErrorReceived (slot_read_next nxt) ?c) rid) =
        (if SignalFinished rid \<in> set (mOut ?c) then map_option mError (mReplies ?c rid)
         else Some TcpError)
      \<and> map_option isFinished (mReplies (tcp_onSocketErrorReceived (slot_read_next nxt) ?c) rid) = Some True"
    if pend: "p \<in> set (mPendingReplies ?c)" "p = (tid, rid)" for p tid rid
  proof -
    obtain r where r: "mReplies ?c rid = Some r"
        "mReplies (tcp_onSocketErrorReceived (slot_read_next nxt) ?c) rid =
          Some (fst (setResult (Exception TcpError) r))"
      using tcp.onSocketError_reply [OF inv pend(1) [unfolded pend(2)], of nxt] by blast
    moreover have "isFinished r \<longleftrightarrow> SignalFinished rid \<in> set (mOut ?c)"
      using inv r(1) unfolding tcp_inv_def by blast
    ultimately show ?thesis by simp
  qed
  note each = this
  have none: "mPendingReplies (tcp_onSocketErrorReceived (slot_read_next nxt) ?c) = []"
    by (simp add: tcp_onSocketErrorReceived_def Let_def)
  show ?thesis
    unfolding Let_def list_all_iff
    by (rule conjI [OF none], intro ballI case_prodI2, rule each)
qed

text \<open>
  The answer to a multi-register write is accepted only if it is alone in the receive
  buffer: with any byte of a later response behind it, the same answer is reported as
  \<^verbatim>\<open>ParseError\<close>, because the test looks at the size of the buffer, not of the frame.
\<close>

theorem tcp_write_multiple_answer_depends_on_buffer:
  "tcp_decode (response_frame tid uid (WriteMultipleResponse reg n)) = Some (Registers [])
   \<and> tcp_decode (response_frame tid uid (WriteMultipleResponse reg n) @ b # rest) =
       Some (Exception ParseError)"
  by (simp add: tcp_multiple_decode)

end
