(* ===== verification/Modbus_Rtu.thy ===== *)
theory Modbus_Rtu
  imports Modbus_Reply Crc16
begin

text \<open>
  The Modbus RTU client (\<^verbatim>\<open>modbus_rtu_client.h\<close>, \<^verbatim>\<open>modbus_rtu_client.cpp\<close>): a byte driven state
  engine over a serial line, with one active request and a queue.  Reply objects live in a store;
  \<open>slot\<close> is what is connected to a reply's \<^verbatim>\<open>finished()\<close>.  Waiting between frames
  (\<^verbatim>\<open>usleep\<close>) is not part of the state.
\<close>

datatype read_state =
    Idle | Address | Function | ByteCount | StartAddressMsb | StartAddressLsb | Data | CrcMsb | CrcLsb

record rtu_reply = modbus_reply +
  regValues :: "u16 list"
  functionCode :: u8
  slaveAddress :: u8
  reg :: u16
  regCount :: u16

datatype rtu_out = SerialPut bytes | RtuFinished nat | SerialEvent string | Fatal string

record rtu_client =
  rTimer :: bool
  rInterval :: int
  rPending :: "nat list"
  rActive :: "nat option"
  rReplies :: "nat \<Rightarrow> rtu_reply option"
  rNext :: nat
  rState :: read_state
  rFunction :: u8
  rCount :: u8
  rUnitId :: u16
  rStartAddress :: u16
  rCrc :: u16
  rCrcBuilder :: crc16
  rAddToCrc :: bool
  rData :: bytes
  rOut :: "rtu_out list"

definition rtu_emit :: "rtu_out \<Rightarrow> rtu_client \<Rightarrow> rtu_client" where
  "rtu_emit x c = c\<lparr> rOut := rOut c @ [x] \<rparr>"

definition rtu_resetStateEngine :: "bool \<Rightarrow> rtu_client \<Rightarrow> rtu_client" where
  "rtu_resetStateEngine toIdle c =
     c\<lparr> rState := (if toIdle then Idle else Address), rCrcBuilder := crc_reset,
        rAddToCrc := True, rData := [], rTimer := (if toIdle then False else rTimer c) \<rparr>"

definition rtu_new :: rtu_client where
  "rtu_new = rtu_resetStateEngine True
     \<lparr> rTimer = False, rInterval = 1000, rPending = [], rActive = None, rReplies = Map.empty,
       rNext = 0, rState = Idle, rFunction = 0, rCount = 0, rUnitId = 0, rStartAddress = 0,
       rCrc = 0, rCrcBuilder = crc_reset, rAddToCrc = True, rData = [], rOut = [] \<rparr>"

subsection \<open>Sending\<close>

text \<open>
  The body of the frame that \<^verbatim>\<open>send\<close> builds, without its checksum; \<open>None\<close> for a function
  code that it does not support (\<^verbatim>\<open>qFatal\<close>).
\<close>

definition rtu_frame :: "rtu_reply \<Rightarrow> bytes option" where
  "rtu_frame r =
     (let hdr = [slaveAddress r, functionCode r]
      in if functionCode r = ReadHoldingRegisters \<or> functionCode r = ReadInputRegisters then
           Some (hdr @ [msb (reg r), lsb (reg r), msb (regCount r), lsb (regCount r)])
         else if functionCode r = WriteSingleRegister then
           Some (hdr @ [msb (reg r), lsb (reg r), msb (hd (regValues r)), lsb (hd (regValues r))])
         else if functionCode r = WriteMultipleRegisters then
           (let n = length (regValues r)
            in Some (hdr @ [msb (reg r), lsb (reg r), msb (of_nat n), lsb (of_nat n),
                      msb (of_nat (2 * n)), lsb (of_nat (2 * n))]))
         else None)"

definition with_crc :: "bytes \<Rightarrow> bytes" where
  "with_crc frame = frame @ [msb (crc_getValue frame), lsb (crc_getValue frame)]"

definition rtu_send :: "nat \<Rightarrow> rtu_client \<Rightarrow> rtu_client" where
  "rtu_send rid c =
     (if rState c \<noteq> Idle then c\<lparr> rPending := rPending c @ [rid] \<rparr>
      else case rReplies c rid of
        None \<Rightarrow> c
      | Some r \<Rightarrow>
          (case rtu_frame r of
             None \<Rightarrow> (rtu_emit (Fatal ''Unsupported function'') c)\<lparr> rTimer := True \<rparr>
           | Some frame \<Rightarrow>
               (rtu_emit (SerialPut (with_crc frame)) (c\<lparr> rActive := Some rid \<rparr>))
                 \<lparr> rTimer := True, rState := Address \<rparr>))"

definition rtu_processPending :: "rtu_client \<Rightarrow> rtu_client" where
  "rtu_processPending c =
     (case rPending c of
        [] \<Rightarrow> c\<lparr> rActive := None \<rparr>
      | rid # rest \<Rightarrow> rtu_send rid (c\<lparr> rPending := rest \<rparr>))"

definition rtu_request :: "u8 \<Rightarrow> u8 \<Rightarrow> u16 \<Rightarrow> u16 \<Rightarrow> u16 list \<Rightarrow> rtu_client \<Rightarrow> nat \<times> rtu_client" where
  "rtu_request f slave r n vs c =
     (let rid = rNext c;
          cmd = modbus_reply.extend new_reply
            \<lparr> regValues = vs, functionCode = f, slaveAddress = slave, reg = r, regCount = n \<rparr>
      in (rid, rtu_send rid (c\<lparr> rNext := rid + 1, rReplies := (rReplies c)(rid \<mapsto> cmd) \<rparr>)))"

definition rtu_readRegisters :: "u8 \<Rightarrow> u8 \<Rightarrow> u16 \<Rightarrow> u16 \<Rightarrow> rtu_client \<Rightarrow> nat \<times> rtu_client" where
  "rtu_readRegisters f unitId startReg n = rtu_request f unitId startReg n []"

definition rtu_readHoldingRegisters :: "u8 \<Rightarrow> u16 \<Rightarrow> u16 \<Rightarrow> rtu_client \<Rightarrow> nat \<times> rtu_client" where
  "rtu_readHoldingRegisters = rtu_readRegisters ReadHoldingRegisters"

definition rtu_readInputRegisters :: "u8 \<Rightarrow> u16 \<Rightarrow> u16 \<Rightarrow> rtu_client \<Rightarrow> nat \<times> rtu_client" where
  "rtu_readInputRegisters = rtu_readRegisters ReadInputRegisters"

definition rtu_writeSingleHoldingRegister :: "u8 \<Rightarrow> u16 \<Rightarrow> u16 \<Rightarrow> rtu_client \<Rightarrow> nat \<times> rtu_client" where
  "rtu_writeSingleHoldingRegister unitId r value = rtu_request WriteSingleRegister unitId r 0 [value]"

definition rtu_writeMultipleHoldingRegisters ::
    "u8 \<Rightarrow> u16 \<Rightarrow> u16 list \<Rightarrow> rtu_client \<Rightarrow> nat \<times> rtu_client" where
  "rtu_writeMultipleHoldingRegisters unitId startReg vs =
     rtu_request WriteMultipleRegisters unitId startReg 0 vs"

subsection \<open>Receiving\<close>

definition rtu_setResult ::
    "(nat \<Rightarrow> rtu_client \<Rightarrow> rtu_client) \<Rightarrow> nat \<Rightarrow> result \<Rightarrow> rtu_client \<Rightarrow> rtu_client" where
  "rtu_setResult slot rid x c =
     (case rReplies c rid of
        None \<Rightarrow> c
      | Some r \<Rightarrow>
          (let (b, emitted) = setResult x (modbus_reply.truncate r);
               r' = r\<lparr> mRegisters := mRegisters b, mError := mError b, isFinished := isFinished b \<rparr>;
               c' = c\<lparr> rReplies := (rReplies c)(rid \<mapsto> r') \<rparr>
           in if emitted then slot rid (rtu_emit (RtuFinished rid) c') else c'))"

text \<open>\<^verbatim>\<open>for (int i = 0; i < mData.length(); i += 2) registers.append(toUInt16(mData, i))\<close>\<close>

fun rtu_registers :: "bytes \<Rightarrow> u16 list" where
  "rtu_registers [] = []"
| "rtu_registers [m] = [toUInt16 m 0]"
| "rtu_registers (m # l # rest) = toUInt16 m l # rtu_registers rest"

definition rtu_processPacket ::
    "(nat \<Rightarrow> rtu_client \<Rightarrow> rtu_client) \<Rightarrow> rtu_client \<Rightarrow> bool \<times> rtu_client" where
  "rtu_processPacket slot c =
     (case rActive c of
        None \<Rightarrow> (True, c)
      | Some rid \<Rightarrow>
          (case rReplies c rid of
             None \<Rightarrow> (True, c)
           | Some r \<Rightarrow>
               if rCrc c \<noteq> crc_value (rCrcBuilder c) then (False, c)
               else if rUnitId c \<noteq> ucast (slaveAddress r) then (False, c)
               else if rFunction c AND 0x7F \<noteq> functionCode r then (False, c)
               else if rFunction c AND 0x80 \<noteq> 0 then
                 (True, rtu_setResult slot rid (Exception (byte_at (rData c) 0)) c)
               else if rFunction c = ReadHoldingRegisters \<or> rFunction c = ReadInputRegisters then
                 (True, rtu_setResult slot rid (Registers (rtu_registers (rData c))) c)
               else if rFunction c = WriteSingleRegister then
                 (True, rtu_setResult slot rid (Registers [toUInt16_at (rData c) 0]) c)
               else if rFunction c = WriteMultipleRegisters then
                 (True, rtu_setResult slot rid (Exception NoException) c)
               else (False, c)))"

definition rtu_handleByteRead ::
    "(nat \<Rightarrow> rtu_client \<Rightarrow> rtu_client) \<Rightarrow> rtu_client \<Rightarrow> u8 \<Rightarrow> rtu_client" where
  "rtu_handleByteRead slot c0 b =
     (let c = (if rAddToCrc c0 then c0\<lparr> rCrcBuilder := crc_add (rCrcBuilder c0) b \<rparr> else c0)
      in case rState c of
        Idle \<Rightarrow> c
      | Address \<Rightarrow> c\<lparr> rState := Function, rUnitId := ucast b \<rparr>
      | Function \<Rightarrow>
          (let c = c\<lparr> rFunction := b \<rparr>
           in if b AND 0x80 \<noteq> 0 then c\<lparr> rCount := 1, rState := Data \<rparr>
              else if b = ReadHoldingRegisters \<or> b = ReadInputRegisters then c\<lparr> rState := ByteCount \<rparr>
              else if b = WriteSingleRegister \<or> b = WriteMultipleRegisters
                then c\<lparr> rState := StartAddressMsb \<rparr>
              else rtu_resetStateEngine False c)
      | ByteCount \<Rightarrow>
          (let c = c\<lparr> rCount := b \<rparr>
           in if b = 0 then c\<lparr> rState := CrcMsb, rAddToCrc := False \<rparr> else c\<lparr> rState := Data \<rparr>)
      | StartAddressMsb \<Rightarrow> c\<lparr> rStartAddress := push_bit 8 (ucast b), rState := StartAddressLsb \<rparr>
      | StartAddressLsb \<Rightarrow>
          c\<lparr> rStartAddress := rStartAddress c OR ucast b, rCount := 2, rState := Data \<rparr>
      | Data \<Rightarrow>
          (let c = (if rCount c > 0 then c\<lparr> rData := rData c @ [b], rCount := rCount c - 1 \<rparr> else c)
           in if rCount c = 0 then c\<lparr> rState := CrcMsb, rAddToCrc := False \<rparr> else c)
      | CrcMsb \<Rightarrow> c\<lparr> rCrc := push_bit 8 (ucast b), rState := CrcLsb \<rparr>
      | CrcLsb \<Rightarrow>
          (let (ok, c) = rtu_processPacket slot (c\<lparr> rCrc := rCrc c OR ucast b \<rparr>)
           in if ok then rtu_processPending (rtu_resetStateEngine True c)
              else rtu_resetStateEngine False c))"

definition rtu_receive ::
    "(nat \<Rightarrow> rtu_client \<Rightarrow> rtu_client) \<Rightarrow> rtu_client \<Rightarrow> bytes \<Rightarrow> rtu_client" where
  "rtu_receive slot = foldl (rtu_handleByteRead slot)"

text \<open>
  \<^verbatim>\<open>onReadyRead\<close>: the results of \<^verbatim>\<open>read(fh, buf, 64)\<close> that the notification gets, in order
  (\<open>None\<close> for a failed call).  The loop ends at the first failure, at an empty first read, and at
  the first read of less than 64 bytes.
\<close>

fun rtu_readLoop ::
    "(nat \<Rightarrow> rtu_client \<Rightarrow> rtu_client) \<Rightarrow> bool \<Rightarrow> rtu_client \<Rightarrow> bytes option list \<Rightarrow> rtu_client" where
  "rtu_readLoop slot first c [] = c"
| "rtu_readLoop slot first c (None # rs) = rtu_emit (SerialEvent ''serial read failure'') c"
| "rtu_readLoop slot first c (Some buf # rs) =
     (if first \<and> buf = []
      then rtu_emit (SerialEvent ''Ready for reading but read 0 bytes. Device removed?'') c
      else let c' = rtu_receive slot c buf
           in if length buf < 64 then c' else rtu_readLoop slot False c' rs)"

definition rtu_onReadyRead ::
    "(nat \<Rightarrow> rtu_client \<Rightarrow> rtu_client) \<Rightarrow> rtu_client \<Rightarrow> bytes option list \<Rightarrow> rtu_client" where
  "rtu_onReadyRead slot c rs = rtu_readLoop slot True c rs"

definition rtu_onTimeout ::
    "(nat \<Rightarrow> rtu_client \<Rightarrow> rtu_client) \<Rightarrow> rtu_client \<Rightarrow> rtu_client" where
  "rtu_onTimeout slot c =
     (if rState c = Idle \<or> rActive c = None then c
      else rtu_processPending (rtu_resetStateEngine True
             (rtu_setResult slot (the (rActive c)) (Exception TimeoutError) c)))"

definition rtu_onError :: "rtu_client \<Rightarrow> rtu_client" where
  "rtu_onError c = rtu_emit (SerialEvent ''Serial error'') c"

definition rtu_setTimeout :: "int \<Rightarrow> rtu_client \<Rightarrow> rtu_client" where
  "rtu_setTimeout t c = c\<lparr> rInterval := t \<rparr>"

subsection \<open>A response on the line\<close>

lemma rtu_emit_simps [simp]:
  "rReplies (rtu_emit x c) = rReplies c" "rState (rtu_emit x c) = rState c"
  "rPending (rtu_emit x c) = rPending c" "rActive (rtu_emit x c) = rActive c"
  "rCrcBuilder (rtu_emit x c) = rCrcBuilder c" "rAddToCrc (rtu_emit x c) = rAddToCrc c"
  "rData (rtu_emit x c) = rData c" "rTimer (rtu_emit x c) = rTimer c" "rOut (rtu_emit x c) = rOut c @ [x]" "rNext (rtu_emit x c) = rNext c"
  by (simp_all add: rtu_emit_def)

lemma rtu_receive_simps [simp]:
  "rtu_receive slot c [] = c"
  "rtu_receive slot c (b # bs) = rtu_receive slot (rtu_handleByteRead slot c b) bs"
  "rtu_receive slot c (xs @ ys) = rtu_receive slot (rtu_receive slot c xs) ys"
  by (simp_all add: rtu_receive_def)

text \<open>One byte, by state.\<close>

lemma rtu_byte [machine_simps]:
  "rState c = Address \<Longrightarrow> rAddToCrc c \<Longrightarrow> rtu_handleByteRead slot c b =
     c\<lparr> rCrcBuilder := crc_add (rCrcBuilder c) b, rState := Function, rUnitId := ucast b \<rparr>"
  "rState c = Function \<Longrightarrow> rAddToCrc c \<Longrightarrow> b = ReadHoldingRegisters \<or> b = ReadInputRegisters \<Longrightarrow>
     rtu_handleByteRead slot c b =
     c\<lparr> rCrcBuilder := crc_add (rCrcBuilder c) b, rFunction := b, rState := ByteCount \<rparr>"
  "rState c = ByteCount \<Longrightarrow> rAddToCrc c \<Longrightarrow> rtu_handleByteRead slot c b =
     (if b = 0 then c\<lparr> rCrcBuilder := crc_add (rCrcBuilder c) b, rCount := b, rState := CrcMsb,
                      rAddToCrc := False \<rparr>
      else c\<lparr> rCrcBuilder := crc_add (rCrcBuilder c) b, rCount := b, rState := Data \<rparr>)"
  "rState c = CrcMsb \<Longrightarrow> \<not> rAddToCrc c \<Longrightarrow> rtu_handleByteRead slot c b =
     c\<lparr> rCrc := push_bit 8 (ucast b), rState := CrcLsb \<rparr>"
  "rState c = CrcLsb \<Longrightarrow> \<not> rAddToCrc c \<Longrightarrow> rtu_handleByteRead slot c b =
     (let (ok, c) = rtu_processPacket slot (c\<lparr> rCrc := rCrc c OR ucast b \<rparr>)
      in if ok then rtu_processPending (rtu_resetStateEngine True c)
         else rtu_resetStateEngine False c)"
  "rState c = Idle \<Longrightarrow> rAddToCrc c \<Longrightarrow> rtu_handleByteRead slot c b =
     c\<lparr> rCrcBuilder := crc_add (rCrcBuilder c) b \<rparr>"
  by (auto simp: rtu_handleByteRead_def function_codes)

text \<open>The client between two exchanges.\<close>

definition rtu_ready :: "rtu_client \<Rightarrow> bool" where
  "rtu_ready c \<longleftrightarrow> rState c = Idle \<and> rCrcBuilder c = crc_reset \<and> rAddToCrc c \<and> rData c = []
     \<and> rPending c = []"

lemma rtu_ready_new: "rtu_ready rtu_new"
  by (simp add: rtu_ready_def rtu_new_def rtu_resetStateEngine_def)

lemma rtu_receive_data:
  assumes "rState c = Data" "rAddToCrc c" "rCount c = of_nat (length bs)" "bs \<noteq> []" "length bs < 256"
  shows "rtu_receive slot c bs =
    c\<lparr> rData := rData c @ bs, rCount := 0, rState := CrcMsb, rAddToCrc := False,
       rCrcBuilder := crc_add_all (rCrcBuilder c) bs \<rparr>"
  using assms
proof (induction bs arbitrary: c)
  case Nil
  then show ?case by simp
next
  case (Cons b bs)
  have "unat (rCount c) = Suc (length bs)"
    using Cons.prems unat_of_nat_u8 [of "length (b # bs)"] by simp
  then have pos: "rCount c > 0"
    by (metis Zero_not_Suc unat_0 word_neq_0_conv)
  show ?case
  proof (cases "bs = []")
    case True
    then show ?thesis
      using Cons.prems by (simp add: rtu_handleByteRead_def)
  next
    case False
    let ?c = "c\<lparr> rCrcBuilder := crc_add (rCrcBuilder c) b, rData := rData c @ [b],
      rCount := rCount c - 1 \<rparr>"
    have cnt: "rCount ?c = of_nat (length bs)"
      using Cons.prems(3) by simp
    have "unat (rCount ?c) = length bs"
      unfolding cnt using Cons.prems(5) by (intro unat_of_nat_u8) simp
    then have "rCount ?c \<noteq> 0"
      using False by (metis length_0_conv unat_0)
    then have "rtu_handleByteRead slot c b = ?c"
      using Cons.prems pos by (simp add: rtu_handleByteRead_def Let_def)
    then show ?thesis
      using Cons.IH [of ?c] Cons.prems cnt False by simp
  qed
qed

text \<open>The frame of a response to a read request, and the client that has received its body.\<close>

definition rtu_read_response :: "u8 \<Rightarrow> u8 \<Rightarrow> u16 list \<Rightarrow> bytes" where
  "rtu_read_response unitId f vs = with_crc ([unitId, f, of_nat (2 * length vs)] @ reg_bytes vs)"

definition rtu_received :: "u8 \<Rightarrow> u8 \<Rightarrow> u16 list \<Rightarrow> rtu_client \<Rightarrow> rtu_client" where
  "rtu_received unitId f vs c =
     c\<lparr> rData := reg_bytes vs, rCount := 0, rState := CrcMsb, rAddToCrc := False,
        rUnitId := ucast unitId, rFunction := f,
        rCrcBuilder := crc_add_all (rCrcBuilder c) ([unitId, f, of_nat (2 * length vs)] @ reg_bytes vs) \<rparr>"

lemma rtu_receive_body:
  assumes "rState c = Address" "rAddToCrc c" "rData c = []" "length vs < 128"
    and "f = ReadHoldingRegisters \<or> f = ReadInputRegisters"
  shows "rtu_receive slot c ([unitId, f, of_nat (2 * length vs)] @ reg_bytes vs) =
    rtu_received unitId f vs c"
proof (cases "vs = []")
  case True
  then show ?thesis
    using assms(1-3,5) by (simp add: rtu_byte rtu_received_def)
next
  case False
  have u: "unat (of_nat (2 * length vs) :: u8) = 2 * length vs"
    using assms(4) by (intro unat_of_nat_u8) simp
  have n: "(of_nat (2 * length vs) :: u8) \<noteq> 0"
  proof
    assume "(of_nat (2 * length vs) :: u8) = 0"
    then have "2 * length vs = 0"
      using u by (simp only: unsigned_0)
    then show False using False by simp
  qed
  let ?c = "c\<lparr> rState := Data, rUnitId := ucast unitId, rFunction := f,
      rCount := of_nat (2 * length vs),
      rCrcBuilder := crc_add_all (rCrcBuilder c) [unitId, f, of_nat (2 * length vs)] \<rparr>"
  have "rtu_receive slot c [unitId, f, of_nat (2 * length vs)] = ?c"
    using assms(1-3,5) n by (simp add: rtu_byte del: of_nat_mult)
  moreover have "rtu_receive slot ?c (reg_bytes vs) = rtu_received unitId f vs c"
    using assms False by (subst rtu_receive_data) (auto simp: rtu_received_def)
  ultimately show ?thesis
    by (simp only: rtu_receive_simps(3))
qed

text \<open>
  The end of a response: the checksum matches, the reply gets its registers, the engine returns
  to idle and the next queued request is sent.
\<close>

definition rtu_with_result :: "rtu_reply \<Rightarrow> u16 list \<Rightarrow> rtu_reply" where
  "rtu_with_result r vs = r\<lparr> mRegisters := vs, mError := NoException, isFinished := True \<rparr>"

lemma rtu_registers_reg_bytes [simp]: "rtu_registers (reg_bytes vs) = vs"
  by (induction vs) simp_all

lemma rtu_setResult_registers:
  assumes "rReplies c rid = Some r" "\<not> isFinished r"
  shows "rtu_setResult slot rid (Registers vs) c =
    slot rid (rtu_emit (RtuFinished rid) (c\<lparr> rReplies := (rReplies c)(rid \<mapsto> rtu_with_result r vs) \<rparr>))"
  using assms by (simp add: rtu_setResult_def modbus_reply.defs rtu_with_result_def)

lemma rtu_receive_response:
  assumes "rState c = Address" "rAddToCrc c" "rData c = []" "rCrcBuilder c = crc_reset"
    and "length vs < 128" "f = ReadHoldingRegisters \<or> f = ReadInputRegisters"
    and "rActive c = Some rid" "rReplies c rid = Some r" "\<not> isFinished r"
    and "functionCode r = f" "slaveAddress r = unitId"
  shows "\<exists>c'. rtu_receive slot c (rtu_read_response unitId f vs) =
      rtu_processPending (rtu_resetStateEngine True (slot rid c'))
    \<and> rReplies c' = (rReplies c)(rid \<mapsto> rtu_with_result r vs)
    \<and> rOut c' = rOut c @ [RtuFinished rid]
    \<and> rPending c' = rPending c \<and> rActive c' = Some rid \<and> rNext c' = rNext c"
proof -
  let ?body = "[unitId, f, of_nat (2 * length vs)] @ reg_bytes vs"
  let ?crc = "crc_getValue ?body"
  let ?d = "rtu_received unitId f vs c"
  have crc: "push_bit 8 (ucast (msb ?crc)) OR ucast (lsb ?crc) = ?crc"
    using toUInt16_msb_lsb [of ?crc] by (simp only: toUInt16_def)
  have b: "crc_value (rCrcBuilder ?d) = ?crc"
    using assms(4) by (simp add: rtu_received_def crc_getValue_def)
  have f: "f AND 0x7F = f" "f AND 0x80 = 0"
    using assms(6) by (auto simp: function_codes)
  have "rtu_receive slot c (rtu_read_response unitId f vs) =
      rtu_receive slot ?d [msb ?crc, lsb ?crc]"
    unfolding rtu_read_response_def with_crc_def rtu_receive_simps(3)
    using rtu_receive_body [OF assms(1-3,5,6)] by (simp only: rtu_receive_simps(3))
  also have "\<dots> = rtu_processPending (rtu_resetStateEngine True
      (rtu_setResult slot rid (Registers vs) (?d\<lparr> rState := CrcLsb, rCrc := ?crc \<rparr>)))"
  proof -
    have "rtu_receive slot ?d [msb ?crc, lsb ?crc] =
        (let (ok, c) = rtu_processPacket slot (?d\<lparr> rState := CrcLsb, rCrc := ?crc \<rparr>)
         in if ok then rtu_processPending (rtu_resetStateEngine True c)
            else rtu_resetStateEngine False c)"
      using crc by (simp add: rtu_byte rtu_received_def)
    also have "rtu_processPacket slot (?d\<lparr> rState := CrcLsb, rCrc := ?crc \<rparr>) =
        (True, rtu_setResult slot rid (Registers vs) (?d\<lparr> rState := CrcLsb, rCrc := ?crc \<rparr>))"
      using assms(6-11) b f by (auto simp: rtu_processPacket_def rtu_received_def)
    finally show ?thesis by simp
  qed
  finally show ?thesis
    using assms by (auto simp: rtu_setResult_registers rtu_received_def intro!: exI)
qed

text \<open>A response with another checksum than the client's.\<close>

lemma rtu_receive_mismatch:
  assumes "rState c = Address" "rAddToCrc c" "rData c = []"
    and "length ws < 128" "f = ReadHoldingRegisters \<or> f = ReadInputRegisters"
    and "rActive c = Some rid" "rReplies c rid = Some r"
    and ne: "crc \<noteq> crc_value (rCrcBuilder (rtu_received unitId f ws c))"
    and c': "c' = rtu_receive slot c ([unitId, f, of_nat (2 * length ws)]
      @ reg_bytes ws @ [msb crc, lsb crc])"
  shows "rReplies c' = rReplies c \<and> rOut c' = rOut c \<and> rActive c' = Some rid
    \<and> rState c' = Address \<and> rTimer c' = rTimer c"
proof -
  let ?d = "rtu_received unitId f ws c"
  have x: "push_bit 8 (ucast (msb crc)) OR ucast (lsb crc) = crc"
    using toUInt16_msb_lsb [of crc] by (simp only: toUInt16_def)
  have "c' = rtu_receive slot ?d [msb crc, lsb crc]"
    unfolding c' using rtu_receive_body [OF assms(1-5), of slot unitId]
    by (simp only: rtu_receive_simps(3) append_assoc [symmetric])
  also have "\<dots> = rtu_resetStateEngine False (?d\<lparr> rState := CrcLsb, rCrc := crc \<rparr>)"
    using x ne assms(6,7) by (simp add: rtu_byte rtu_processPacket_def rtu_received_def)
  finally show ?thesis
    using assms(6) by (simp add: rtu_resetStateEngine_def rtu_received_def)
qed

text \<open>Registers that were changed on the line do not match the original checksum.\<close>

lemma rtu_corrupt_crc:
  assumes "rCrcBuilder c = crc_reset" "v \<noteq> w"
    and crc: "crc = crc_getValue ([unitId, f, of_nat (2 * length (xs @ v # ys))] @ reg_bytes (xs @ v # ys))"
  shows "crc \<noteq> crc_value (rCrcBuilder (rtu_received unitId f (xs @ w # ys) c))"
proof -
  have "(msb v, lsb v) \<noteq> (msb w, lsb w)"
    using assms(2) by (metis prod.inject toUInt16_msb_lsb)
  then show ?thesis
    using crc_detects_adjacent_lemma [of "msb v" "lsb v" "msb w" "lsb w"
        "[unitId, f, of_nat (2 * length (xs @ w # ys))] @ reg_bytes xs" "reg_bytes ys"] assms(1) crc
    by (simp add: rtu_received_def crc_getValue_def)
qed

text \<open>A checksum that was not started afresh does not match either.\<close>

lemma rtu_noise_crc:
  assumes "rCrcBuilder c \<noteq> crc_reset"
  shows "crc_getValue ([unitId, f, of_nat (2 * length ws)] @ reg_bytes ws) \<noteq>
    crc_value (rCrcBuilder (rtu_received unitId f ws c))"
proof -
  have "crc_add_all crc_reset bs \<noteq> crc_add_all (rCrcBuilder c) bs" for bs
    using assms by (simp only: crc_add_all_inject) simp
  then show ?thesis
    by (simp add: rtu_received_def crc_getValue_def crc_value_inject del: crc_add_all_simps)
qed

text \<open>A read request that an idle client sends.\<close>

lemma rtu_read_idle:
  assumes "rState c = Idle" "rAddToCrc c" "rData c = []"
    and "f = ReadHoldingRegisters \<or> f = ReadInputRegisters"
  shows "\<exists>r d. rtu_readRegisters f unitId start n c = (rNext c, d) \<and>
    rState d = Address \<and> rAddToCrc d \<and> rData d = [] \<and> rCrcBuilder d = rCrcBuilder c \<and>
    rActive d = Some (rNext c) \<and> rReplies d (rNext c) = Some r \<and> \<not> isFinished r \<and>
    functionCode r = f \<and> slaveAddress r = unitId \<and> rPending d = rPending c \<and> rTimer d \<and>
    rNext d = Suc (rNext c) \<and>
    rOut d = rOut c @ [SerialPut (with_crc [unitId, f, msb start, lsb start, msb n, lsb n])]"
  using assms
  by (auto simp: rtu_readRegisters_def rtu_request_def rtu_send_def rtu_frame_def Let_def
      modbus_reply.defs new_reply_def rtu_emit_def)

subsection \<open>The state engine never waits without a running timer\<close>

text \<open>Queued requests: alive, not finished, of a function that \<^verbatim>\<open>send\<close> supports, no duplicate.\<close>

definition rtu_live :: "rtu_client \<Rightarrow> nat \<Rightarrow> bool" where
  "rtu_live c rid \<longleftrightarrow> rid < rNext c \<and>
     (case rReplies c rid of None \<Rightarrow> False | Some r \<Rightarrow> \<not> isFinished r \<and> rtu_frame r \<noteq> None)"

definition rtu_queue_ok :: "rtu_client \<Rightarrow> bool" where
  "rtu_queue_ok c \<longleftrightarrow> distinct (rPending c) \<and> list_all (rtu_live c) (rPending c)"

definition rtu_inv :: "rtu_client \<Rightarrow> bool" where
  "rtu_inv c \<longleftrightarrow> rtu_queue_ok c \<and>
     (rAddToCrc c \<longleftrightarrow> rState c \<noteq> CrcMsb \<and> rState c \<noteq> CrcLsb) \<and>
     (if rState c = Idle then rPending c = [] \<and> \<not> rTimer c
      else rTimer c \<and> (\<exists>rid. rActive c = Some rid \<and> rtu_live c rid \<and> rid \<notin> set (rPending c)))"

lemma rtu_live_frame [simp]:
  "rtu_live (c\<lparr> rTimer := x0 \<rparr>) = rtu_live c"
  "rtu_live (c\<lparr> rInterval := x1 \<rparr>) = rtu_live c"
  "rtu_live (c\<lparr> rPending := x2 \<rparr>) = rtu_live c"
  "rtu_live (c\<lparr> rActive := x3 \<rparr>) = rtu_live c"
  "rtu_live (c\<lparr> rState := x4 \<rparr>) = rtu_live c"
  "rtu_live (c\<lparr> rFunction := x5 \<rparr>) = rtu_live c"
  "rtu_live (c\<lparr> rCount := x6 \<rparr>) = rtu_live c"
  "rtu_live (c\<lparr> rUnitId := x7 \<rparr>) = rtu_live c"
  "rtu_live (c\<lparr> rStartAddress := x8 \<rparr>) = rtu_live c"
  "rtu_live (c\<lparr> rCrc := x9 \<rparr>) = rtu_live c"
  "rtu_live (c\<lparr> rCrcBuilder := x10 \<rparr>) = rtu_live c"
  "rtu_live (c\<lparr> rAddToCrc := x11 \<rparr>) = rtu_live c"
  "rtu_live (c\<lparr> rData := x12 \<rparr>) = rtu_live c"
  "rtu_live (c\<lparr> rOut := x13 \<rparr>) = rtu_live c"
  "rtu_live (rtu_emit out c) = rtu_live c"
  "rtu_live (rtu_resetStateEngine b c) = rtu_live c"
  by (simp_all add: rtu_live_def rtu_emit_def rtu_resetStateEngine_def fun_eq_iff)

lemma rtu_queue_frame [simp]:
  "rtu_queue_ok (c\<lparr> rTimer := x0 \<rparr>) = rtu_queue_ok c"
  "rtu_queue_ok (c\<lparr> rInterval := x1 \<rparr>) = rtu_queue_ok c"
  "rtu_queue_ok (c\<lparr> rActive := x2 \<rparr>) = rtu_queue_ok c"
  "rtu_queue_ok (c\<lparr> rState := x3 \<rparr>) = rtu_queue_ok c"
  "rtu_queue_ok (c\<lparr> rFunction := x4 \<rparr>) = rtu_queue_ok c"
  "rtu_queue_ok (c\<lparr> rCount := x5 \<rparr>) = rtu_queue_ok c"
  "rtu_queue_ok (c\<lparr> rUnitId := x6 \<rparr>) = rtu_queue_ok c"
  "rtu_queue_ok (c\<lparr> rStartAddress := x7 \<rparr>) = rtu_queue_ok c"
  "rtu_queue_ok (c\<lparr> rCrc := x8 \<rparr>) = rtu_queue_ok c"
  "rtu_queue_ok (c\<lparr> rCrcBuilder := x9 \<rparr>) = rtu_queue_ok c"
  "rtu_queue_ok (c\<lparr> rAddToCrc := x10 \<rparr>) = rtu_queue_ok c"
  "rtu_queue_ok (c\<lparr> rData := x11 \<rparr>) = rtu_queue_ok c"
  "rtu_queue_ok (c\<lparr> rOut := x12 \<rparr>) = rtu_queue_ok c"
  "rtu_queue_ok (rtu_emit out c) = rtu_queue_ok c"
  "rtu_queue_ok (rtu_resetStateEngine b c) = rtu_queue_ok c"
  by (simp_all add: rtu_queue_ok_def rtu_emit_def rtu_resetStateEngine_def)

lemma rtu_inv_frame:
  assumes "rtu_inv c" "rPending c' = rPending c" "rReplies c' = rReplies c" "rNext c' = rNext c"
    "rTimer c' = rTimer c" "rActive c' = rActive c" "rState c' = Idle \<longleftrightarrow> rState c = Idle"
    "rAddToCrc c' \<longleftrightarrow> rState c' \<noteq> CrcMsb \<and> rState c' \<noteq> CrcLsb"
  shows "rtu_inv c'"
proof -
  have "rtu_live c' = rtu_live c"
    using assms by (simp add: rtu_live_def fun_eq_iff)
  then show ?thesis
    using assms by (simp add: rtu_inv_def rtu_queue_ok_def)
qed

lemma rtu_resetStateEngine_simps [simp]:
  "rState (rtu_resetStateEngine b c) = (if b then Idle else Address)"
  "rAddToCrc (rtu_resetStateEngine b c)" "rData (rtu_resetStateEngine b c) = []"
  "rCrcBuilder (rtu_resetStateEngine b c) = crc_reset"
  "rTimer (rtu_resetStateEngine b c) \<longleftrightarrow> \<not> b \<and> rTimer c"
  "rPending (rtu_resetStateEngine b c) = rPending c" "rActive (rtu_resetStateEngine b c) = rActive c"
  "rReplies (rtu_resetStateEngine b c) = rReplies c" "rNext (rtu_resetStateEngine b c) = rNext c"
  by (simp_all add: rtu_resetStateEngine_def)

lemma rtu_inv_processPending:
  assumes "rtu_queue_ok c" "rState c = Idle" "rAddToCrc c" "\<not> rTimer c"
  shows "rtu_inv (rtu_processPending c)"
proof (cases "rPending c")
  case Nil
  then show ?thesis
    using assms by (simp add: rtu_processPending_def rtu_inv_def rtu_queue_ok_def)
next
  case (Cons rid rest)
  with assms(1) obtain r frame where r: "rReplies c rid = Some r" "rtu_frame r = Some frame"
    "\<not> isFinished r" "rid < rNext c" and rest: "rid \<notin> set rest" "distinct rest" "list_all (rtu_live c) rest"
    by (auto simp: rtu_queue_ok_def rtu_live_def split: option.splits)
  let ?c = "rtu_processPending c"
  have "rPending ?c = rest" "rReplies ?c = rReplies c" "rNext ?c = rNext c" "rActive ?c = Some rid"
    "rTimer ?c" "rState ?c = Address" "rAddToCrc ?c"
    using Cons r assms by (simp_all add: rtu_processPending_def rtu_send_def rtu_emit_def)
  moreover from this have "rtu_live ?c = rtu_live c"
    by (simp add: rtu_live_def fun_eq_iff)
  ultimately show ?thesis
    using rest r by (simp add: rtu_inv_def rtu_queue_ok_def) (simp add: rtu_live_def)
qed

text \<open>While the engine is busy a request is queued; in idle it is sent at once.\<close>

definition rtu_supported :: "u8 \<Rightarrow> bool" where
  "rtu_supported f \<longleftrightarrow> f = ReadHoldingRegisters \<or> f = ReadInputRegisters \<or>
     f = WriteSingleRegister \<or> f = WriteMultipleRegisters"

lemma rtu_frame_supported: "rtu_supported (functionCode r) \<Longrightarrow> rtu_frame r \<noteq> None"
  by (auto simp: rtu_supported_def rtu_frame_def Let_def)

definition rtu_added :: "rtu_client \<Rightarrow> rtu_reply \<Rightarrow> rtu_client" where
  "rtu_added c cmd = c\<lparr> rNext := rNext c + 1, rReplies := (rReplies c)(rNext c \<mapsto> cmd) \<rparr>"

lemma rtu_live_added: "rtu_live c rid \<Longrightarrow> rtu_live (rtu_added c cmd) rid"
  by (auto simp: rtu_live_def rtu_added_def)

lemma rtu_live_new:
  "\<not> isFinished cmd \<Longrightarrow> rtu_frame cmd \<noteq> None \<Longrightarrow> rtu_live (rtu_added c cmd) (rNext c)"
  by (simp add: rtu_live_def rtu_added_def)

lemma rtu_queue_added:
  assumes "rtu_queue_ok c" "\<not> isFinished cmd" "rtu_frame cmd \<noteq> None"
  shows "rtu_queue_ok ((rtu_added c cmd)\<lparr> rPending := rPending c @ [rNext c] \<rparr>)"
proof -
  have l: "rtu_live (d\<lparr> rPending := p \<rparr>) = rtu_live d" for d p
    by (simp add: rtu_live_def fun_eq_iff)
  have "rNext c \<notin> set (rPending c)"
    using assms(1) by (auto simp: rtu_queue_ok_def list_all_iff rtu_live_def)
  then show ?thesis
    using assms rtu_live_new [OF assms(2,3)] rtu_live_added
    by (auto simp: rtu_queue_ok_def l list_all_iff)
qed

lemma rtu_request_added:
  "\<exists>cmd. rtu_request f slave r n vs c = (rNext c, rtu_send (rNext c) (rtu_added c cmd))
     \<and> \<not> isFinished cmd \<and> functionCode cmd = f"
  by (auto simp: rtu_request_def rtu_added_def Let_def modbus_reply.defs new_reply_def)

lemma rtu_queue_request:
  assumes "rtu_queue_ok c" "rState c \<noteq> Idle" "rtu_supported f"
  shows "rtu_queue_ok (snd (rtu_request f slave r n vs c))"
    "rState (snd (rtu_request f slave r n vs c)) = rState c"
proof -
  obtain cmd where cmd: "rtu_request f slave r n vs c = (rNext c, rtu_send (rNext c) (rtu_added c cmd))"
     "\<not> isFinished cmd" "rtu_frame cmd \<noteq> None"
    using rtu_request_added [of f slave r n vs c] assms(3) rtu_frame_supported by blast
  have "rtu_send (rNext c) (rtu_added c cmd) = (rtu_added c cmd)\<lparr> rPending := rPending c @ [rNext c] \<rparr>"
    using assms(2) by (simp add: rtu_send_def rtu_added_def)
  then show "rtu_queue_ok (snd (rtu_request f slave r n vs c))"
    "rState (snd (rtu_request f slave r n vs c)) = rState c"
    using rtu_queue_added [OF assms(1) cmd(2,3)] cmd(1) by (simp_all add: rtu_added_def)
qed

lemma rtu_pending_same: "rPending d = [] \<Longrightarrow> d\<lparr> rPending := [] \<rparr> = d"
  by (cases d) simp

lemma rtu_inv_request:
  assumes "rtu_inv c" "rtu_supported f"
  shows "rtu_inv (snd (rtu_request f slave r n vs c))"
proof -
  obtain cmd where cmd: "rtu_request f slave r n vs c = (rNext c, rtu_send (rNext c) (rtu_added c cmd))"
     "\<not> isFinished cmd" "rtu_frame cmd \<noteq> None"
    using rtu_request_added [of f slave r n vs c] assms(2) rtu_frame_supported by blast
  show ?thesis
  proof (cases "rState c = Idle")
    case True
    then have p: "rPending c = []"
      using assms(1) by (simp add: rtu_inv_def)
    then have "(rtu_added c cmd)\<lparr> rPending := [] \<rparr> = rtu_added c cmd"
      by (intro rtu_pending_same) (simp add: rtu_added_def)
    then have "rtu_send (rNext c) (rtu_added c cmd) =
        rtu_processPending ((rtu_added c cmd)\<lparr> rPending := rPending c @ [rNext c] \<rparr>)"
      using p by (simp add: rtu_processPending_def)
    moreover have "rtu_inv \<dots>"
      using True assms(1) rtu_queue_added [OF _ cmd(2,3), of c]
      by (intro rtu_inv_processPending) (simp_all add: rtu_inv_def rtu_added_def)
    ultimately show ?thesis using cmd(1) by simp
  next
    case False
    let ?c = "(rtu_added c cmd)\<lparr> rPending := rPending c @ [rNext c] \<rparr>"
    have "rtu_send (rNext c) (rtu_added c cmd) = ?c"
      using False by (simp add: rtu_send_def rtu_added_def)
    moreover have "rtu_live ?c = rtu_live (rtu_added c cmd)"
      by (simp add: rtu_live_def fun_eq_iff)
    moreover obtain rid where "rActive c = Some rid" "rtu_live c rid" "rid \<notin> set (rPending c)"
      using False assms(1) by (auto simp: rtu_inv_def)
    moreover from this have "rid \<noteq> rNext c"
      by (auto simp: rtu_live_def)
    ultimately show ?thesis
      using assms(1) False rtu_queue_added [OF _ cmd(2,3), of c] cmd(1) rtu_live_added [of c rid cmd]
      by (simp add: rtu_inv_def) (simp add: rtu_added_def)
  qed
qed

lemma rtu_byte_frame:
  assumes "rState c \<noteq> CrcLsb"
  shows "rPending (rtu_handleByteRead slot c b) = rPending c"
    "rReplies (rtu_handleByteRead slot c b) = rReplies c"
    "rNext (rtu_handleByteRead slot c b) = rNext c"
    "rTimer (rtu_handleByteRead slot c b) = rTimer c"
    "rActive (rtu_handleByteRead slot c b) = rActive c"
    "rState (rtu_handleByteRead slot c b) = Idle \<longleftrightarrow> rState c = Idle"
  using assms by (cases "rState c"; simp add: rtu_handleByteRead_def Let_def)+

lemma rtu_byte_state:
  assumes "rAddToCrc c \<longleftrightarrow> rState c \<noteq> CrcMsb \<and> rState c \<noteq> CrcLsb" "rState c \<noteq> CrcLsb"
  shows "rAddToCrc (rtu_handleByteRead slot c b) \<longleftrightarrow>
    rState (rtu_handleByteRead slot c b) \<noteq> CrcMsb \<and> rState (rtu_handleByteRead slot c b) \<noteq> CrcLsb"
  using assms by (cases "rState c"; simp add: rtu_handleByteRead_def Let_def)

lemma rtu_processPacket_cases:
  assumes "rActive c = Some rid" "rReplies c rid = Some r"
  shows "rtu_processPacket slot c = (False, c) \<or>
    (\<exists>x. rtu_processPacket slot c = (True, rtu_setResult slot rid x c))"
  unfolding rtu_processPacket_def assms option.case by (simp only: split: if_split) blast

text \<open>A slot may queue further requests while the finished one is being processed.\<close>

locale rtu_user =
  fixes slot :: "nat \<Rightarrow> rtu_client \<Rightarrow> rtu_client"
  assumes slot_queue: "rtu_queue_ok c \<Longrightarrow> rState c \<noteq> Idle \<Longrightarrow> rtu_queue_ok (slot rid c)"
begin

lemma setResult_queue:
  assumes "rtu_inv c" "rState c \<noteq> Idle" "rActive c = Some rid"
  shows "rtu_queue_ok (rtu_setResult slot rid x c)"
proof -
  obtain r where r: "rReplies c rid = Some r" "\<not> isFinished r" "rid \<notin> set (rPending c)"
    using assms by (auto simp: rtu_inv_def rtu_live_def split: option.splits)
  let ?b = "fst (setResult x (modbus_reply.truncate r))"
  let ?c = "rtu_emit (RtuFinished rid) (c\<lparr> rReplies := (rReplies c)(rid \<mapsto>
      r\<lparr> mRegisters := mRegisters ?b, mError := mError ?b, isFinished := isFinished ?b \<rparr>) \<rparr>)"
  have "snd (setResult x (modbus_reply.truncate r))"
    using r by (simp add: modbus_reply.defs)
  then have "rtu_setResult slot rid x c = slot rid ?c"
    using r by (simp add: rtu_setResult_def case_prod_beta Let_def)
  moreover have live: "rtu_live ?c rid' \<longleftrightarrow> rtu_live c rid'" if "rid' \<noteq> rid" for rid'
    using that by (simp add: rtu_live_def)
  have "list_all (rtu_live ?c) (rPending c)"
    using assms(1) r(3) live unfolding rtu_inv_def rtu_queue_ok_def list_all_iff by metis
  then have "rtu_queue_ok ?c"
    using assms(1) by (simp add: rtu_inv_def rtu_queue_ok_def)
  ultimately show ?thesis
    using assms(2) slot_queue [of ?c] by simp
qed

lemma packet_queue:
  assumes "rtu_inv c" "rState c = CrcLsb"
  shows "fst (rtu_processPacket slot c) \<Longrightarrow> rtu_queue_ok (snd (rtu_processPacket slot c))"
    and "\<not> fst (rtu_processPacket slot c) \<Longrightarrow> snd (rtu_processPacket slot c) = c"
proof -
  obtain rid r where r: "rActive c = Some rid" "rReplies c rid = Some r"
    using assms by (auto simp: rtu_inv_def rtu_live_def split: option.splits)
  have "rtu_queue_ok (rtu_setResult slot rid x c)" for x
    using setResult_queue [OF assms(1) _ r(1)] assms(2) by simp
  then show "fst (rtu_processPacket slot c) \<Longrightarrow> rtu_queue_ok (snd (rtu_processPacket slot c))"
    and "\<not> fst (rtu_processPacket slot c) \<Longrightarrow> snd (rtu_processPacket slot c) = c"
    using rtu_processPacket_cases [OF r, of slot] by auto
qed

lemma finish_inv: "rtu_queue_ok c \<Longrightarrow> rtu_inv (rtu_processPending (rtu_resetStateEngine True c))"
  by (intro rtu_inv_processPending)
    (simp_all add: rtu_queue_ok_def rtu_live_def [abs_def] list_all_iff)

lemma byte_inv:
  assumes "rtu_inv c"
  shows "rtu_inv (rtu_handleByteRead slot c b)"
proof (cases "rState c = CrcLsb")
  case True
  then have add: "\<not> rAddToCrc c"
    using assms by (simp add: rtu_inv_def)
  let ?c = "c\<lparr> rCrc := rCrc c OR ucast b \<rparr>"
  have inv: "rtu_inv ?c"
    using assms True by (intro rtu_inv_frame [OF assms]) (simp_all add: rtu_inv_def)
  have state: "rState ?c = CrcLsb" using True by simp
  have reset: "rtu_inv (rtu_resetStateEngine False ?c)"
    by (rule rtu_inv_frame [OF inv]) (simp_all add: True)
  show ?thesis
  proof (cases "fst (rtu_processPacket slot ?c)")
    case True
    then show ?thesis
      using packet_queue(1) [OF inv state] finish_inv
      by (simp add: rtu_byte(5) [OF \<open>rState c = CrcLsb\<close> add] case_prod_beta Let_def)
  next
    case False
    then show ?thesis
      using packet_queue(2) [OF inv state] reset
      by (simp add: rtu_byte(5) [OF \<open>rState c = CrcLsb\<close> add] case_prod_beta Let_def)
  qed
next
  case False
  have add: "rAddToCrc c \<longleftrightarrow> rState c \<noteq> CrcMsb \<and> rState c \<noteq> CrcLsb"
    using assms by (simp add: rtu_inv_def)
  from False show ?thesis
    by (intro rtu_inv_frame [OF assms] rtu_byte_frame rtu_byte_state [OF add])
qed

lemma receive_inv: "rtu_inv c \<Longrightarrow> rtu_inv (rtu_receive slot c bs)"
  by (induction bs arbitrary: c) (simp_all add: byte_inv)

lemma readLoop_inv: "rtu_inv c \<Longrightarrow> rtu_inv (rtu_readLoop slot first c rs)"
proof (induction rs arbitrary: first c)
  case (Cons x rs)
  have e: "rtu_inv (rtu_emit y d) = rtu_inv d" for y d
    by (simp add: rtu_inv_def)
  show ?case
    using Cons receive_inv [OF Cons.prems]
    by (cases x) (simp_all add: Let_def e)
qed simp

lemma timeout_inv: "rtu_inv c \<Longrightarrow> rtu_inv (rtu_onTimeout slot c)"
  using setResult_queue finish_inv by (auto simp: rtu_onTimeout_def)

end

text \<open>A slot that may issue a read request for the device, as the users of the replies do.\<close>

definition rtu_slot_next :: "(nat \<Rightarrow> rtu_client \<Rightarrow> (bool \<times> u8 \<times> u16 \<times> u16) option) \<Rightarrow>
    nat \<Rightarrow> rtu_client \<Rightarrow> rtu_client" where
  "rtu_slot_next nxt rid c =
     (case nxt rid c of
        None \<Rightarrow> c
      | Some (holding, uid, start, n) \<Rightarrow>
          snd ((if holding then rtu_readHoldingRegisters else rtu_readInputRegisters) uid start n c))"

lemma rtu_supported_api [simp]:
  "rtu_supported ReadHoldingRegisters" "rtu_supported ReadInputRegisters"
  "rtu_supported WriteSingleRegister" "rtu_supported WriteMultipleRegisters"
  by (simp_all add: rtu_supported_def)

lemmas rtu_requests = rtu_readHoldingRegisters_def rtu_readInputRegisters_def
  rtu_readRegisters_def rtu_writeSingleHoldingRegister_def rtu_writeMultipleHoldingRegisters_def

interpretation rtu: rtu_user "rtu_slot_next nxt" for nxt
  by unfold_locales
    (auto simp: rtu_slot_next_def rtu_requests rtu_queue_request split: option.split)

datatype rtu_event =
    RtuRead bool u8 u16 u16
  | RtuWriteSingle u8 u16 u16
  | RtuWriteMultiple u8 u16 "u16 list"
  | RtuReadyRead "bytes option list"
  | RtuTimeout
  | RtuError

fun rtu_step ::
    "(nat \<Rightarrow> rtu_client \<Rightarrow> rtu_client) \<Rightarrow> rtu_client \<Rightarrow> rtu_event \<Rightarrow> rtu_client" where
  "rtu_step slot c (RtuRead holding uid start n) =
     snd ((if holding then rtu_readHoldingRegisters else rtu_readInputRegisters) uid start n c)"
| "rtu_step slot c (RtuWriteSingle uid r v) = snd (rtu_writeSingleHoldingRegister uid r v c)"
| "rtu_step slot c (RtuWriteMultiple uid r vs) = snd (rtu_writeMultipleHoldingRegisters uid r vs c)"
| "rtu_step slot c (RtuReadyRead rs) = rtu_onReadyRead slot c rs"
| "rtu_step slot c RtuTimeout = rtu_onTimeout slot c"
| "rtu_step slot c RtuError = rtu_onError c"

interpretation rtu_run: invariant_machine "rtu_step (rtu_slot_next nxt)" rtu_inv "\<lambda>_. True" for nxt
proof unfold_locales
  fix c e
  assume inv: "rtu_inv c"
  then have "rtu_inv (rtu_onError c)"
    by (simp add: rtu_onError_def rtu_inv_def)
  with inv show "rtu_inv (rtu_step (rtu_slot_next nxt) c e)"
    by (cases e) (auto simp: rtu_requests rtu_onReadyRead_def rtu_inv_request
        rtu.readLoop_inv rtu.timeout_inv)
qed

lemma rtu_inv_new: "rtu_inv rtu_new"
  by (simp add: rtu_inv_def rtu_queue_ok_def rtu_new_def rtu_resetStateEngine_def)

text \<open>How the notification handler cuts what is on the line: reads of at most 64 bytes.\<close>

fun rtu_reads :: "bytes \<Rightarrow> bytes option list" where
  "rtu_reads bs = (if length bs < 64 then [Some bs] else Some (take 64 bs) # rtu_reads (drop 64 bs))"

declare rtu_reads.simps [simp del]

lemma rtu_readLoop_reads:
  "first \<longrightarrow> bs \<noteq> [] \<Longrightarrow> rtu_readLoop slot first c (rtu_reads bs) = rtu_receive slot c bs"
proof (induction bs arbitrary: first c rule: rtu_reads.induct)
  case (1 bs)
  show ?case
  proof (cases "length bs < 64")
    case True
    then show ?thesis using 1(2) by (subst rtu_reads.simps) auto
  next
    case False
    have "rtu_receive slot c bs = rtu_receive slot (rtu_receive slot c (take 64 bs)) (drop 64 bs)"
      by (metis append_take_drop_id rtu_receive_simps(3))
    then show ?thesis
      using False 1(1) [OF False, of False] by (subst rtu_reads.simps) (auto simp: Let_def)
  qed
qed

lemma rtu_onReadyRead_reads: "bs \<noteq> [] \<Longrightarrow> rtu_onReadyRead slot c (rtu_reads bs) = rtu_receive slot c bs"
  by (simp add: rtu_onReadyRead_def rtu_readLoop_reads)

text \<open>No single byte leaves the checksum register in its initial state.\<close>

lemma crc_add_reset_neq: "crc_add crc_reset b \<noteq> crc_reset"
proof
  assume eq: "crc_add crc_reset b = crc_reset"
  let ?i = "unat (0xFF XOR b)"
  have hi: "0xFF XOR CrcHi ! ?i = 0xFF" and lo: "CrcLo ! ?i = 0xFF"
    using eq by (simp_all add: crc_add_def crc_reset_def Let_def)
  have "CrcHi ! ?i = 0"
    using hi xor_u8_cancel' [of "0xFF" "CrcHi ! ?i" 0] by simp
  moreover have "list_all2 (\<lambda>h l. h = 0 \<longrightarrow> l \<noteq> (0xFF :: u8)) CrcHi CrcLo"
    by (simp add: CrcHi_def CrcLo_def)
  ultimately show False
    using lo unat_u8_less [of "0xFF XOR b"] by (auto simp: list_all2_conv_all_nth)
qed

subsection \<open>Properties\<close>





text \<open>
  C23. In every reachable state the engine waits for a device only with its timeout running and an
  unfinished request active, and in idle nothing is queued: no request is ever forgotten.
\<close>

theorem rtu_engine_never_stuck:
  "let c = run (rtu_step (rtu_slot_next nxt)) rtu_new es
   in if rState c = Idle then rPending c = [] \<and> \<not> rTimer c
      else rTimer c \<and> (case rActive c of None \<Rightarrow> False | Some rid \<Rightarrow>
        map_option isFinished (rReplies c rid) = Some False \<and> rid \<notin> set (rPending c))"
proof -
  have "rtu_inv (run (rtu_step (rtu_slot_next nxt)) rtu_new es)"
    by (rule rtu_run.run_inv) (simp_all add: rtu_inv_new list.pred_True)
  then show ?thesis
    by (cases "rState (run (rtu_step (rtu_slot_next nxt)) rtu_new es) = Idle")
      (auto simp: rtu_inv_def Let_def rtu_live_def split: option.splits)
qed

text \<open>
  A single byte that arrives while the engine is idle is added to the checksum, so the valid
  response to the next request is rejected and the request is left to its timeout.
\<close>

theorem rtu_idle_byte_spoils_next_response:
  assumes "rtu_ready c" "f = ReadHoldingRegisters \<or> f = ReadInputRegisters" "length vs < 128"
  shows "let c0 = rtu_receive slot c [b];
             (rid, c1) = rtu_readRegisters f unitId start n c0;
             c2 = rtu_receive slot c1 (rtu_read_response unitId f vs)
         in rReplies c2 = rReplies c1 \<and> rOut c2 = rOut c1 \<and> rActive c2 = Some rid
            \<and> rState c2 = Address \<and> rTimer c2"
proof -
  let ?c = "rtu_receive slot c [b]"
  have "?c = c\<lparr> rCrcBuilder := crc_add crc_reset b \<rparr>"
    using assms(1) by (simp add: rtu_ready_def rtu_byte)
  then have idle: "rState ?c = Idle" "rAddToCrc ?c" "rData ?c = []" "rCrcBuilder ?c \<noteq> crc_reset"
    using assms(1) crc_add_reset_neq [of b] by (simp_all add: rtu_ready_def)
  from rtu_read_idle [OF idle(1-3) assms(2), of unitId start n] obtain r d where
    d: "rtu_readRegisters f unitId start n ?c = (rNext ?c, d)" "rState d = Address" "rAddToCrc d"
      "rData d = []" "rCrcBuilder d = rCrcBuilder ?c" "rActive d = Some (rNext ?c)"
      "rReplies d (rNext ?c) = Some r" "rTimer d"
    by blast
  have "rCrcBuilder d \<noteq> crc_reset" using d(5) idle(4) by simp
  from rtu_receive_mismatch [OF d(2-4) assms(3,2) d(6,7) rtu_noise_crc [OF this] refl, of slot]
  show ?thesis using d(1,8) by (simp add: Let_def rtu_read_response_def with_crc_def)
qed

theorem rtu_idle_byte_spoils_next_response_witness:
  "let c0 = rtu_receive (\<lambda>_ d. d) rtu_new [0];
       (rid, c1) = rtu_readRegisters ReadInputRegisters 1 0x4000 1 c0;
       c2 = rtu_receive (\<lambda>_ d. d) c1 (rtu_read_response 1 ReadInputRegisters [0x55])
   in rReplies c2 = rReplies c1 \<and> rOut c2 = rOut c1 \<and> rActive c2 = Some rid
      \<and> rState c2 = Address \<and> rTimer c2"
  by (rule rtu_idle_byte_spoils_next_response) (simp_all add: rtu_ready_new)

text \<open>
  A multi-register write of an idle client puts the same bytes on the line for any two value
  lists of the same length: the values are not in the frame.
\<close>

theorem rtu_write_multiple_sends_no_values:
  assumes "length vs = length ws"
  shows "rOut (snd (rtu_writeMultipleHoldingRegisters unitId start vs c)) =
    rOut (snd (rtu_writeMultipleHoldingRegisters unitId start ws c))"
  using assms
  by (simp add: rtu_writeMultipleHoldingRegisters_def rtu_request_def rtu_send_def rtu_frame_def
      Let_def modbus_reply.defs new_reply_def rtu_emit_def function_codes)

theorem rtu_write_multiple_sends_no_values_witness:
  "rOut (snd (rtu_writeMultipleHoldingRegisters 1 0x10 [1, 2] rtu_new)) =
   rOut (snd (rtu_writeMultipleHoldingRegisters 1 0x10 [3, 4] rtu_new))"
  by (rule rtu_write_multiple_sends_no_values) simp

end
