(* ===== verification/Strings.thy ===== *)
theory Strings
  imports Prelude "HOL-Library.Char_ord"
begin

text \<open>
  The Qt string operations that the program uses, on HOL strings: splitting at a separator
  (\<^verbatim>\<open>QString::split\<close>, with and without \<^verbatim>\<open>SkipEmptyParts\<close>), \<^verbatim>\<open>QStringList::join\<close>, decimal
  numbers (\<^verbatim>\<open>QString::number\<close>, \<^verbatim>\<open>toInt\<close> on digits), and their round trips.
\<close>

subsection \<open>Splitting and joining\<close>

fun split_on :: "'a \<Rightarrow> 'a list \<Rightarrow> 'a list list" where
  "split_on sep [] = [[]]"
| "split_on sep (x # xs) =
     (if x = sep then [] # split_on sep xs
      else case split_on sep xs of [] \<Rightarrow> [[x]] | p # ps \<Rightarrow> (x # p) # ps)"

definition split_skip :: "'a \<Rightarrow> 'a list \<Rightarrow> 'a list list" where
  "split_skip sep xs = filter (\<lambda>p. p \<noteq> []) (split_on sep xs)"

fun join :: "'a \<Rightarrow> 'a list list \<Rightarrow> 'a list" where
  "join sep [] = []"
| "join sep [p] = p"
| "join sep (p # q # ps) = p @ sep # join sep (q # ps)"

lemma split_on_no_sep: "sep \<notin> set p \<Longrightarrow> split_on sep p = [p]"
  by (induction p) auto

lemma split_on_append: "sep \<notin> set p \<Longrightarrow> split_on sep (p @ sep # xs) = p # split_on sep xs"
  by (induction p) auto

lemma split_on_join:
  "ps \<noteq> [] \<Longrightarrow> list_all (\<lambda>p. sep \<notin> set p) ps \<Longrightarrow> split_on sep (join sep ps) = ps"
  by (induction sep ps rule: join.induct) (auto simp: split_on_no_sep split_on_append)

lemma split_skip_join:
  assumes "list_all (\<lambda>p. p \<noteq> [] \<and> sep \<notin> set p) ps"
  shows "split_skip sep (join sep ps) = ps"
proof (cases "ps = []")
  case False
  moreover have "list_all (\<lambda>p. sep \<notin> set p) ps"
    using assms by (simp add: list_all_iff)
  ultimately have "split_on sep (join sep ps) = ps"
    by (simp add: split_on_join)
  then show ?thesis
    using assms by (simp add: split_skip_def list_all_iff)
qed (simp add: split_skip_def)

lemma set_join: "set (join sep ps) \<subseteq> insert sep (\<Union> (set ` set ps))"
  by (induction sep ps rule: join.induct) auto

text \<open>Building the joined text front to back, with a separator before every part but the first.\<close>

lemma join_append:
  "ps \<noteq> [] \<Longrightarrow> join sep (ps @ [p]) = join sep ps @ sep # p"
  by (induction sep ps rule: join.induct) auto

lemma join_eq_Nil: "list_all (\<lambda>p. p \<noteq> []) ps \<Longrightarrow> join sep ps = [] \<longleftrightarrow> ps = []"
  by (induction sep ps rule: join.induct) auto

subsection \<open>Decimal numbers\<close>

definition digit :: "nat \<Rightarrow> char" where
  "digit n = char_of (48 + n)"

fun dec :: "nat \<Rightarrow> string" where
  "dec n = (if n < 10 then [digit n] else dec (n div 10) @ [digit (n mod 10)])"

declare dec.simps [simp del]

definition digit_value :: "char \<Rightarrow> nat" where
  "digit_value c = of_char c - 48"

definition is_digit :: "char \<Rightarrow> bool" where
  "is_digit c \<longleftrightarrow> 48 \<le> (of_char c :: nat) \<and> (of_char c :: nat) \<le> 57"

definition undec :: "string \<Rightarrow> nat" where
  "undec = foldl (\<lambda>a c. 10 * a + digit_value c) 0"

definition dec_int :: "int \<Rightarrow> string" where
  "dec_int i = (if i < 0 then CHR ''-'' # dec (nat (- i)) else dec (nat i))"

lemma of_char_digit: "n < 10 \<Longrightarrow> (of_char (digit n) :: nat) = 48 + n"
  by (simp add: digit_def)

lemma digit_value_digit [simp]: "n < 10 \<Longrightarrow> digit_value (digit n) = n"
  by (simp add: digit_value_def of_char_digit)

lemma is_digit_digit [simp]: "n < 10 \<Longrightarrow> is_digit (digit n)"
  by (simp add: is_digit_def of_char_digit)

lemma undec_dec [simp]: "undec (dec n) = n"
proof (induction n rule: dec.induct)
  case (1 n)
  show ?case
  proof (cases "n < 10")
    case True
    then show ?thesis by (subst dec.simps) (simp add: undec_def)
  next
    case False
    then have "undec (dec n) = 10 * undec (dec (n div 10)) + n mod 10"
      by (subst dec.simps) (simp add: undec_def)
    then show ?thesis using 1 False by simp
  qed
qed

lemma dec_digits: "list_all is_digit (dec n)"
proof (induction n rule: dec.induct)
  case (1 n)
  then show ?case by (subst dec.simps) simp
qed

lemma dec_not_Nil [simp]: "dec n \<noteq> []"
  by (subst dec.simps) simp

lemma dec_no_sep: "\<not> is_digit c \<Longrightarrow> c \<notin> set (dec n)"
  using dec_digits [of n] by (auto simp: list_all_iff)

lemma dec_inject [simp]: "dec m = dec n \<longleftrightarrow> m = n"
  by (metis undec_dec)

lemma length_dec: "length (dec n) \<le> 1 \<longleftrightarrow> n < 10"
proof -
  have "dec m \<noteq> []" for m by simp
  then show ?thesis
    by (subst dec.simps) (auto simp: Suc_le_eq)
qed

subsection \<open>Place markers (QString::arg)\<close>

text \<open>
  Every place marker (\<^verbatim>\<open>%\<close>, an optional \<^verbatim>\<open>L\<close> and one or two digits) of the lowest number is
  replaced, also one that an earlier argument brought in.
\<close>

fun marker_digits :: "string \<Rightarrow> (nat \<times> string) option" where
  "marker_digits [] = None"
| "marker_digits (a # cs) =
     (if \<not> is_digit a then None
      else case cs of
        b # ds \<Rightarrow> Some (if is_digit b then (10 * digit_value a + digit_value b, ds) else (digit_value a, cs))
      | [] \<Rightarrow> Some (digit_value a, []))"

fun place_marker :: "string \<Rightarrow> (nat \<times> string) option" where
  "place_marker [] = None"
| "place_marker (p # cs) =
     (if p = CHR ''%'' then marker_digits (if cs \<noteq> [] \<and> hd cs = CHR ''L'' then tl cs else cs) else None)"

declare place_marker.simps(2) [simp del]

lemma marker_digits_shorter: "marker_digits cs = Some (k, rest) \<Longrightarrow> length rest < length cs"
  by (cases cs) (auto split: if_splits list.splits)

lemma place_marker_shorter:
  assumes "place_marker (c # cs) = Some (k, rest)"
  shows "length rest < Suc (length cs)"
proof -
  let ?ds = "if cs \<noteq> [] \<and> hd cs = CHR ''L'' then tl cs else cs"
  have "length rest < length ?ds"
    using assms marker_digits_shorter [of ?ds]
    by (auto simp: place_marker.simps(2) simp del: marker_digits.simps split: if_split_asm)
  also have "length ?ds \<le> length cs" by simp
  finally show ?thesis by simp
qed

function lowest_marker :: "string \<Rightarrow> nat option" where
  "lowest_marker [] = None"
| "lowest_marker (c # cs) =
     (case place_marker (c # cs) of
        None \<Rightarrow> lowest_marker cs
      | Some (k, rest) \<Rightarrow> Some (case lowest_marker rest of None \<Rightarrow> k | Some m \<Rightarrow> min k m))"
  by pat_completeness auto
termination by (relation "measure length") (auto dest!: place_marker_shorter)

function replace_marker :: "nat \<Rightarrow> string \<Rightarrow> string \<Rightarrow> string" where
  "replace_marker k a [] = []"
| "replace_marker k a (c # cs) =
     (case place_marker (c # cs) of
        None \<Rightarrow> c # replace_marker k a cs
      | Some (m, rest) \<Rightarrow>
          (if m = k then a else take (length (c # cs) - length rest) (c # cs)) @ replace_marker k a rest)"
  by pat_completeness auto
termination by (relation "measure (length \<circ> snd \<circ> snd)") (auto dest!: place_marker_shorter)

definition qarg :: "string \<Rightarrow> string \<Rightarrow> string" where
  "qarg s a = (case lowest_marker s of None \<Rightarrow> s | Some k \<Rightarrow> replace_marker k a s)"

lemma place_marker_no_percent: "c \<noteq> CHR ''%'' \<Longrightarrow> place_marker (c # cs) = None"
  by (simp add: place_marker.simps(2))

lemma lowest_marker_append: "CHR ''%'' \<notin> set s \<Longrightarrow> lowest_marker (s @ cs) = lowest_marker cs"
  by (induction s) (auto simp: place_marker_no_percent)

lemma replace_marker_append:
  "CHR ''%'' \<notin> set s \<Longrightarrow> replace_marker k a (s @ cs) = s @ replace_marker k a cs"
  by (induction s) (auto simp: place_marker_no_percent)

lemma qarg_two:
  assumes "CHR ''%'' \<notin> set a"
  shows "qarg (qarg ''%1 %2'' a) b = a @ '' '' @ b"
proof -
  have d: "is_digit CHR ''1''" "is_digit CHR ''2''" "\<not> is_digit CHR '' ''"
      "digit_value CHR ''1'' = 1" "digit_value CHR ''2'' = 2"
    by (simp_all add: is_digit_def digit_value_def)
  have p: "place_marker ''%1 %2'' = Some (1, '' %2'')" "place_marker ''%2'' = Some (2, [])"
      "place_marker '' %2'' = None"
    by (simp_all add: d place_marker.simps(2))
  have "qarg ''%1 %2'' a = a @ '' %2''"
    by (simp add: qarg_def p min_def)
  moreover have "qarg (a @ '' %2'') b = a @ '' '' @ b"
    by (simp add: qarg_def lowest_marker_append [OF assms] replace_marker_append [OF assms] p)
  ultimately show ?thesis by simp
qed

end
