(* ===== verification/Host_Address.thy ===== *)
theory Host_Address
  imports Strings
begin

text \<open>
  \<^verbatim>\<open>QHostAddress\<close>: the null address, IPv4 addresses as 32-bit numbers (\<^verbatim>\<open>toIPv4Address\<close>) and
  IPv6 addresses.  The text form is Qt's: \<open>parse\<close> stands for \<^verbatim>\<open>QHostAddress(QString)\<close> and
  \<open>print\<close> for \<^verbatim>\<open>toString\<close>; the locale \<open>address_text\<close> holds what the program relies on, and
  dotted decimal text is an instance.
\<close>

datatype host_address = NullAddress | IPv4 u32 | IPv6 "128 word"

fun toIPv4Address :: "host_address \<Rightarrow> u32" where
  "toIPv4Address (IPv4 a) = a"
| "toIPv4Address _ = 0"

fun is_ipv4 :: "host_address \<Rightarrow> bool" where
  "is_ipv4 (IPv4 a) = True"
| "is_ipv4 _ = False"

locale address_text =
  fixes parse :: "string \<Rightarrow> host_address"
    and print :: "host_address \<Rightarrow> string"
  assumes parse_print: "is_ipv4 a \<Longrightarrow> parse (print a) = a"
    and print_not_empty: "is_ipv4 a \<Longrightarrow> print a \<noteq> []"
    and print_no_comma: "is_ipv4 a \<Longrightarrow> CHR '','' \<notin> set (print a)"
begin

lemma print_parts: "list_all is_ipv4 as \<Longrightarrow> list_all (\<lambda>p. p \<noteq> [] \<and> CHR '','' \<notin> set p) (map print as)"
  by (auto simp: list_all_iff print_not_empty print_no_comma)

lemma parse_parts: "list_all is_ipv4 as \<Longrightarrow> map parse (map print as) = as"
  by (induction as) (auto simp: parse_print)

lemma print_inject: "is_ipv4 a \<Longrightarrow> is_ipv4 b \<Longrightarrow> print a = print b \<longleftrightarrow> a = b"
  by (metis parse_print)

end

subsection \<open>Dotted decimal text\<close>

definition octets :: "u32 \<Rightarrow> nat list" where
  "octets a = [unat a div 2 ^ 24, unat a div 2 ^ 16 mod 256, unat a div 2 ^ 8 mod 256, unat a mod 256]"

definition from_octets :: "nat list \<Rightarrow> u32" where
  "from_octets ns = of_nat (foldl (\<lambda>a n. 256 * a + n) 0 ns)"

fun dotted :: "host_address \<Rightarrow> string" where
  "dotted (IPv4 a) = join (CHR ''.'') (map dec (octets a))"
| "dotted _ = []"

definition parse_dotted :: "string \<Rightarrow> host_address" where
  "parse_dotted s =
     (let ps = split_on (CHR ''.'') s
      in if length ps = 4 \<and> list_all (\<lambda>p. p \<noteq> [] \<and> list_all is_digit p \<and> undec p < 256) ps
         then IPv4 (from_octets (map undec ps)) else NullAddress)"

lemma from_octets_octets: "from_octets (octets a) = a"
proof -
  have "256 * (256 * (256 * (n div 2 ^ 24) + n div 2 ^ 16 mod 256) + n div 2 ^ 8 mod 256) + n mod 256 = n"
    for n :: nat
  proof -
    have "n div 2 ^ 16 = 256 * (n div 2 ^ 24) + n div 2 ^ 16 mod 256"
      using div_mult2_eq [of n "2 ^ 16" 256] mult_div_mod_eq [of 256 "n div 2 ^ 16"] by simp
    moreover have "n div 2 ^ 8 = 256 * (n div 2 ^ 16) + n div 2 ^ 8 mod 256"
      using div_mult2_eq [of n "2 ^ 8" 256] mult_div_mod_eq [of 256 "n div 2 ^ 8"] by simp
    moreover have "n = 256 * (n div 2 ^ 8) + n mod 256"
      using mult_div_mod_eq [of 256 n] by simp
    ultimately show ?thesis by simp
  qed
  from this [of "unat a"] show ?thesis
    by (simp add: from_octets_def octets_def)
qed

lemma octets_small: "list_all (\<lambda>n. n < 256) (octets a)"
proof -
  have "unat a < 2 ^ 32"
    using unsigned_less [of a] by simp
  then show ?thesis
    by (simp add: octets_def less_mult_imp_div_less)
qed

interpretation dotted: address_text parse_dotted dotted
proof unfold_locales
  fix a
  assume "is_ipv4 a"
  then obtain w where a: "a = IPv4 w" by (cases a) auto
  have dot: "\<not> is_digit (CHR ''.'')" and comma: "\<not> is_digit (CHR '','')"
    by (simp_all add: is_digit_def)
  have "split_on (CHR ''.'') (dotted a) = map dec (octets w)"
    unfolding a dotted.simps
    by (rule split_on_join) (simp_all add: octets_def dec_no_sep [OF dot])
  moreover have "map undec (map dec (octets w)) = octets w"
    by (simp add: comp_def)
  moreover have "list_all (\<lambda>p. p \<noteq> [] \<and> list_all is_digit p \<and> undec p < 256) (map dec (octets w))"
    using octets_small [of w] by (simp add: list_all_iff dec_digits [unfolded list_all_iff])
  moreover have "length (map dec (octets w)) = 4"
    by (simp add: octets_def)
  ultimately show "parse_dotted (dotted a) = a"
    unfolding parse_dotted_def Let_def by (simp only: a from_octets_octets simp_thms if_True)
  show "dotted a \<noteq> []"
    by (simp add: a octets_def)
  have "set (dotted a) \<subseteq> insert (CHR ''.'') (\<Union> (set ` set (map dec (octets w))))"
    unfolding a dotted.simps by (rule set_join)
  then show "CHR '','' \<notin> set (dotted a)"
    using dec_no_sep [OF comma] by (auto simp del: dotted.simps)
qed

end
