(* ===== verification/Ve_Consumer.thy ===== *)
theory Ve_Consumer
  imports Strings
begin

text \<open>
  The consumer side of the D-Bus items (\<^verbatim>\<open>ve_qitem_consumer.cpp\<close>, built with \<^verbatim>\<open>QT_DBUS_LIB\<close>):
  which \<^verbatim>\<open>AddSetting\<close> call a setting needs, and which device instance localsettings assigns.
  localsettings itself is not part of the repository: \<open>reply\<close> is what it answers.
\<close>

subsection \<open>String searches of Qt\<close>

text \<open>\<^verbatim>\<open>indexOf(c, from)\<close> and \<^verbatim>\<open>lastIndexOf(c)\<close>, \<open>None\<close> for -1.\<close>

definition index_of :: "char \<Rightarrow> nat \<Rightarrow> string \<Rightarrow> nat option" where
  "index_of c from s = find (\<lambda>i. s ! i = c) [from..<length s]"

definition last_index_of :: "char \<Rightarrow> string \<Rightarrow> nat option" where
  "last_index_of c s = find (\<lambda>i. s ! i = c) (rev [0..<length s])"

definition mid :: "nat \<Rightarrow> nat \<Rightarrow> string \<Rightarrow> string" where
  "mid pos n s = take n (drop pos s)"

text \<open>\<^verbatim>\<open>replace(before, "")\<close> for a non-empty \<open>before\<close>.\<close>

function remove_all :: "string \<Rightarrow> string \<Rightarrow> string" where
  "remove_all before s =
     (case s of
        [] \<Rightarrow> []
      | c # cs \<Rightarrow>
          if before \<noteq> [] \<and> take (length before) s = before
          then remove_all before (drop (length before) s)
          else c # remove_all before cs)"
  by pat_completeness auto
termination
proof (relation "measure (\<lambda>(before, s). length s)")
  fix before s and c :: char and cs :: string
  assume s: "s = c # cs" and b: "before \<noteq> [] \<and> take (length before) s = before"
  show "((before, drop (length before) s), (before, s)) \<in> measure (\<lambda>(before, s). length s)"
    using s b by (cases before) auto
qed auto

declare remove_all.simps [simp del]

text \<open>\<^verbatim>\<open>toInt(&ok)\<close>: blanks at both ends, a sign, decimal digits, in the range of \<^verbatim>\<open>int\<close>.\<close>

definition strip :: "string \<Rightarrow> string" where
  "strip s = rev (dropWhile (\<lambda>c. c = CHR '' '') (rev (dropWhile (\<lambda>c. c = CHR '' '') s)))"

definition to_int :: "string \<Rightarrow> int option" where
  "to_int s =
     (let t = strip s;
          (neg, ds) = (case t of [] \<Rightarrow> (False, [])
             | c # cs \<Rightarrow> if c = CHR ''-'' then (True, cs) else if c = CHR ''+'' then (False, cs)
                       else (False, t));
          v = (if neg then - int (undec ds) else int (undec ds))
      in if ds \<noteq> [] \<and> list_all is_digit ds \<and> - (2 ^ 31) \<le> v \<and> v < 2 ^ 31 then Some v else None)"

subsection \<open>Settings\<close>

datatype setting_default = DefInt int | DefDouble | DefString string | DefOther

fun setting_type :: "setting_default \<Rightarrow> char option" where
  "setting_type (DefInt _) = Some (CHR ''i'')"
| "setting_type DefDouble = Some (CHR ''f'')"
| "setting_type (DefString _) = Some (CHR ''s'')"
| "setting_type DefOther = None"

text \<open>
  \<^verbatim>\<open>addSetting\<close>: \<open>rel\<close> is the path of the root item relative to the services of its producer.
  The result is the group, the name and the type of the call, \<open>None\<close> where the function returns
  false before it.
\<close>

definition addSetting :: "string \<Rightarrow> string \<Rightarrow> setting_default \<Rightarrow> (string \<times> string \<times> char) option" where
  "addSetting rel path def =
     (let px = remove_all ''/com.victronenergy.settings'' (rel @ ''/'' @ path);
          pos = (if take 1 px = ''/'' then 1 else 0)
      in if mid pos 8 px \<noteq> ''Settings'' then None
         else case index_of (CHR ''/'') pos px of
           None \<Rightarrow> None
         | Some groupStart \<Rightarrow>
             (case last_index_of (CHR ''/'') px of
                None \<Rightarrow> None
              | Some nameStart \<Rightarrow>
                  if nameStart \<le> groupStart then None
                  else case setting_type def of
                    None \<Rightarrow> None
                  | Some t \<Rightarrow>
                      Some (mid (groupStart + 1) (nameStart - groupStart - 1) px,
                            drop (nameStart + 1) px, t)))"

text \<open>
  \<^verbatim>\<open>getDeviceInstance\<close>: the call \<^verbatim>\<open>AddSettings\<close> with path and default value; \<open>reply\<close> is the value
  that localsettings returns for them (\<open>None\<close> for an error or an empty answer).
\<close>

definition device_instance_default :: "string \<Rightarrow> int \<Rightarrow> string" where
  "device_instance_default deviceClass d = deviceClass @ '':'' @ dec_int d"

definition getDeviceInstance ::
    "(string \<Rightarrow> string \<Rightarrow> string option) \<Rightarrow> string \<Rightarrow> string \<Rightarrow> int \<Rightarrow> int" where
  "getDeviceInstance reply uniqueId deviceClass d =
     (case reply (uniqueId @ ''/ClassAndVrmInstance'') (device_instance_default deviceClass d) of
        None \<Rightarrow> -1
      | Some v \<Rightarrow>
          (case to_int (last (split_on (CHR '':'') v)) of None \<Rightarrow> -1 | Some di \<Rightarrow> di))"

subsection \<open>Lemmas\<close>

lemma strip_digits:
  assumes "list_all is_digit s"
  shows "strip s = s"
proof -
  have blank: "\<not> is_digit (CHR '' '')" by (simp add: is_digit_def)
  have d: "dropWhile (\<lambda>c. c = CHR '' '') t = t" if "list_all is_digit t" for t
    using that blank by (cases t) auto
  show ?thesis
    using d [OF assms] d [of "rev s"] assms by (simp add: strip_def)
qed

lemma to_int_dec: "n < 2 ^ 31 \<Longrightarrow> to_int (dec n) = Some (int n)"
proof -
  assume n: "n < 2 ^ 31"
  have sign: "\<not> is_digit (CHR ''-'')" "\<not> is_digit (CHR ''+'')"
    by (simp_all add: is_digit_def)
  obtain c cs where d: "dec n = c # cs"
    by (cases "dec n") auto
  have "is_digit c" "list_all is_digit (c # cs)"
    using dec_digits [of n] d by simp_all
  moreover from this have "strip (c # cs) = c # cs"
    by (intro strip_digits)
  moreover have "undec (c # cs) = n"
    using d undec_dec [of n] by simp
  ultimately show ?thesis
    using n sign unfolding to_int_def d by (auto simp: Let_def)
qed

text \<open>localsettings that keeps the proposed default gives the proposed instance.\<close>

lemma getDeviceInstance_default:
  assumes "reply (uniqueId @ ''/ClassAndVrmInstance'') (device_instance_default cls (int n)) =
      Some (device_instance_default cls (int n))"
    and "CHR '':'' \<notin> set cls" "n < 2 ^ 31"
  shows "getDeviceInstance reply uniqueId cls (int n) = int n"
proof -
  have "CHR '':'' \<notin> set (dec n)"
    by (rule dec_no_sep) (simp add: is_digit_def)
  then have "split_on (CHR '':'') (device_instance_default cls (int n)) = [cls, dec n]"
    using assms(2)
    by (simp add: device_instance_default_def dec_int_def split_on_append split_on_no_sep)
  then show ?thesis
    using assms(1,3) by (simp add: getDeviceInstance_def to_int_dec)
qed

end
