(* ===== verification/Settings.thy ===== *)
theory Settings
  imports Host_Address Ve_Consumer
begin

text \<open>
  The settings of the service (\<^verbatim>\<open>settings.cpp\<close>): the values of the D-Bus items and the cache of
  inverter ids.  \<open>store\<close> is what an item returns from \<^verbatim>\<open>getValue\<close> after \<^verbatim>\<open>setValue\<close>: it gets the
  old and the new text.  \<open>parse\<close> and \<open>print\<close> are the text forms of addresses, \<open>toUInt\<close> is the
  conversion of a text item to a number.
\<close>

type_synonym store = "string \<Rightarrow> string \<Rightarrow> string"

record settings =
  stGridCode :: string
  stUnitId :: int
  stPortNumber :: int
  stIpAddresses :: string
  stKnownIpAddresses :: string
  stInverterIds :: string
  stAutoScan :: bool
  stInverterIdCache :: "string list"

text \<open>The items that the constructor creates, with the defaults of their settings.\<close>

definition settings_items :: "(string \<times> setting_default) list" where
  "settings_items =
     [(''GridCode'', DefString []), (''UnitId'', DefInt 3), (''PortNumber'', DefInt 80),
      (''IPAddresses'', DefString []), (''KnownIPAddresses'', DefString []),
      (''InverterIds'', DefString []), (''AutoScan'', DefInt 1)]"

definition settings_new :: settings where
  "settings_new = \<lparr> stGridCode = [], stUnitId = 3, stPortNumber = 80, stIpAddresses = [],
     stKnownIpAddresses = [], stInverterIds = [], stAutoScan = True, stInverterIdCache = [] \<rparr>"

definition gridCode :: "(string \<Rightarrow> u32) \<Rightarrow> settings \<Rightarrow> u32" where
  "gridCode toUInt st = toUInt (stGridCode st)"

subsection \<open>Address lists\<close>

definition toAdressList :: "(string \<Rightarrow> host_address) \<Rightarrow> string \<Rightarrow> host_address list" where
  "toAdressList parse s = map parse (split_skip (CHR '','') s)"

definition fromAddressList :: "(host_address \<Rightarrow> string) \<Rightarrow> host_address list \<Rightarrow> string" where
  "fromAddressList print as =
     foldl (\<lambda>r a. (if r \<noteq> [] then r @ '','' else r) @ print a) [] as"

definition ipAddresses :: "(string \<Rightarrow> host_address) \<Rightarrow> settings \<Rightarrow> host_address list" where
  "ipAddresses parse st = toAdressList parse (stIpAddresses st)"

definition setIpAddresses ::
    "store \<Rightarrow> (host_address \<Rightarrow> string) \<Rightarrow> host_address list \<Rightarrow> settings \<Rightarrow> settings" where
  "setIpAddresses store print as st =
     st\<lparr> stIpAddresses := store (stIpAddresses st) (fromAddressList print as) \<rparr>"

definition knownIpAddresses :: "(string \<Rightarrow> host_address) \<Rightarrow> settings \<Rightarrow> host_address list" where
  "knownIpAddresses parse st = toAdressList parse (stKnownIpAddresses st)"

definition setKnownIpAddresses ::
    "store \<Rightarrow> (host_address \<Rightarrow> string) \<Rightarrow> host_address list \<Rightarrow> settings \<Rightarrow> settings" where
  "setKnownIpAddresses store print as st =
     st\<lparr> stKnownIpAddresses := store (stKnownIpAddresses st) (fromAddressList print as) \<rparr>"

context address_text
begin

lemma fromAddressList_join:
  "list_all is_ipv4 as \<Longrightarrow> fromAddressList print as = join (CHR '','') (map print as)"
proof (induction as rule: rev_induct)
  case (snoc a as)
  then have IH: "fromAddressList print as = join (CHR '','') (map print as)"
    by simp
  have "join (CHR '','') (map print as) = [] \<longleftrightarrow> as = []"
    using snoc.prems join_eq_Nil [of "map print as" "CHR '',''"]
    by (auto simp: list_all_iff print_not_empty)
  then show ?case
    using IH join_append [of "map print as" "CHR '',''" "print a"]
    by (cases "as = []") (simp_all add: fromAddressList_def)
qed (simp add: fromAddressList_def)

lemma toAdressList_fromAddressList:
  "list_all is_ipv4 as \<Longrightarrow> toAdressList parse (fromAddressList print as) = as"
  by (simp only: toAdressList_def fromAddressList_join split_skip_join [OF print_parts] parse_parts)

lemma known_after_set:
  assumes "\<And>old new. store old new = new" "list_all is_ipv4 as"
  shows "knownIpAddresses parse (setKnownIpAddresses store print as st) = as"
  using assms by (simp add: knownIpAddresses_def setKnownIpAddresses_def toAdressList_fromAddressList)

end

subsection \<open>Inverter ids\<close>

definition id_char :: "char \<Rightarrow> bool" where
  "id_char c \<longleftrightarrow> (let n = (of_char c :: nat) in
     65 \<le> n \<and> n \<le> 90 \<or> 97 \<le> n \<and> n \<le> 122 \<or> 48 \<le> n \<and> n \<le> 57 \<or> n = 95)"

definition createInverterId :: "string \<Rightarrow> string" where
  "createInverterId deviceSerial =
     map (\<lambda>c. if id_char c then c else CHR ''_'') (CHR ''I'' # deviceSerial)"

definition MinDeviceInstance :: int where "MinDeviceInstance = 20"

definition registerInverter ::
    "store \<Rightarrow> (string \<Rightarrow> string \<Rightarrow> string option) \<Rightarrow> string \<Rightarrow> settings \<Rightarrow> int \<times> settings" where
  "registerInverter store reply uniqueId st =
     (let settingsId = createInverterId uniqueId;
          i = getDeviceInstance reply settingsId ''pvinverter'' MinDeviceInstance
      in (i, if settingsId \<in> set (stInverterIdCache st) then st
             else let cache = stInverterIdCache st @ [settingsId]
                  in st\<lparr> stInverterIdCache := cache,
                         stInverterIds := store (stInverterIds st) (join (CHR '','') cache) \<rparr>))"

definition onInverterdIdsChanged :: "settings \<Rightarrow> settings" where
  "onInverterdIdsChanged st =
     (if stInverterIdCache st \<noteq> [] then st
      else st\<lparr> stInverterIdCache := split_skip (CHR '','') (stInverterIds st) \<rparr>)"

lemma id_char_simps: "id_char (CHR ''_'')" "\<not> id_char (CHR '','')"
  by (simp_all add: id_char_def)

lemma createInverterId_chars: "list_all id_char (createInverterId s)"
  unfolding createInverterId_def list.pred_map comp_def using id_char_simps(1) by (simp add: list.pred_True del: list.pred_inject)

lemma createInverterId_part: "createInverterId s \<noteq> [] \<and> CHR '','' \<notin> set (createInverterId s)"
proof
  show "createInverterId s \<noteq> []" by (simp add: createInverterId_def)
  show "CHR '','' \<notin> set (createInverterId s)"
    using createInverterId_chars [of s] id_char_simps(2) unfolding list_all_iff by blast
qed

text \<open>Every id in the cache came from \<^verbatim>\<open>createInverterId\<close>, or from the stored list.\<close>

definition settings_inv :: "settings \<Rightarrow> bool" where
  "settings_inv st \<longleftrightarrow> distinct (stInverterIdCache st) \<and>
     list_all (\<lambda>p. p \<noteq> [] \<and> CHR '','' \<notin> set p) (stInverterIdCache st)"

lemma settings_inv_register:
  assumes "settings_inv st"
  shows "settings_inv (snd (registerInverter store reply s st))"
  using assms createInverterId_part [of s] by (auto simp: settings_inv_def registerInverter_def Let_def)

text \<open>The stored list always restores the cache: a restarted service knows the same inverters.\<close>

lemma register_persists_lemma:
  assumes "settings_inv st" "stInverterIds st = join (CHR '','') (stInverterIdCache st)"
    and "\<And>old new. store old new = new"
  shows "let st' = snd (registerInverter store reply s st)
    in stInverterIdCache (onInverterdIdsChanged (st'\<lparr> stInverterIdCache := [] \<rparr>)) = stInverterIdCache st'
       \<and> createInverterId s \<in> set (stInverterIdCache st')"
proof -
  let ?st = "snd (registerInverter store reply s st)"
  have "list_all (\<lambda>p. p \<noteq> [] \<and> CHR '','' \<notin> set p) (stInverterIdCache ?st)"
    using settings_inv_register [OF assms(1), of store reply s] by (simp add: settings_inv_def)
  moreover have "stInverterIds ?st = join (CHR '','') (stInverterIdCache ?st)"
    using assms(2,3) by (simp add: registerInverter_def Let_def)
  ultimately show ?thesis
    by (auto simp: onInverterdIdsChanged_def split_skip_join Let_def registerInverter_def)
qed

text \<open>Different serial numbers may get the same id.\<close>

lemma createInverterId_collision: "createInverterId ''ab-1'' = createInverterId ''ab_1''"
  by (simp add: createInverterId_def id_char_def)

text \<open>
  Known addresses survive the settings: whatever IPv4 addresses the gateway stores, it reads back in
  the same order, over the texts of \<^verbatim>\<open>QHostAddress\<close> for IPv4 and a settings item that keeps what is
  written to it.
\<close>

theorem known_addresses_round_trip:
  assumes "list_all is_ipv4 as"
  shows "knownIpAddresses parse_dotted (setKnownIpAddresses (\<lambda>_ new. new) dotted as st) = as"
  by (rule dotted.known_after_set) (simp_all add: assms)

theorem known_addresses_round_trip_witness:
  "knownIpAddresses parse_dotted
     (setKnownIpAddresses (\<lambda>_ new. new) dotted [IPv4 0xC0A80117, IPv4 0x0A000001] settings_new) =
   [IPv4 0xC0A80117, IPv4 0x0A000001]"
  by (rule known_addresses_round_trip) simp

text \<open>
  C27. An inverter that was registered stays registered over a restart: the stored list of ids, read into an
  empty cache when the settings come up, gives exactly the cache as it was, which has the id of the
  inverter; the ids in it are distinct and consist of characters that a D-Bus path allows or came
  from the stored list.
\<close>

theorem registered_inverter_remembered:
  fixes serial :: string and reply :: "string \<Rightarrow> string \<Rightarrow> string option"
  assumes "settings_inv st" "stInverterIds st = join (CHR '','') (stInverterIdCache st)"
  defines "st' \<equiv> snd (registerInverter (\<lambda>_ new. new) reply serial st)"
  shows "settings_inv st' \<and> createInverterId serial \<in> set (stInverterIdCache st') \<and>
    list_all id_char (createInverterId serial) \<and>
    stInverterIdCache (onInverterdIdsChanged (st'\<lparr> stInverterIdCache := [] \<rparr>)) = stInverterIdCache st'"
  using register_persists_lemma [OF assms(1,2), of "\<lambda>_ new. new" reply serial]
    settings_inv_register [OF assms(1), of "\<lambda>_ new. new" reply serial] createInverterId_chars [of serial]
  unfolding st'_def Let_def by blast

theorem registered_inverter_remembered_witness:
  "createInverterId ''29301000'' \<in> set (stInverterIdCache
     (snd (registerInverter (\<lambda>_ new. new) (\<lambda>_ _. Some ''pvinverter:20'') ''29301000'' settings_new)))"
  using registered_inverter_remembered [of settings_new "\<lambda>_ _. Some ''pvinverter:20''" "''29301000''"]
  by (simp add: settings_inv_def settings_new_def)

end
