(* ===== verification/Ip_Generator.thy ===== *)
theory Ip_Generator
  imports Host_Address "HOL-Library.While_Combinator" "HOL-Library.Signed_Division"
begin

unbundle bit_operations_syntax

text \<open>
  The enumeration of the addresses to scan (\<^verbatim>\<open>local_ip_address_generator.cpp\<close>): the priority
  addresses, then the local subnets without the host's own address and the priority addresses.
  The network interfaces of the machine are an argument of \<^verbatim>\<open>reset\<close>.
\<close>

record subnet =
  sFirst :: u32
  sCurrent :: u32
  sLast :: u32
  sLocalHost :: u32

record net_interface =
  isUp :: bool
  isRunning :: bool
  isLoopBack :: bool
  addressEntries :: "(host_address \<times> host_address) list"

record ip_generator =
  gPriorityOnly :: bool
  gSubnets :: "subnet list"
  gPriorityAddresses :: "host_address list"
  gNetMaskLimit :: host_address
  gPriorityIndex :: nat
  gSubnetIndex :: nat

subsection \<open>A subnet\<close>

definition subnet_hasNext :: "subnet \<Rightarrow> bool" where
  "subnet_hasNext s \<longleftrightarrow> sCurrent s \<le> sLast s"

text \<open>The condition of the loop of \<^verbatim>\<open>next\<close>, and the loop (addresses wrap at 32 bits).\<close>

definition subnet_skips :: "host_address list \<Rightarrow> u32 \<Rightarrow> u32 \<Rightarrow> u32 \<Rightarrow> bool" where
  "subnet_skips exc localHost lst c \<longleftrightarrow>
     c \<le> lst \<and> (c = localHost \<or> IPv4 c \<in> set exc)"

definition subnet_next :: "host_address list \<Rightarrow> subnet \<Rightarrow> host_address \<times> subnet" where
  "subnet_next exc s =
     (IPv4 (sCurrent s),
      s\<lparr> sCurrent := while (subnet_skips exc (sLocalHost s) (sLast s)) (\<lambda>c. c + 1)
           (sCurrent s + 1) \<rparr>)"

definition new_subnet :: "host_address list \<Rightarrow> u32 \<Rightarrow> u32 \<Rightarrow> u32 \<Rightarrow> subnet" where
  "new_subnet exc first lst localHost =
     snd (subnet_next exc
       \<lparr> sFirst = first, sCurrent = first, sLast = lst, sLocalHost = localHost \<rparr>)"

definition subnet_size :: "subnet \<Rightarrow> int" where
  "subnet_size s = sint (sLast s - sFirst s + 1)"

definition subnet_position :: "subnet \<Rightarrow> int" where
  "subnet_position s = sint (sCurrent s - sFirst s)"

subsection \<open>The generator\<close>

definition gen_exceptions :: "ip_generator \<Rightarrow> host_address list" where
  "gen_exceptions g = remdups (gPriorityAddresses g)"

text \<open>The subnet that \<^verbatim>\<open>reset\<close> adds for an address and its netmask.\<close>

definition usable_address :: "host_address \<Rightarrow> bool" where
  "usable_address a \<longleftrightarrow> a \<noteq> NullAddress \<and> a \<noteq> IPv4 0x7F000001 \<and> a \<noteq> IPv6 1 \<and>
     a \<noteq> IPv4 0xFFFFFFFF \<and> a \<noteq> IPv4 0 \<and> a \<noteq> IPv6 0 \<and> is_ipv4 a"

definition entry_subnet :: "ip_generator \<Rightarrow> host_address \<times> host_address \<Rightarrow> subnet" where
  "entry_subnet g entry =
     (let netMask = toIPv4Address (snd entry) OR toIPv4Address (gNetMaskLimit g);
          localHost = toIPv4Address (fst entry)
      in if localHost AND 0xFFFF0000 = 0xA9FE0000
         then new_subnet (gen_exceptions g) 0xA9FE00B3 0xA9FE00B4 localHost
         else let first = localHost AND netMask;
                  lst = (first OR NOT netMask) - 1
              in new_subnet (gen_exceptions g) first lst localHost)"

definition scanned_entries :: "net_interface list \<Rightarrow> (host_address \<times> host_address) list" where
  "scanned_entries ifaces =
     concat (map (\<lambda>i. filter (\<lambda>e. usable_address (fst e)) (addressEntries i))
       (filter (\<lambda>i. isUp i \<and> isRunning i \<and> \<not> isLoopBack i) ifaces))"

definition gen_reset :: "net_interface list \<Rightarrow> ip_generator \<Rightarrow> ip_generator" where
  "gen_reset ifaces g =
     (let g = g\<lparr> gPriorityIndex := 0, gSubnetIndex := 0, gSubnets := [] \<rparr>
      in if gPriorityOnly g then g
         else g\<lparr> gSubnets := map (entry_subnet g) (scanned_entries ifaces) \<rparr>)"

definition gen_new :: "net_interface list \<Rightarrow> ip_generator" where
  "gen_new ifaces = gen_reset ifaces
     \<lparr> gPriorityOnly = False, gSubnets = [], gPriorityAddresses = [], gNetMaskLimit = IPv4 0,
       gPriorityIndex = 0, gSubnetIndex = 0 \<rparr>"

definition gen_hasNext :: "ip_generator \<Rightarrow> bool" where
  "gen_hasNext g \<longleftrightarrow> gPriorityIndex g < length (gPriorityAddresses g) \<or>
     list_ex subnet_hasNext (drop (gSubnetIndex g) (gSubnets g))"

function gen_next_subnet :: "ip_generator \<Rightarrow> host_address \<times> ip_generator" where
  "gen_next_subnet g =
     (if gSubnetIndex g < length (gSubnets g) then
        (let s = gSubnets g ! gSubnetIndex g
         in if subnet_hasNext s then
              (let (a, s') = subnet_next (gen_exceptions g) s
               in (a, g\<lparr> gSubnets := (gSubnets g)[gSubnetIndex g := s'] \<rparr>))
            else gen_next_subnet (g\<lparr> gSubnetIndex := gSubnetIndex g + 1 \<rparr>))
      else (IPv4 0, g))"
  by pat_completeness auto
termination
  by (relation "measure (\<lambda>g. length (gSubnets g) - gSubnetIndex g)") auto

declare gen_next_subnet.simps [simp del]

definition gen_next :: "ip_generator \<Rightarrow> host_address \<times> ip_generator" where
  "gen_next g =
     (if gPriorityIndex g < length (gPriorityAddresses g)
      then (gPriorityAddresses g ! gPriorityIndex g, g\<lparr> gPriorityIndex := gPriorityIndex g + 1 \<rparr>)
      else gen_next_subnet g)"

definition gen_progress :: "int \<Rightarrow> ip_generator \<Rightarrow> int" where
  "gen_progress activeCount g =
     (let total = int (length (gPriorityAddresses g)) +
            (if gPriorityOnly g then 0 else sum_list (map subnet_size (gSubnets g)));
          done = int (gPriorityIndex g) +
            (if gPriorityOnly g then 0 else sum_list (map subnet_position (gSubnets g)))
      in if total = 0 then 0 else (100 * max 0 (done - activeCount)) sdiv total)"

definition gen_setPriorityOnly :: "net_interface list \<Rightarrow> bool \<Rightarrow> ip_generator \<Rightarrow> ip_generator" where
  "gen_setPriorityOnly ifaces p g =
     (if gPriorityOnly g = p then g
      else let g' = g\<lparr> gPriorityOnly := p \<rparr> in if p then gen_reset ifaces g' else g')"

definition gen_setPriorityAddresses :: "host_address list \<Rightarrow> ip_generator \<Rightarrow> ip_generator" where
  "gen_setPriorityAddresses addresses g =
     (let atEnd = gPriorityIndex g > 0 \<and> gPriorityIndex g \<ge> length (gPriorityAddresses g)
      in g\<lparr> gPriorityAddresses := addresses,
            gPriorityIndex := (if atEnd then length addresses else 0) \<rparr>)"

definition gen_setNetMaskLimit :: "host_address \<Rightarrow> ip_generator \<Rightarrow> ip_generator" where
  "gen_setNetMaskLimit limit g = g\<lparr> gNetMaskLimit := limit \<rparr>"

subsection \<open>The addresses a subnet still yields\<close>

text \<open>All addresses from \<open>a\<close> to \<open>b\<close>.\<close>

definition addr_range :: "u32 \<Rightarrow> u32 \<Rightarrow> u32 list" where
  "addr_range a b = map of_nat [unat a ..< Suc (unat b)]"

definition wanted :: "host_address list \<Rightarrow> u32 \<Rightarrow> u32 \<Rightarrow> bool" where
  "wanted exc localHost a \<longleftrightarrow> a \<noteq> localHost \<and> IPv4 a \<notin> set exc"

definition subnet_rest :: "host_address list \<Rightarrow> subnet \<Rightarrow> u32 list" where
  "subnet_rest exc s = filter (wanted exc (sLocalHost s)) (addr_range (sCurrent s) (sLast s))"

lemma set_addr_range: "set (addr_range a b) = {x. a \<le> x \<and> x \<le> b}"
proof -
  have "x \<in> set (addr_range a b) \<longleftrightarrow> a \<le> x \<and> x \<le> b" for x
  proof
    assume "x \<in> set (addr_range a b)"
    then obtain n where n: "x = of_nat n" "unat a \<le> n" "n \<le> unat b"
      by (auto simp: addr_range_def)
    have "unat b < 2 ^ 32"
      using unsigned_less [of b] by simp
    with n(3) have "n < 2 ^ 32" by simp
    then have "unat x = n"
      using n(1) by (simp add: unsigned_of_nat take_bit_eq_mod)
    with n(2,3) show "a \<le> x \<and> x \<le> b"
      by (simp add: word_le_nat_alt)
  next
    assume "a \<le> x \<and> x \<le> b"
    then have "unat a \<le> unat x" "unat x \<le> unat b"
      by (simp_all add: word_le_nat_alt)
    then have "of_nat (unat x) \<in> set (addr_range a b)"
      unfolding addr_range_def set_map by (intro imageI) auto
    then show "x \<in> set (addr_range a b)" by simp
  qed
  then show ?thesis by blast
qed

lemma distinct_addr_range: "distinct (addr_range a b)"
proof -
  have small: "n < 2 ^ 32" if "n \<in> set [unat a ..< Suc (unat b)]" for n
  proof -
    have "unat b < 2 ^ 32" using unsigned_less [of b] by simp
    with that show ?thesis by auto
  qed
  have "inj_on (of_nat :: nat \<Rightarrow> u32) (set [unat a ..< Suc (unat b)])"
  proof (rule inj_onI)
    fix m n
    assume m: "m \<in> set [unat a ..< Suc (unat b)]" and n: "n \<in> set [unat a ..< Suc (unat b)]"
      and eq: "(of_nat m :: u32) = of_nat n"
    have "unat (of_nat k :: u32) = k" if "k \<in> set [unat a ..< Suc (unat b)]" for k
      using small [OF that] by (simp add: unsigned_of_nat take_bit_eq_mod)
    with m n eq show "m = n" by metis
  qed
  then show ?thesis
    by (simp add: addr_range_def distinct_map)
qed

lemma addr_range_Nil: "\<not> a \<le> b \<Longrightarrow> addr_range a b = []"
  using set_addr_range [of a b] by (metis (mono_tags, lifting) Collect_empty_eq order_trans set_empty)

lemma unat_Suc: "(a :: u32) \<noteq> - 1 \<Longrightarrow> unat (a + 1) = Suc (unat a)"
  using unatSuc [of a] by (simp add: add.commute eq_neg_iff_add_eq_0)

lemma le_neq_max: "(a :: u32) \<le> b \<Longrightarrow> b \<noteq> - 1 \<Longrightarrow> a \<noteq> - 1"
  using word_order.extremum_unique by blast

lemma addr_range_Cons:
  assumes "a \<le> b" "b \<noteq> - 1"
  shows "addr_range a b = a # addr_range (a + 1) b"
proof -
  have "unat a \<le> unat b"
    using assms(1) by (simp add: word_le_nat_alt)
  then have "[unat a ..< Suc (unat b)] = unat a # [Suc (unat a) ..< Suc (unat b)]"
    by (simp add: upt_conv_Cons del: upt_Suc)
  then show ?thesis
    using unat_Suc [OF le_neq_max [OF assms]] by (simp add: addr_range_def del: upt_Suc)
qed

text \<open>The loop of \<^verbatim>\<open>next\<close> ends, and it drops only addresses that are not wanted.\<close>

lemma skip_loop:
  assumes "lst \<noteq> - 1"
  shows "\<exists>r. while_option (subnet_skips exc lh lst) (\<lambda>c. c + 1) c = Some r \<and>
    \<not> subnet_skips exc lh lst r \<and>
    filter (wanted exc lh) (addr_range c lst) = filter (wanted exc lh) (addr_range r lst)"
proof (induction "Suc (unat lst) - unat c" arbitrary: c rule: less_induct)
  case less
  show ?case
  proof (cases "subnet_skips exc lh lst c")
    case True
    then have c: "c \<le> lst" "\<not> wanted exc lh c"
      by (auto simp: subnet_skips_def wanted_def)
    then have "unat (c + 1) = Suc (unat c)" "unat c \<le> unat lst"
      using unat_Suc [OF le_neq_max [OF c(1) assms]] by (simp_all add: word_le_nat_alt)
    then have "Suc (unat lst) - unat (c + 1) < Suc (unat lst) - unat c"
      by simp
    from less [OF this] show ?thesis
      using True c addr_range_Cons [OF c(1) assms] by (subst while_option_unfold) simp
  next
    case False
    then show ?thesis by (subst while_option_unfold) simp
  qed
qed

lemma skip_while:
  assumes "lst \<noteq> - 1"
  shows "\<not> subnet_skips exc lh lst (while (subnet_skips exc lh lst) (\<lambda>c. c + 1) c)"
    and "filter (wanted exc lh) (addr_range (while (subnet_skips exc lh lst) (\<lambda>c. c + 1) c) lst) =
      filter (wanted exc lh) (addr_range c lst)"
  using skip_loop [OF assms, of exc lh c] by (auto simp: while_def)

definition subnet_ok :: "host_address list \<Rightarrow> subnet \<Rightarrow> bool" where
  "subnet_ok exc s \<longleftrightarrow> sLast s \<noteq> - 1 \<and> \<not> subnet_skips exc (sLocalHost s) (sLast s) (sCurrent s)"

lemma subnet_rest_Cons:
  assumes "subnet_ok exc s" "subnet_hasNext s"
  shows "subnet_rest exc s =
    sCurrent s # filter (wanted exc (sLocalHost s)) (addr_range (sCurrent s + 1) (sLast s))"
  using assms addr_range_Cons [of "sCurrent s" "sLast s"]
  by (auto simp: subnet_ok_def subnet_hasNext_def subnet_rest_def subnet_skips_def wanted_def)

lemma subnet_hasNext_rest:
  assumes "subnet_ok exc s"
  shows "subnet_hasNext s \<longleftrightarrow> subnet_rest exc s \<noteq> []"
  using subnet_rest_Cons [OF assms]
  by (cases "subnet_hasNext s") (simp_all add: subnet_hasNext_def subnet_rest_def addr_range_Nil)

lemma subnet_next_rest:
  assumes "subnet_ok exc s" "subnet_hasNext s"
  shows "fst (subnet_next exc s) = IPv4 (hd (subnet_rest exc s))"
    and "subnet_rest exc (snd (subnet_next exc s)) = tl (subnet_rest exc s)"
    and "subnet_ok exc (snd (subnet_next exc s))"
  using assms subnet_rest_Cons [OF assms] skip_while [of "sLast s" exc "sLocalHost s"]
  by (simp_all add: subnet_next_def subnet_ok_def) (simp add: subnet_rest_def)

lemma new_subnet_rest:
  assumes "lst \<noteq> - 1"
  shows "subnet_ok exc (new_subnet exc first lst lh)"
    and "subnet_rest exc (new_subnet exc first lst lh) = filter (wanted exc lh) (addr_range (first + 1) lst)"
  using skip_while [OF assms, of exc lh] assms
  by (simp_all add: new_subnet_def subnet_next_def subnet_ok_def subnet_rest_def)

subsection \<open>The interface of the generator\<close>

fun take_next :: "('g \<Rightarrow> 'a \<times> 'g) \<Rightarrow> nat \<Rightarrow> 'g \<Rightarrow> 'a list \<times> 'g" where
  "take_next nxt 0 g = ([], g)"
| "take_next nxt (Suc n) g = (let (a, g) = nxt g; (as, g) = take_next nxt n g in (a # as, g))"

locale address_iterator =
  fixes hasNext :: "'g \<Rightarrow> bool"
    and nxt :: "'g \<Rightarrow> 'a \<times> 'g"
    and remaining :: "'g \<Rightarrow> 'a list"
    and ok :: "'g \<Rightarrow> bool"
  assumes hasNext_iff: "ok g \<Longrightarrow> hasNext g \<longleftrightarrow> remaining g \<noteq> []"
    and nxt_hd: "ok g \<Longrightarrow> hasNext g \<Longrightarrow> fst (nxt g) = hd (remaining g)"
    and nxt_tl: "ok g \<Longrightarrow> hasNext g \<Longrightarrow> remaining (snd (nxt g)) = tl (remaining g)"
    and nxt_ok: "ok g \<Longrightarrow> hasNext g \<Longrightarrow> ok (snd (nxt g))"
begin

lemma take_next_remaining:
  "ok g \<Longrightarrow> n \<le> length (remaining g) \<Longrightarrow>
    fst (take_next nxt n g) = take n (remaining g) \<and>
    remaining (snd (take_next nxt n g)) = drop n (remaining g) \<and> ok (snd (take_next nxt n g))"
proof (induction n arbitrary: g)
  case (Suc n)
  then have "remaining g \<noteq> []" by auto
  with Suc.prems have h: "hasNext g" by (simp add: hasNext_iff)
  then show ?case
    using Suc nxt_hd [OF Suc.prems(1) h] nxt_tl [OF Suc.prems(1) h] nxt_ok [OF Suc.prems(1) h]
    by (cases "remaining g") (auto simp: case_prod_beta Let_def)
qed simp

lemma drained:
  "ok g \<Longrightarrow> \<not> hasNext (snd (take_next nxt (length (remaining g)) g))"
  using take_next_remaining [of g "length (remaining g)"] hasNext_iff by simp

end

definition gen_remaining :: "ip_generator \<Rightarrow> host_address list" where
  "gen_remaining g = drop (gPriorityIndex g) (gPriorityAddresses g) @
     concat (map (\<lambda>s. map IPv4 (subnet_rest (gen_exceptions g) s)) (drop (gSubnetIndex g) (gSubnets g)))"

definition gen_ok :: "ip_generator \<Rightarrow> bool" where
  "gen_ok g \<longleftrightarrow> list_all (subnet_ok (gen_exceptions g)) (gSubnets g)"

lemma gen_hasNext_remaining:
  assumes "gen_ok g"
  shows "gen_hasNext g \<longleftrightarrow> gen_remaining g \<noteq> []"
proof -
  have "list_ex subnet_hasNext (drop i (gSubnets g)) \<longleftrightarrow>
      concat (map (\<lambda>s. map IPv4 (subnet_rest (gen_exceptions g) s)) (drop i (gSubnets g))) \<noteq> []" for i
    using assms subnet_hasNext_rest [of "gen_exceptions g"] in_set_dropD [of _ i "gSubnets g"]
    by (auto simp: gen_ok_def list_all_iff list_ex_iff)
  then show ?thesis
    by (auto simp: gen_hasNext_def gen_remaining_def)
qed

lemma gen_next_subnet_remaining:
  assumes "gen_ok g" "list_ex subnet_hasNext (drop (gSubnetIndex g) (gSubnets g))"
    "gPriorityIndex g \<ge> length (gPriorityAddresses g)"
  shows "gen_ok (snd (gen_next_subnet g)) \<and>
    gen_remaining g = fst (gen_next_subnet g) # gen_remaining (snd (gen_next_subnet g))"
  using assms
proof (induction g rule: gen_next_subnet.induct)
  case (1 g)
  let ?i = "gSubnetIndex g"
  let ?exc = "gen_exceptions g"
  have i: "?i < length (gSubnets g)"
    using "1.prems"(2) by (cases "?i < length (gSubnets g)") simp_all
  then have drop: "drop ?i (gSubnets g) = gSubnets g ! ?i # drop (Suc ?i) (gSubnets g)"
    by (rule Cons_nth_drop_Suc [symmetric])
  let ?s = "gSubnets g ! ?i"
  have ok: "subnet_ok ?exc ?s"
    using "1.prems"(1) i by (simp add: gen_ok_def list_all_length)
  show ?case
  proof (cases "subnet_hasNext ?s")
    case True
    let ?g = "g\<lparr> gSubnets := (gSubnets g)[?i := snd (subnet_next ?exc ?s)] \<rparr>"
    have n: "gen_next_subnet g = (fst (subnet_next ?exc ?s), ?g)"
      using i True by (subst gen_next_subnet.simps) (simp add: Let_def case_prod_beta)
    have e: "gen_exceptions ?g = ?exc" by (simp add: gen_exceptions_def)
    have "gen_ok ?g"
      using "1.prems"(1) subnet_next_rest(3) [OF ok True]
      unfolding gen_ok_def e list_all_iff by (auto dest: set_update_subset_insert [THEN subsetD])
    moreover have "gen_remaining g = fst (subnet_next ?exc ?s) # gen_remaining ?g"
      using "1.prems"(3) subnet_next_rest(1,2) [OF ok True] subnet_rest_Cons [OF ok True] i
      unfolding gen_remaining_def e
      by (simp add: drop drop_update_swap)
    ultimately show ?thesis by (simp add: n)
  next
    case False
    let ?g = "g\<lparr> gSubnetIndex := ?i + 1 \<rparr>"
    have n: "gen_next_subnet g = gen_next_subnet ?g"
      using i False by (subst gen_next_subnet.simps) (simp add: Let_def)
    have "gen_remaining g = gen_remaining ?g"
      using False subnet_hasNext_rest [OF ok] "1.prems"(3)
      by (simp add: gen_remaining_def drop gen_exceptions_def)
    moreover have "gen_ok ?g"
      using "1.prems"(1) by (simp add: gen_ok_def gen_exceptions_def)
    moreover have "list_ex subnet_hasNext (drop (gSubnetIndex ?g) (gSubnets ?g))"
      using "1.prems"(2) False by (simp add: drop)
    ultimately show ?thesis
      using "1.IH" [OF i refl False] "1.prems"(3) n by simp
  qed
qed

interpretation gen: address_iterator gen_hasNext gen_next gen_remaining gen_ok
proof -
  have "fst (gen_next g) = hd (gen_remaining g) \<and>
      gen_remaining (snd (gen_next g)) = tl (gen_remaining g) \<and> gen_ok (snd (gen_next g))"
    if ok: "gen_ok g" and h: "gen_hasNext g" for g
  proof (cases "gPriorityIndex g < length (gPriorityAddresses g)")
    case True
    then have "drop (gPriorityIndex g) (gPriorityAddresses g) =
        gPriorityAddresses g ! gPriorityIndex g # drop (Suc (gPriorityIndex g)) (gPriorityAddresses g)"
      by (rule Cons_nth_drop_Suc [symmetric])
    then show ?thesis
      using True ok by (simp add: gen_next_def gen_remaining_def gen_ok_def gen_exceptions_def)
  next
    case False
    then show ?thesis
      using h gen_next_subnet_remaining [OF ok] by (simp add: gen_next_def gen_hasNext_def)
  qed
  then show "address_iterator gen_hasNext gen_next gen_remaining gen_ok"
    by unfold_locales (simp_all add: gen_hasNext_remaining)
qed

subsection \<open>After a reset\<close>

text \<open>The addresses of an interface entry, from its own address and its netmask.\<close>

definition entry_mask :: "ip_generator \<Rightarrow> host_address \<times> host_address \<Rightarrow> u32" where
  "entry_mask g entry = toIPv4Address (snd entry) OR toIPv4Address (gNetMaskLimit g)"

definition entry_addresses :: "ip_generator \<Rightarrow> host_address \<times> host_address \<Rightarrow> u32 list" where
  "entry_addresses g entry = subnet_rest (gen_exceptions g) (entry_subnet g entry)"

lemma and_eq_le: "(a :: u32) AND m \<le> a"
  by (rule word_and_le2)

lemma entry_last:
  assumes "a \<noteq> (0 :: u32)"
  shows "((a AND m) OR NOT m) - 1 \<noteq> - 1"
proof
  assume "((a AND m) OR NOT m) - 1 = - 1"
  then have z: "(a AND m) OR NOT m = 0" by simp
  have "a = 0"
  proof (rule bit_word_eqI)
    fix n
    assume n: "n < LENGTH(32)"
    have "\<not> bit ((a AND m) OR NOT m) n" by (simp only: z bit_0_eq) simp
    then show "bit a n = bit 0 n"
      using n by (auto simp: bit_simps)
  qed
  with assms show False ..
qed

lemma entry_subnet_ok:
  assumes "usable_address (fst entry)"
  shows "subnet_ok (gen_exceptions g) (entry_subnet g entry)"
proof -
  obtain a where a: "fst entry = IPv4 a" "a \<noteq> 0"
    using assms by (cases "fst entry") (auto simp: usable_address_def)
  have "(0xA9FE00B4 :: u32) \<noteq> - 1" by simp
  then show ?thesis
    unfolding entry_subnet_def Let_def a toIPv4Address.simps
    by (simp only: new_subnet_rest(1) entry_last [OF a(2)] not_False_eq_True split: if_split) simp
qed

lemma gen_reset_ok: "gen_ok (gen_reset ifaces g)"
proof -
  let ?g = "g\<lparr> gPriorityIndex := 0, gSubnetIndex := 0, gSubnets := [] \<rparr>"
  have "list_all (subnet_ok (gen_exceptions ?g)) (map (entry_subnet ?g) (scanned_entries ifaces))"
    using entry_subnet_ok [of _ ?g] by (auto simp: list_all_iff scanned_entries_def)
  then show ?thesis
    by (auto simp: gen_reset_def gen_ok_def Let_def gen_exceptions_def)
qed

lemma gen_reset_remaining:
  "gen_remaining (gen_reset ifaces g) = gPriorityAddresses g @
    (if gPriorityOnly g then [] else concat (map (\<lambda>e. map IPv4 (entry_addresses g e)) (scanned_entries ifaces)))"
proof -
  let ?g = "g\<lparr> gPriorityIndex := 0, gSubnetIndex := 0, gSubnets := [] \<rparr>"
  have "gen_exceptions ?g = gen_exceptions g" by (simp add: gen_exceptions_def)
  moreover have "gNetMaskLimit ?g = gNetMaskLimit g" by simp
  ultimately have "entry_subnet ?g e = entry_subnet g e" for e
    unfolding entry_subnet_def by (simp only:)
  then have "entry_subnet ?g = entry_subnet g" ..
  then show ?thesis
    by (simp add: gen_reset_def gen_remaining_def Let_def gen_exceptions_def entry_addresses_def [abs_def]
        comp_def)
qed

text \<open>For a contiguous mask the range between the network address and the broadcast address.\<close>

lemma unat_drop_bit: "unat (drop_bit k (a :: u32)) = unat a div 2 ^ k"
proof -
  have "unat (drop_bit k a) = drop_bit k (unat a)"
    by (rule bit_eqI) (auto simp: bit_simps dest: bit_imp_le_length)
  then show ?thesis by (simp only: drop_bit_eq_div)
qed

lemma network_range:
  assumes "k < 32"
  defines "m \<equiv> NOT (Bit_Operations.mask k) :: u32"
  shows "{x. lh AND m \<le> x \<and> x \<le> (lh AND m) OR NOT m} = {x. x AND m = lh AND m}"
proof -
  let ?f = "lh AND m"
  have and_m: "x AND m = push_bit k (drop_bit k x)" for x :: u32
    by (rule bit_word_eqI) (auto simp: m_def bit_simps)
  have "?f AND NOT m = 0"
    by (rule bit_word_eqI) (auto simp: bit_simps)
  have le: "x AND m = ?f \<Longrightarrow> ?f \<le> x \<and> x \<le> ?f OR NOT m" for x
  proof
    assume x: "x AND m = ?f"
    then show "?f \<le> x" using and_eq_le [of x m] by simp
    have "x OR (?f OR NOT m) = ?f OR NOT m"
      unfolding x [symmetric] by (rule bit_word_eqI) (auto simp: bit_simps)
    then show "x \<le> ?f OR NOT m"
      using le_word_or2 [of x "?f OR NOT m"] by simp
  qed
  have ge: "x AND m = ?f" if "?f \<le> x" "x \<le> ?f OR NOT m" for x
  proof -
    have "drop_bit k (?f OR NOT m) = drop_bit k ?f"
      by (rule bit_word_eqI) (auto simp: m_def bit_simps)
    then have "unat (?f OR NOT m) div 2 ^ k = unat ?f div 2 ^ k"
      by (simp only: unat_drop_bit [symmetric])
    moreover have "unat ?f div 2 ^ k \<le> unat x div 2 ^ k" "unat x div 2 ^ k \<le> unat (?f OR NOT m) div 2 ^ k"
      using that by (simp_all add: word_le_nat_alt div_le_mono)
    ultimately have "unat (drop_bit k x) = unat (drop_bit k ?f)"
      by (simp only: unat_drop_bit)
    then have "drop_bit k x = drop_bit k ?f"
      by (simp only: word_unat_eq_iff)
    then have "x AND m = ?f AND m" by (simp only: and_m)
    also have "\<dots> = ?f" by simp
    finally show ?thesis .
  qed
  from le ge show ?thesis by blast
qed

lemma and_contiguous: "x AND NOT (Bit_Operations.mask k) = push_bit k (drop_bit k (x :: u32))"
  by (rule bit_word_eqI) (auto simp: bit_simps)

lemma network_card:
  assumes "0 < k" "k < 32"
  defines "m \<equiv> NOT (Bit_Operations.mask k) :: u32"
  shows "card ({x. x AND m = lh AND m} - {lh AND m, (lh AND m) OR NOT m}) \<le> 2 ^ k - 2"
proof -
  let ?A = "{x. x AND m = lh AND m}"
  let ?q = "unat lh div 2 ^ k"
  have "?A \<subseteq> of_nat ` {?q * 2 ^ k ..< ?q * 2 ^ k + 2 ^ k}"
  proof
    fix x assume "x \<in> ?A"
    then have "push_bit k (drop_bit k x) = push_bit k (drop_bit k lh)"
      by (simp only: m_def and_contiguous mem_Collect_eq)
    then have "drop_bit k (push_bit k (drop_bit k x)) = drop_bit k (push_bit k (drop_bit k lh))"
      by (rule arg_cong)
    moreover have "drop_bit k (push_bit k (drop_bit k y)) = drop_bit k y" for y :: u32
      by (rule bit_word_eqI) (auto simp: bit_simps dest: bit_imp_le_length)
    ultimately have "unat x div 2 ^ k = ?q"
      by (metis unat_drop_bit)
    then have "unat x = ?q * 2 ^ k + unat x mod 2 ^ k"
      using div_mult_mod_eq [of "unat x" "2 ^ k"] by simp
    moreover have "unat x mod 2 ^ k < 2 ^ k" by simp
    ultimately have "unat x \<in> {?q * 2 ^ k ..< ?q * 2 ^ k + 2 ^ k}"
      by (metis add_less_cancel_left atLeastLessThan_iff le_add1)
    then have "(of_nat (unat x) :: u32) \<in> of_nat ` {?q * 2 ^ k ..< ?q * 2 ^ k + 2 ^ k}"
      by (rule imageI)
    then show "x \<in> of_nat ` {?q * 2 ^ k ..< ?q * 2 ^ k + 2 ^ k}" by simp
  qed
  then have "card ?A \<le> card ((of_nat :: nat \<Rightarrow> u32) ` {?q * 2 ^ k ..< ?q * 2 ^ k + 2 ^ k})"
    by (intro card_mono) auto
  also have "\<dots> \<le> card {?q * 2 ^ k ..< ?q * 2 ^ k + 2 ^ k}"
    by (rule card_image_le) simp
  finally have A: "card ?A \<le> 2 ^ k" by simp
  have "bit ((lh AND m) OR NOT m) 0" "\<not> bit (lh AND m) 0"
    using assms(1) by (auto simp: m_def bit_simps)
  then have ne: "lh AND m \<noteq> (lh AND m) OR NOT m" by metis
  have mem: "lh AND m \<in> ?A" "(lh AND m) OR NOT m \<in> ?A"
    by (auto intro!: bit_word_eqI simp: bit_simps)
  have "card (?A - {lh AND m, (lh AND m) OR NOT m}) = card ?A - card {lh AND m, (lh AND m) OR NOT m}"
    using mem by (intro card_Diff_subset) auto
  then show ?thesis
    using A ne by simp
qed

lemma entry_addresses_lemma:
  assumes "usable_address (IPv4 a)" "a AND 0xFFFF0000 \<noteq> 0xA9FE0000"
    and "entry_mask g (IPv4 a, netmask) = NOT (Bit_Operations.mask k)" "0 < k" "k < 32"
  shows "set (entry_addresses g (IPv4 a, netmask)) =
      {x. x AND NOT (Bit_Operations.mask k) = a AND NOT (Bit_Operations.mask k)} -
      {a AND NOT (Bit_Operations.mask k), (a AND NOT (Bit_Operations.mask k)) OR Bit_Operations.mask k, a} -
      {x. IPv4 x \<in> set (gPriorityAddresses g)}"
    and "distinct (entry_addresses g (IPv4 a, netmask))"
    and "length (entry_addresses g (IPv4 a, netmask)) \<le> 2 ^ k - 2"
proof -
  let ?m = "NOT (Bit_Operations.mask k) :: u32"
  let ?f = "a AND ?m"
  let ?b = "?f OR NOT ?m"
  let ?xs = "entry_addresses g (IPv4 a, netmask)"
  have a: "a \<noteq> 0" using assms(1) by (auto simp: usable_address_def)
  have m: "toIPv4Address netmask OR toIPv4Address (gNetMaskLimit g) = ?m"
    using assms(3) by (simp only: entry_mask_def snd_conv)
  have "entry_subnet g (IPv4 a, netmask) = new_subnet (gen_exceptions g) ?f (?b - 1) a"
    unfolding entry_subnet_def Let_def fst_conv snd_conv toIPv4Address.simps m
    by (simp only: assms(2) if_False)
  then have xs: "?xs = filter (wanted (gen_exceptions g) a) (addr_range (?f + 1) (?b - 1))"
    unfolding entry_addresses_def
    by (simp only: new_subnet_rest(2) [OF entry_last [OF a]])
  have "bit ?b 0" "\<not> bit ?f 0" using assms(4) by (auto simp: bit_simps)
  then have fb: "?f < ?b" using le_word_or2 [of ?f "NOT ?m"] by (metis order_less_le)
  have up: "?f + 1 \<le> x \<longleftrightarrow> ?f \<le> x \<and> x \<noteq> ?f" and down: "x \<le> ?b - 1 \<longleftrightarrow> x \<le> ?b \<and> x \<noteq> ?b" for x
  proof -
    have f: "unat (?f + 1) = Suc (unat ?f)"
      using fb le_neq_max [of ?f "?b - 1"] by (intro unat_Suc) (metis not_less_iff_gr_or_eq word_not_simps(3))
    show "?f + 1 \<le> x \<longleftrightarrow> ?f \<le> x \<and> x \<noteq> ?f"
      unfolding word_le_nat_alt f word_unat_eq_iff [of x] by auto
    have "unat (?b - 1) = unat ?b - 1"
      using fb by (intro unat_minus_one) auto
    moreover have "unat ?b > 0" using fb by (simp add: word_less_nat_alt)
    ultimately show "x \<le> ?b - 1 \<longleftrightarrow> x \<le> ?b \<and> x \<noteq> ?b"
      unfolding word_le_nat_alt word_unat_eq_iff [of x] by auto
  qed
  have "set (addr_range (?f + 1) (?b - 1)) = {x. ?f \<le> x \<and> x \<le> ?b} - {?f, ?b}"
    unfolding set_addr_range up down by blast
  then have range: "set (addr_range (?f + 1) (?b - 1)) = {x. x AND ?m = ?f} - {?f, ?b}"
    by (simp only: network_range [OF assms(5)])
  show "set ?xs = {x. x AND ?m = ?f} - {?f, ?f OR Bit_Operations.mask k, a} -
      {x. IPv4 x \<in> set (gPriorityAddresses g)}"
    unfolding xs set_filter range by (auto simp: wanted_def gen_exceptions_def)
  show dist: "distinct ?xs"
    unfolding xs by (intro distinct_filter distinct_addr_range)
  have "length ?xs = card (set ?xs)" using dist by (simp add: distinct_card)
  also have "\<dots> \<le> card ({x. x AND ?m = ?f} - {?f, ?b})"
    unfolding xs set_filter range by (intro card_mono) auto
  also have "\<dots> \<le> 2 ^ k - 2" by (rule network_card [OF assms(4,5)])
  finally show "length ?xs \<le> 2 ^ k - 2" .
qed

subsection \<open>Properties\<close>


text \<open>
  For an interface with a contiguous netmask (after the limit), the subnet yields exactly the
  host addresses of the local network: not the network and broadcast addresses, not the machine's
  own address, not the priority addresses, no address twice, and at most \<open>2 ^ k - 2\<close> of them.
\<close>

theorem entry_addresses_are_the_network:
  assumes "usable_address (IPv4 a)" "a AND 0xFFFF0000 \<noteq> 0xA9FE0000"
    and "entry_mask g (IPv4 a, netmask) = NOT (Bit_Operations.mask k)" "0 < k" "k < 32"
  shows "set (entry_addresses g (IPv4 a, netmask)) =
      {x. x AND NOT (Bit_Operations.mask k) = a AND NOT (Bit_Operations.mask k)} -
      {a AND NOT (Bit_Operations.mask k), (a AND NOT (Bit_Operations.mask k)) OR Bit_Operations.mask k, a} -
      {x. IPv4 x \<in> set (gPriorityAddresses g)} \<and>
    distinct (entry_addresses g (IPv4 a, netmask)) \<and>
    length (entry_addresses g (IPv4 a, netmask)) \<le> 2 ^ k - 2"
  using entry_addresses_lemma [OF assms] by blast

theorem entry_addresses_are_the_network_witness:
  "let g = (gen_new [])\<lparr> gNetMaskLimit := IPv4 0xFFFFF000 \<rparr>
   in set (entry_addresses g (IPv4 0xC0A80117, IPv4 0xFFFFFF00)) =
        {x. x AND NOT (Bit_Operations.mask 8) = 0xC0A80117 AND NOT (Bit_Operations.mask 8)} -
        {0xC0A80117 AND NOT (Bit_Operations.mask 8),
         (0xC0A80117 AND NOT (Bit_Operations.mask 8)) OR Bit_Operations.mask 8, 0xC0A80117} -
        {x. IPv4 x \<in> set (gPriorityAddresses g)} \<and>
      distinct (entry_addresses g (IPv4 0xC0A80117, IPv4 0xFFFFFF00)) \<and>
      length (entry_addresses g (IPv4 0xC0A80117, IPv4 0xFFFFFF00)) \<le> 2 ^ 8 - 2"
  unfolding Let_def
  by (rule entry_addresses_are_the_network)
    (simp_all add: usable_address_def entry_mask_def mask_eq_exp_minus_1)

end
