(* ===== verification/Dbl.thy ===== *)
theory Dbl
  imports Prelude "HOL-Library.Log_Nat"
begin

text \<open>
  C++ \<^verbatim>\<open>double\<close>: IEEE binary64 with a rational number for every finite value, correctly rounded
  (to nearest, ties to even) operations, infinities and NaN.  The sign of zero is not kept.
  \<^verbatim>\<open>float\<close> occurs only as a 32-bit pattern that is converted.
\<close>

datatype dbl = NaN | Inf bool | Fin rat

text \<open>\<open>Inf True\<close> is negative infinity.\<close>

subsection \<open>Rounding\<close>

definition pow2 :: "int \<Rightarrow> rat" where
  "pow2 e = (if 0 \<le> e then 2 ^ nat e else 1 / 2 ^ nat (- e))"

text \<open>The exponent \<open>e\<close> with \<open>pow2 e \<le> q < pow2 (e + 1)\<close>.\<close>

definition exponent2 :: "rat \<Rightarrow> int" where
  "exponent2 q =
     (let (a, b) = quotient_of q; e = bitlen a - bitlen b in if pow2 e \<le> q then e else e - 1)"

definition round_half_even :: "rat \<Rightarrow> int" where
  "round_half_even q =
     (let f = \<lfloor>q\<rfloor>; d = q - of_int f
      in if d < 1 / 2 then f else if d > 1 / 2 then f + 1 else if even f then f else f + 1)"

definition ulp_exponent :: "rat \<Rightarrow> int" where
  "ulp_exponent q = max (exponent2 \<bar>q\<bar> - 52) (- 1074)"

definition rnd :: "rat \<Rightarrow> dbl" where
  "rnd q =
     (if q = 0 then Fin 0
      else let u = pow2 (ulp_exponent q); r = of_int (round_half_even (q / u)) * u
           in if pow2 1024 \<le> \<bar>r\<bar> then Inf (q < 0) else Fin r)"

subsection \<open>Operations\<close>

instantiation dbl :: "{zero, one, plus, uminus, minus, times, divide, ord}"
begin

definition zero_dbl :: dbl where "zero_dbl = Fin 0"

definition one_dbl :: dbl where "one_dbl = Fin 1"

fun uminus_dbl :: "dbl \<Rightarrow> dbl" where
  "uminus_dbl NaN = NaN"
| "uminus_dbl (Inf s) = Inf (\<not> s)"
| "uminus_dbl (Fin x) = Fin (- x)"

fun plus_dbl :: "dbl \<Rightarrow> dbl \<Rightarrow> dbl" where
  "plus_dbl NaN y = NaN"
| "plus_dbl x NaN = NaN"
| "plus_dbl (Inf s) (Inf t) = (if s = t then Inf s else NaN)"
| "plus_dbl (Inf s) (Fin y) = Inf s"
| "plus_dbl (Fin x) (Inf t) = Inf t"
| "plus_dbl (Fin x) (Fin y) = rnd (x + y)"

definition minus_dbl :: "dbl \<Rightarrow> dbl \<Rightarrow> dbl" where
  "minus_dbl x y = x + (- y)"

fun times_dbl :: "dbl \<Rightarrow> dbl \<Rightarrow> dbl" where
  "times_dbl NaN y = NaN"
| "times_dbl x NaN = NaN"
| "times_dbl (Inf s) (Inf t) = Inf (s \<noteq> t)"
| "times_dbl (Inf s) (Fin y) = (if y = 0 then NaN else Inf (s \<noteq> (y < 0)))"
| "times_dbl (Fin x) (Inf t) = (if x = 0 then NaN else Inf (t \<noteq> (x < 0)))"
| "times_dbl (Fin x) (Fin y) = rnd (x * y)"

fun divide_dbl :: "dbl \<Rightarrow> dbl \<Rightarrow> dbl" where
  "divide_dbl NaN y = NaN"
| "divide_dbl x NaN = NaN"
| "divide_dbl (Inf s) (Inf t) = NaN"
| "divide_dbl (Inf s) (Fin y) = Inf (s \<noteq> (y < 0))"
| "divide_dbl (Fin x) (Inf t) = Fin 0"
| "divide_dbl (Fin x) (Fin y) =
     (if y = 0 then (if x = 0 then NaN else Inf (x < 0)) else rnd (x / y))"

fun less_eq_dbl :: "dbl \<Rightarrow> dbl \<Rightarrow> bool" where
  "less_eq_dbl NaN y = False"
| "less_eq_dbl x NaN = False"
| "less_eq_dbl (Inf s) (Inf t) = (s \<or> \<not> t)"
| "less_eq_dbl (Inf s) (Fin y) = s"
| "less_eq_dbl (Fin x) (Inf t) = (\<not> t)"
| "less_eq_dbl (Fin x) (Fin y) = (x \<le> y)"

fun less_dbl :: "dbl \<Rightarrow> dbl \<Rightarrow> bool" where
  "less_dbl NaN y = False"
| "less_dbl x NaN = False"
| "less_dbl (Inf s) (Inf t) = (s \<and> \<not> t)"
| "less_dbl (Inf s) (Fin y) = s"
| "less_dbl (Fin x) (Inf t) = (\<not> t)"
| "less_dbl (Fin x) (Fin y) = (x < y)"

instance ..

end

text \<open>\<^verbatim>\<open>==\<close>, which is false for NaN.\<close>

definition deq :: "dbl \<Rightarrow> dbl \<Rightarrow> bool" where
  "deq x y \<longleftrightarrow> x \<noteq> NaN \<and> x = y"

fun qIsFinite :: "dbl \<Rightarrow> bool" where
  "qIsFinite (Fin x) = True"
| "qIsFinite _ = False"

fun isnormal :: "dbl \<Rightarrow> bool" where
  "isnormal (Fin x) = (pow2 (- 1022) \<le> \<bar>x\<bar>)"
| "isnormal _ = False"

definition qMin :: "dbl \<Rightarrow> dbl \<Rightarrow> dbl" where "qMin a b = (if a < b then a else b)"
definition qMax :: "dbl \<Rightarrow> dbl \<Rightarrow> dbl" where "qMax a b = (if a < b then b else a)"

definition qBound :: "dbl \<Rightarrow> dbl \<Rightarrow> dbl \<Rightarrow> dbl" where
  "qBound lo v hi = qMax lo (qMin hi v)"

text \<open>Conversions: from an integer, and to one by truncation (a value that is not finite has no
  conversion in C++, here it gives 0).\<close>

definition of_integer :: "int \<Rightarrow> dbl" where "of_integer i = rnd (of_int i)"

fun to_integer :: "dbl \<Rightarrow> int" where
  "to_integer (Fin x) = (if x < 0 then - \<lfloor>- x\<rfloor> else \<lfloor>x\<rfloor>)"
| "to_integer _ = 0"

text \<open>\<^verbatim>\<open>qRound(double)\<close> of Qt.\<close>

definition qRound :: "dbl \<Rightarrow> int" where
  "qRound d =
     (if Fin 0 \<le> d then to_integer (d + Fin (1 / 2))
      else let i = to_integer (d - Fin 1)
           in to_integer (d - of_integer i + Fin (1 / 2)) + i)"

text \<open>\<^verbatim>\<open>pow(10.0, n)\<close>, taken as correctly rounded.\<close>

definition pow10 :: "int \<Rightarrow> dbl" where
  "pow10 n = rnd (if 0 \<le> n then 10 ^ nat n else 1 / 10 ^ nat (- n))"

text \<open>The \<^verbatim>\<open>float\<close> of a bit pattern, as a double.\<close>

definition float_of_bits :: "u32 \<Rightarrow> dbl" where
  "float_of_bits v =
     (let n = unat v; neg = n div 2 ^ 31 = 1; e = n div 2 ^ 23 mod 256; m = n mod 2 ^ 23;
          sign = (if neg then - 1 else 1)
      in if e = 255 then (if m = 0 then Inf neg else NaN)
         else if e = 0 then Fin (sign * of_nat m * pow2 (- 149))
         else Fin (sign * of_nat (2 ^ 23 + m) * pow2 (int e - 150)))"

subsection \<open>Powers of two\<close>

lemma pow2_pos [simp]: "0 < pow2 e"
  by (simp add: pow2_def)

lemma pow2_not_0 [simp]: "pow2 e \<noteq> 0"
  using pow2_pos [of e] by linarith

lemma pow2_Suc: "pow2 (x + 1) = 2 * pow2 x"
proof (cases "0 \<le> x")
  case True
  then have "nat (x + 1) = Suc (nat x)" by simp
  then show ?thesis using True by (simp add: pow2_def)
next
  case False
  then have "nat (- x) = Suc (nat (- (x + 1)))" by simp
  then show ?thesis using False by (simp add: pow2_def)
qed

lemma pow2_add_nat: "pow2 (a + int n) = pow2 a * 2 ^ n"
proof (induction n)
  case (Suc n)
  then show ?case using pow2_Suc [of "a + int n"] by (simp add: algebra_simps)
qed simp

lemma pow2_nat: "pow2 (int n) = 2 ^ n" "pow2 (- int n) = 1 / 2 ^ n"
  by (simp_all add: pow2_def)

lemma pow2_add: "pow2 (a + b) = pow2 a * pow2 b"
proof (cases "0 \<le> b")
  case True
  then show ?thesis using pow2_add_nat [of a "nat b"] pow2_nat(1) [of "nat b"] by simp
next
  case False
  then show ?thesis
    using pow2_add_nat [of "a + b" "nat (- b)"] pow2_nat(2) [of "nat (- b)"] by simp
qed

lemma pow2_mono: "a \<le> b \<Longrightarrow> pow2 a \<le> pow2 b"
proof -
  assume "a \<le> b"
  then obtain n where b: "b = a + int n"
    by (metis zle_iff_zadd)
  have "pow2 a * 1 \<le> pow2 a * 2 ^ n"
    by (intro mult_left_mono) (simp_all add: less_imp_le)
  then show ?thesis by (simp add: b pow2_add) (simp add: pow2_def)
qed

lemma pow2_less: "pow2 a < pow2 b \<Longrightarrow> a < b"
  using pow2_mono [of b a] by (cases "a < b") auto

lemma pow2_numeral [simp]: "pow2 0 = 1" "pow2 1 = 2"
  by (simp_all add: pow2_def)

lemma exponent2_bounds:
  assumes "0 < q"
  shows "pow2 (exponent2 q) \<le> q" "q < pow2 (exponent2 q + 1)"
proof -
  obtain a b where ab: "quotient_of q = (a, b)" by fastforce
  then have q: "q = of_int a / of_int b" "0 < b"
    by (auto simp: quotient_of_div quotient_of_denom_pos)
  then have a: "0 < a" using assms by (simp add: zero_less_divide_iff)
  let ?e = "bitlen a - bitlen b"
  have bound: "pow2 (bitlen x - 1) \<le> of_int x" "of_int x < pow2 (bitlen x)" if "0 < x" for x :: int
  proof -
    have "bitlen x > 0" using bitlen_bounds [OF that] that by (cases "bitlen x = 0") (auto simp: bitlen_nonneg order.order_iff_strict)
    moreover have "2 ^ nat (bitlen x - 1) \<le> x \<and> x < 2 ^ nat (bitlen x)"
      using bitlen_bounds [OF that] by simp
    then have "(of_int (2 ^ nat (bitlen x - 1)) :: rat) \<le> of_int x"
        "of_int x < (of_int (2 ^ nat (bitlen x)) :: rat)"
      by (simp_all only: of_int_le_iff of_int_less_iff)
    ultimately show "pow2 (bitlen x - 1) \<le> of_int x" "of_int x < pow2 (bitlen x)"
      by (simp_all add: pow2_def)
  qed
  have up: "q < pow2 (?e + 1)"
  proof -
    have "of_int a < pow2 (bitlen a)" by (rule bound(2) [OF a])
    also have "\<dots> = pow2 (?e + 1) * pow2 (bitlen b - 1)" by (simp add: pow2_add [symmetric])
    also have "\<dots> \<le> pow2 (?e + 1) * of_int b"
      using bound(1) [OF q(2)] by (intro mult_left_mono) (simp_all add: less_imp_le)
    finally show ?thesis using q by (simp add: divide_less_eq)
  qed
  have low: "pow2 (?e - 1) \<le> q"
  proof -
    have "pow2 (?e - 1) * of_int b \<le> pow2 (?e - 1) * pow2 (bitlen b)"
      using bound(2) [OF q(2)] by (intro mult_left_mono) (simp_all add: less_imp_le)
    also have "\<dots> = pow2 (bitlen a - 1)" by (simp add: pow2_add [symmetric])
    also have "\<dots> \<le> of_int a" by (rule bound(1) [OF a])
    finally show ?thesis using q by (simp add: le_divide_eq)
  qed
  show "pow2 (exponent2 q) \<le> q" "q < pow2 (exponent2 q + 1)"
    using up low by (auto simp: exponent2_def ab Let_def)
qed

lemma exponent2_unique:
  assumes "0 < q" "pow2 e \<le> q" "q < pow2 (e + 1)"
  shows "exponent2 q = e"
  using exponent2_bounds [OF assms(1)] assms pow2_less [of e "exponent2 q + 1"]
    pow2_less [of "exponent2 q" "e + 1"] by linarith

lemma exponent2_mono:
  assumes "0 < x" "x \<le> y"
  shows "exponent2 x \<le> exponent2 y"
  using exponent2_bounds [of x] exponent2_bounds [of y] assms
    pow2_less [of "exponent2 x" "exponent2 y + 1"] by linarith

subsection \<open>Rounding is exact on integers and monotone\<close>

lemma round_half_even_int [simp]: "round_half_even (of_int i) = i"
  by (simp add: round_half_even_def)

lemma round_half_even_mono:
  assumes "x \<le> y"
  shows "round_half_even x \<le> round_half_even y"
proof (cases "\<lfloor>x\<rfloor> = \<lfloor>y\<rfloor>")
  case True
  then show ?thesis using assms by (auto simp: round_half_even_def Let_def)
next
  case False
  then have f: "\<lfloor>x\<rfloor> + 1 \<le> \<lfloor>y\<rfloor>"
    using floor_mono [OF assms] by simp
  have "round_half_even x \<le> \<lfloor>x\<rfloor> + 1" "\<lfloor>y\<rfloor> \<le> round_half_even y"
    by (simp_all add: round_half_even_def Let_def)
  with f show ?thesis by simp
qed

text \<open>The value before the overflow test.\<close>

definition round_value :: "rat \<Rightarrow> rat" where
  "round_value q = of_int (round_half_even (q / pow2 (ulp_exponent q))) * pow2 (ulp_exponent q)"

lemma rnd_round_value:
  "rnd q = (if q = 0 then Fin 0
    else if pow2 1024 \<le> \<bar>round_value q\<bar> then Inf (q < 0) else Fin (round_value q))"
  by (simp add: rnd_def round_value_def Let_def)

lemma round_value_exact:
  assumes "q = of_int m * pow2 (ulp_exponent q)"
  shows "round_value q = q"
proof -
  have "q / pow2 (ulp_exponent q) = of_int m"
    using assms by (metis nonzero_mult_div_cancel_right pow2_not_0)
  then show ?thesis using assms by (simp add: round_value_def)
qed

lemma pow2_int_ex: "0 \<le> e \<Longrightarrow> \<exists>m. pow2 e = of_int m"
  by (rule exI [of _ "2 ^ nat e"]) (simp add: pow2_def)

lemma round_value_dyadic:
  assumes "\<bar>n\<bar> < 2 ^ 53" "- 1074 \<le> k"
  shows "round_value (of_int n * pow2 k) = of_int n * pow2 k"
proof (cases "n = 0")
  case True
  then show ?thesis by (simp add: round_value_def round_half_even_def)
next
  case False
  let ?q = "of_int n * pow2 k :: rat"
  have abs: "\<bar>?q\<bar> = of_int \<bar>n\<bar> * pow2 k"
    by (simp add: abs_mult less_imp_le)
  then have pos: "0 < \<bar>?q\<bar>" using False by simp
  have "pow2 (exponent2 \<bar>?q\<bar>) \<le> \<bar>?q\<bar>" by (rule exponent2_bounds [OF pos])
  also have "\<dots> < pow2 53 * pow2 k"
  proof -
    have "of_int \<bar>n\<bar> < (of_int (2 ^ 53) :: rat)" using assms(1) by (simp only: of_int_less_iff)
    then have "of_int \<bar>n\<bar> < pow2 53" by (simp add: pow2_def)
    then show ?thesis unfolding abs by (intro mult_strict_right_mono) simp_all
  qed
  also have "\<dots> = pow2 (53 + k)" by (simp add: pow2_add)
  finally have "exponent2 \<bar>?q\<bar> < 53 + k" by (rule pow2_less)
  then have le: "ulp_exponent ?q \<le> k" using assms(2) by (simp add: ulp_exponent_def)
  then obtain m where m: "pow2 (k - ulp_exponent ?q) = of_int m"
    using pow2_int_ex [of "k - ulp_exponent ?q"] by auto
  have "pow2 k = of_int m * pow2 (ulp_exponent ?q)"
    by (metis m diff_add_cancel pow2_add)
  then have "?q = of_int (n * m) * pow2 (ulp_exponent ?q)" by simp
  then show ?thesis by (rule round_value_exact)
qed

lemma round_value_int: "\<bar>n\<bar> < 2 ^ 53 \<Longrightarrow> round_value (of_int n) = of_int n"
  using round_value_dyadic [of n 0] by simp

text \<open>Half integers.\<close>

lemma round_value_half: "\<bar>2 * n + 1\<bar> < 2 ^ 53 \<Longrightarrow> round_value (of_int n + 1 / 2) = of_int n + 1 / 2"
  using round_value_dyadic [of "2 * n + 1" "- 1"] by (simp add: pow2_def field_simps)

lemma rnd_int [simp]:
  assumes "\<bar>n\<bar> < 2 ^ 53"
  shows "rnd (of_int n) = Fin (of_int n)"
proof -
  have "\<bar>of_int n :: rat\<bar> < pow2 1024"
  proof -
    have "of_int \<bar>n\<bar> < (of_int (2 ^ 53) :: rat)" using assms by (simp only: of_int_less_iff)
    also have "\<dots> = pow2 53" by (simp add: pow2_def)
    also have "\<dots> \<le> pow2 1024" by (rule pow2_mono) simp
    finally show ?thesis by simp
  qed
  then show ?thesis
    using round_value_int [OF assms] by (simp add: rnd_round_value)
qed

lemma rnd_numeral: "rnd (numeral k) = Fin (numeral k)" if "(numeral k :: int) < 2 ^ 53"
  using rnd_int [of "numeral k"] that by simp

lemma of_integer_small: "\<bar>n\<bar> < 2 ^ 53 \<Longrightarrow> of_integer n = Fin (of_int n)"
  by (simp add: of_integer_def)

lemma ulp_exponent_mono: "0 < x \<Longrightarrow> x \<le> y \<Longrightarrow> ulp_exponent x \<le> ulp_exponent y"
  using exponent2_mono [of x y] by (simp add: ulp_exponent_def)

lemma round_value_nonneg: "0 \<le> q \<Longrightarrow> 0 \<le> round_value q"
proof -
  assume "0 \<le> q"
  then have "0 \<le> q / pow2 (ulp_exponent q)" by (simp add: less_imp_le)
  then have "round_half_even 0 \<le> round_half_even (q / pow2 (ulp_exponent q))"
    by (rule round_half_even_mono)
  then show ?thesis
    using round_half_even_int [of 0] by (simp add: round_value_def less_imp_le)
qed

text \<open>Rounding does not leave the binade of its argument (closed above).\<close>

lemma pow2_grid:
  assumes "0 < q" "ulp_exponent q \<le> e"
  shows "q \<le> pow2 e \<Longrightarrow> round_value q \<le> pow2 e" "pow2 e \<le> q \<Longrightarrow> pow2 e \<le> round_value q"
proof -
  let ?u = "pow2 (ulp_exponent q)"
  obtain m where m: "pow2 (e - ulp_exponent q) = of_int m"
    using pow2_int_ex [of "e - ulp_exponent q"] assms(2) by auto
  then have e: "pow2 e = of_int m * ?u"
    by (metis diff_add_cancel pow2_add)
  then have m': "pow2 e / ?u = of_int m" by simp
  show "round_value q \<le> pow2 e" if "q \<le> pow2 e"
  proof -
    have "q / ?u \<le> of_int m"
      using divide_right_mono [OF that, of ?u] m' by (simp add: less_imp_le)
    then have "round_half_even (q / ?u) \<le> m"
      using round_half_even_mono [of "q / ?u" "of_int m"] by simp
    then show ?thesis
      using pow2_pos [of "ulp_exponent q"] by (simp add: round_value_def e less_imp_le)
  qed
  show "pow2 e \<le> round_value q" if "pow2 e \<le> q"
  proof -
    have "of_int m \<le> q / ?u"
      using divide_right_mono [OF that, of ?u] m' by (simp add: less_imp_le)
    then have "m \<le> round_half_even (q / ?u)"
      using round_half_even_mono [of "of_int m" "q / ?u"] by simp
    then show ?thesis
      using pow2_pos [of "ulp_exponent q"] by (simp add: round_value_def e less_imp_le)
  qed
qed

lemma round_value_mono_pos:
  assumes "0 < x" "x \<le> y"
  shows "round_value x \<le> round_value y"
proof (cases "ulp_exponent x = ulp_exponent y")
  case True
  have "x / pow2 (ulp_exponent x) \<le> y / pow2 (ulp_exponent x)"
    using assms by (simp add: divide_right_mono less_imp_le)
  then show ?thesis
    using round_half_even_mono True by (simp add: round_value_def mult_right_mono less_imp_le)
next
  case False
  with ulp_exponent_mono [OF assms] have lt: "ulp_exponent x < ulp_exponent y" by simp
  let ?e = "exponent2 y"
  have y: "0 < y" using assms by simp
  have ye: "ulp_exponent y = ?e - 52"
    using lt y by (auto simp: ulp_exponent_def max_def split: if_splits)
  have "exponent2 x < ?e"
    using lt assms y ye by (simp add: ulp_exponent_def max_def split: if_splits)
  then have "x \<le> pow2 ?e"
    using exponent2_bounds(2) [OF assms(1)] pow2_mono [of "exponent2 x + 1" ?e] by linarith
  then have "round_value x \<le> pow2 ?e"
    using lt ye by (intro pow2_grid(1) [OF assms(1)]) simp_all
  also have "\<dots> \<le> round_value y"
    using ye exponent2_bounds(1) [OF y] by (intro pow2_grid(2) [OF y]) simp_all
  finally show ?thesis .
qed

lemma round_value_mono:
  assumes "0 \<le> x" "x \<le> y"
  shows "round_value x \<le> round_value y"
proof (cases "x = 0")
  case True
  then have "round_value x = 0" by (simp add: round_value_def round_half_even_def)
  then show ?thesis using round_value_nonneg [of y] True assms by simp
next
  case False
  then show ?thesis using assms by (intro round_value_mono_pos) simp_all
qed

lemma rnd_le_int:
  assumes "0 \<le> q" "q \<le> of_int n" "n < 2 ^ 53"
  shows "\<exists>r. rnd q = Fin r \<and> 0 \<le> r \<and> r \<le> of_int n"
proof -
  have n: "0 \<le> n"
    using assms(1,2) by (metis of_int_0_le_iff order_trans)
  have r: "round_value q \<le> of_int n"
    using round_value_mono [OF assms(1,2)] round_value_int [of n] n assms(3) by simp
  have "(of_int n :: rat) < pow2 1024"
  proof -
    have "(of_int n :: rat) < of_int (2 ^ 53)" using assms(3) by (simp only: of_int_less_iff)
    also have "\<dots> = pow2 53" by (simp add: pow2_def)
    also have "\<dots> \<le> pow2 1024" by (rule pow2_mono) simp
    finally show ?thesis .
  qed
  then show ?thesis
    using r n round_value_nonneg [OF assms(1)] by (auto simp: rnd_round_value)
qed

lemma rnd_small:
  assumes "0 \<le> q" "q \<le> of_int n" "n < 2 ^ 53"
  shows "rnd q = Fin (round_value q)"
proof -
  have "round_value 0 = 0" by (simp add: round_value_def round_half_even_def)
  then show ?thesis using rnd_le_int [OF assms] by (auto simp: rnd_round_value split: if_splits)
qed

text \<open>\<^verbatim>\<open>qRound\<close> of a non-negative number that is at most an integer.\<close>

lemma qRound_le:
  assumes "0 \<le> x" "x \<le> of_int n" "n < 2 ^ 51"
  shows "0 \<le> qRound (Fin x)" "qRound (Fin x) \<le> n"
proof -
  have n: "0 \<le> n" using assms(1,2) by (metis of_int_0_le_iff order_trans)
  have r: "rnd (x + 1 / 2) = Fin (round_value (x + 1 / 2))"
    using assms by (intro rnd_small [of _ "n + 1"]) simp_all
  have nn: "0 \<le> round_value (x + 1 / 2)" using assms(1) by (intro round_value_nonneg) simp
  have "round_value (x + 1 / 2) \<le> round_value (of_int n + 1 / 2)"
    using assms(1,2) by (intro round_value_mono) simp_all
  also have "\<dots> = of_int n + 1 / 2"
    using assms(3) n by (intro round_value_half) simp
  finally have "\<lfloor>round_value (x + 1 / 2)\<rfloor> \<le> n"
    by linarith
  moreover have "qRound (Fin x) = \<lfloor>round_value (x + 1 / 2)\<rfloor>"
    using assms(1) r nn by (simp add: qRound_def)
  ultimately show "qRound (Fin x) \<le> n" "0 \<le> qRound (Fin x)"
    using nn by simp_all
qed

lemma qRound_int:
  assumes "0 \<le> n" "n < 2 ^ 51"
  shows "qRound (Fin (of_int n)) = n"
proof -
  have "rnd (of_int n + 1 / 2) = Fin (of_int n + 1 / 2)"
    using assms round_value_half [of n] by (subst rnd_small [of _ "n + 1"]) simp_all
  moreover have "\<lfloor>1 / 2 :: rat\<rfloor> = 0" by (rule floor_unique) simp_all
  ultimately show ?thesis
    using assms by (simp add: qRound_def)
qed

lemma qRound_neg_int:
  assumes "n < 0" "- (2 ^ 51) < n"
  shows "qRound (Fin (of_int n)) = n"
proof -
  have "Fin (of_int n) - Fin 1 = Fin (of_int (n - 1))"
    using rnd_int [of "n - 1"] assms by (simp add: minus_dbl_def)
  moreover have "to_integer (Fin (of_int (n - 1))) = n - 1"
  proof -
    have "\<lfloor>- of_int (n - 1) :: rat\<rfloor> = - (n - 1)" by (metis floor_of_int of_int_minus)
    then show ?thesis using assms(1) by simp
  qed
  moreover have "of_integer (n - 1) = Fin (of_int (n - 1))"
    using assms by (intro of_integer_small) simp
  moreover have "Fin (of_int n) - Fin (of_int (n - 1)) = Fin 1"
    using rnd_int [of 1] by (simp add: minus_dbl_def)
  moreover have "rnd (1 + 1 / 2) = Fin (1 + 1 / 2)"
    using round_value_half [of 1] by (subst rnd_small [of _ 2]) simp_all
  moreover have "\<lfloor>3 / 2 :: rat\<rfloor> = 1" by (rule floor_unique) simp_all
  ultimately show ?thesis using assms(1) by (simp add: qRound_def Let_def)
qed

lemma times_int:
  assumes "\<bar>a * b\<bar> < 2 ^ 53"
  shows "Fin (of_int a) * Fin (of_int b) = Fin (of_int (a * b))"
  using rnd_int [OF assms] by simp

lemma pow10_exact:
  assumes "n \<le> 15"
  shows "pow10 (int n) = Fin (10 ^ n)"
proof -
  have "(10 :: int) ^ n \<le> 10 ^ 15" using assms by (intro power_increasing) simp_all
  then have "\<bar>10 ^ n :: int\<bar> < 2 ^ 53" by simp
  from rnd_int [OF this] show ?thesis by (simp add: pow10_def)
qed

end
