(* ===== verification/Defines.thy ===== *)
theory Defines
  imports Dbl
begin

text \<open>The types that the components share (\<^verbatim>\<open>defines.h\<close>).\<close>

text \<open>
  \<^verbatim>\<open>InverterPhase\<close> and \<^verbatim>\<open>InverterPosition\<close> are read from settings with \<^verbatim>\<open>static_cast\<close>, so they
  can hold any integer.
\<close>

type_synonym inverter_phase = int

definition MultiPhase :: inverter_phase where "MultiPhase = 0"
definition PhaseL1 :: inverter_phase where "PhaseL1 = 1"
definition PhaseL2 :: inverter_phase where "PhaseL2 = 2"
definition PhaseL3 :: inverter_phase where "PhaseL3 = 3"

lemmas phases = MultiPhase_def PhaseL1_def PhaseL2_def PhaseL3_def

type_synonym inverter_position = int

definition Input1 :: inverter_position where "Input1 = 0"
definition Output :: inverter_position where "Output = 1"
definition Input2 :: inverter_position where "Input2 = 2"

lemmas positions = Input1_def Output_def Input2_def

datatype protocol_type =
    ProtocolFroniusSolarApi | ProtocolSunSpecFloat | ProtocolSunSpecIntSf | ProtocolSMA

record device_info =
  hostName :: string
  uniqueId :: string
  productName :: string
  dataManagerVersion :: string
  firmwareVersion :: string
  serialNumber :: string
  networkId :: int
  devicePort :: int
  deviceType :: int
  phaseCount :: int
  productId :: int
  retrievalMode :: protocol_type
  inverterModelOffset :: u16
  namePlateModelOffset :: u16
  immediateControlOffset :: u16
  powerLimitScale :: dbl
  maxPower :: dbl
  storageCapacity :: dbl

definition new_device_info :: device_info where
  "new_device_info =
     \<lparr> hostName = [], uniqueId = [], productName = [], dataManagerVersion = [], firmwareVersion = [],
       serialNumber = [], networkId = 0, devicePort = 0, deviceType = 0, phaseCount = 0,
       productId = 0, retrievalMode = ProtocolFroniusSolarApi, inverterModelOffset = 0,
       namePlateModelOffset = 0, immediateControlOffset = 0, powerLimitScale = Fin 0,
       maxPower = Fin 0, storageCapacity = Fin 0 \<rparr>"

definition MaxDeviceInstance :: int where "MaxDeviceInstance = 79"

definition InvalidDeviceInstance :: int where "InvalidDeviceInstance = -1"

end
