(* ===== verification/Gateway.thy ===== *)
theory Gateway
  imports Settings Ip_Generator Defines
begin

text \<open>
  Device detection over the network (\<^verbatim>\<open>inverter_gateway.cpp\<close>, \<^verbatim>\<open>fronius_udp_detector.cpp\<close>): the
  gateway runs scans over the addresses of the generator, at most 64 hosts at a time; a host scan
  tries the detectors one after another.  A detector reply is an event source: it finds devices and
  finishes.  The machine (network interfaces, text form of addresses, how a setting is stored) is
  the environment \<open>gw_env\<close>.  The gateway has at least one detector when it scans, as
  \<^verbatim>\<open>DBusFronius\<close> sets it up; then \<^verbatim>\<open>HostScan::scan\<close> does not finish inside \<^verbatim>\<open>scanHost\<close>.
\<close>

record gw_env =
  envParse :: "string \<Rightarrow> host_address"
  envPrint :: "host_address \<Rightarrow> string"
  envStore :: store
  envInterfaces :: "net_interface list"

datatype scan_type = ScanNone | ScanFull | ScanPriority | ScanTryPriority

record host_scan =
  hsDetectors :: "nat list"
  hsHost :: string

datatype gw_out =
    InverterFound device_info
  | AutoDetectChanged bool
  | ScanProgressChanged int
  | StartDetector nat string
  | UdpProbe

record gateway =
  gwSettings :: settings
  gwDevicesFound :: "host_address list"
  gwActive :: "(nat \<times> host_scan) list"
  gwNextHost :: nat
  gwGenerator :: ip_generator
  gwDetectors :: "nat list"
  gwTimer :: bool
  gwUdpFound :: "host_address list"
  gwUdpTimer :: bool
  gwAutoDetect :: bool
  gwTriedFull :: bool
  gwScanType :: scan_type
  gwOut :: "gw_out list"

definition MaxSimultaneousRequests :: nat where "MaxSimultaneousRequests = 64"

definition gw_emit :: "gw_out \<Rightarrow> gateway \<Rightarrow> gateway" where
  "gw_emit x g = g\<lparr> gwOut := gwOut g @ [x] \<rparr>"

definition gw_new :: "gw_env \<Rightarrow> settings \<Rightarrow> gateway" where
  "gw_new env st =
     \<lparr> gwSettings = st, gwDevicesFound = [], gwActive = [], gwNextHost = 0,
       gwGenerator = gen_setNetMaskLimit (IPv4 0xFFFFF000) (gen_new (envInterfaces env)),
       gwDetectors = [], gwTimer = False, gwUdpFound = [], gwUdpTimer = False,
       gwAutoDetect = False, gwTriedFull = False, gwScanType = ScanNone, gwOut = [] \<rparr>"

definition gw_addDetector :: "nat \<Rightarrow> gateway \<Rightarrow> gateway" where
  "gw_addDetector d g = g\<lparr> gwDetectors := gwDetectors g @ [d] \<rparr>"

definition gw_setAutoDetect :: "bool \<Rightarrow> gateway \<Rightarrow> gateway" where
  "gw_setAutoDetect b g =
     (if gwAutoDetect g = b then g else gw_emit (AutoDetectChanged b) (g\<lparr> gwAutoDetect := b \<rparr>))"

definition gw_scanProgress :: "gateway \<Rightarrow> int" where
  "gw_scanProgress g =
     (if gwAutoDetect g then gen_progress (int (length (gwActive g))) (gwGenerator g) else 100)"

subsection \<open>The UDP detector\<close>

definition udp_reset :: "gateway \<Rightarrow> gateway" where
  "udp_reset g = g\<lparr> gwUdpFound := [] \<rparr>"

definition udp_start :: "gateway \<Rightarrow> gateway" where
  "udp_start g = (gw_emit UdpProbe g)\<lparr> gwUdpTimer := True \<rparr>"

text \<open>The senders of the pending datagrams; the set keeps each once.\<close>

definition udp_responseReceived :: "host_address list \<Rightarrow> gateway \<Rightarrow> gateway" where
  "udp_responseReceived senders g = g\<lparr> gwUdpFound := foldl (\<lambda>s a. List.insert a s) (gwUdpFound g) senders \<rparr>"

subsection \<open>Host scans\<close>

text \<open>
  \<^verbatim>\<open>HostScan::scan\<close>: starts the next detector, or finishes.  The result is the host scan, the
  detector that is started, and whether \<^verbatim>\<open>finished\<close> is emitted.
\<close>

definition hs_scan :: "host_scan \<Rightarrow> host_scan \<times> nat option \<times> bool" where
  "hs_scan h =
     (case hsDetectors h of
        [] \<Rightarrow> (h, None, True)
      | d # ds \<Rightarrow> (h\<lparr> hsDetectors := ds \<rparr>, Some d, False))"

text \<open>\<^verbatim>\<open>HostScan::onDeviceFound\<close>\<close>

definition hs_onDeviceFound :: "host_scan \<Rightarrow> host_scan" where
  "hs_onDeviceFound h = h\<lparr> hsDetectors := [] \<rparr>"

definition gw_run_scan :: "nat \<Rightarrow> host_scan \<Rightarrow> gateway \<Rightarrow> bool \<times> gateway" where
  "gw_run_scan hid h g =
     (let (h', started, finished) = hs_scan h;
          g' = g\<lparr> gwActive := map (\<lambda>(i, x). (i, if i = hid then h' else x)) (gwActive g) \<rparr>
      in (finished, case started of None \<Rightarrow> g' | Some d \<Rightarrow> gw_emit (StartDetector d (hsHost h)) g'))"

definition gw_scanHost :: "string \<Rightarrow> gateway \<Rightarrow> gateway" where
  "gw_scanHost host g =
     (let hid = gwNextHost g; h = \<lparr> hsDetectors = gwDetectors g, hsHost = host \<rparr>
      in snd (gw_run_scan hid h (g\<lparr> gwNextHost := hid + 1, gwActive := gwActive g @ [(hid, h)] \<rparr>)))"

subsection \<open>Scans\<close>

text \<open>The loop of \<^verbatim>\<open>continueScan\<close>: every iteration fills one of the 64 slots.\<close>

function gw_fill :: "gw_env \<Rightarrow> gateway \<Rightarrow> gateway" where
  "gw_fill env g =
     (if length (gwActive g) < MaxSimultaneousRequests \<and> gen_hasNext (gwGenerator g) then
        (let (a, gen) = gen_next (gwGenerator g)
         in gw_fill env (gw_scanHost (envPrint env a) (g\<lparr> gwGenerator := gen \<rparr>)))
      else g)"
  by pat_completeness auto
termination
proof (relation "measure (\<lambda>(env, g). MaxSimultaneousRequests - length (gwActive g))")
  fix env and g :: gateway and a gen
  assume "length (gwActive g) < MaxSimultaneousRequests \<and> gen_hasNext (gwGenerator g)"
  then show "((env, gw_scanHost (envPrint env a) (g\<lparr> gwGenerator := gen \<rparr>)), (env, g))
      \<in> measure (\<lambda>(env, g). MaxSimultaneousRequests - length (gwActive g))"
    by (auto simp: gw_scanHost_def gw_run_scan_def gw_emit_def Let_def case_prod_beta split: option.split)
qed simp

declare gw_fill.simps [simp del]

text \<open>The addresses that \<^verbatim>\<open>continueScan\<close> scans first, and the generator that it prepares with them.\<close>

definition gw_addresses :: "gw_env \<Rightarrow> gateway \<Rightarrow> host_address list" where
  "gw_addresses env g =
     foldl (\<lambda>as a. if a \<in> set as then as else as @ [a]) (gwUdpFound g)
       (ipAddresses (envParse env) (gwSettings g) @ knownIpAddresses (envParse env) (gwSettings g))"

definition gw_prepare :: "gw_env \<Rightarrow> gateway \<Rightarrow> ip_generator" where
  "gw_prepare env g =
     gen_reset (envInterfaces env)
       (gen_setPriorityOnly (envInterfaces env) (gwScanType g \<noteq> ScanFull)
         (gen_setPriorityAddresses (gw_addresses env g) (gwGenerator g)))"

definition gw_continueScan :: "gw_env \<Rightarrow> gateway \<Rightarrow> gateway" where
  "gw_continueScan env g =
     (if gwScanType g = ScanPriority \<and> gw_addresses env g = [] then g
      else gw_fill env (g\<lparr> gwGenerator := gw_prepare env g \<rparr>))"

definition gw_scan :: "gw_env \<Rightarrow> scan_type \<Rightarrow> gateway \<Rightarrow> gateway" where
  "gw_scan env scanType g =
     (let g = g\<lparr> gwScanType := scanType, gwDevicesFound := [] \<rparr>;
          g = udp_reset (gw_setAutoDetect (scanType = ScanFull) g)
      in if scanType = ScanFull \<or> (scanType = ScanTryPriority \<and> stAutoScan (gwSettings g))
         then udp_start g else gw_continueScan env g)"

definition gw_startDetection :: "gw_env \<Rightarrow> gateway \<Rightarrow> gateway" where
  "gw_startDetection env g = gw_scan env ScanTryPriority (g\<lparr> gwTimer := True \<rparr>)"

definition gw_fullScan :: "gw_env \<Rightarrow> gateway \<Rightarrow> gateway" where
  "gw_fullScan env g = gw_scan env ScanFull g"

definition gw_onInverterFound :: "gw_env \<Rightarrow> device_info \<Rightarrow> gateway \<Rightarrow> gateway" where
  "gw_onInverterFound env info g =
     (let addr = envParse env (hostName info);
          g = g\<lparr> gwDevicesFound := List.insert addr (gwDevicesFound g) \<rparr>;
          known = knownIpAddresses (envParse env) (gwSettings g);
          g = (if addr \<notin> set (ipAddresses (envParse env) (gwSettings g)) \<and> addr \<notin> set known
               then g\<lparr> gwSettings := setKnownIpAddresses (envStore env) (envPrint env) (known @ [addr])
                        (gwSettings g) \<rparr>
               else g)
      in gw_emit (InverterFound info) g)"

definition gw_onDetectionDone :: "gw_env \<Rightarrow> nat \<Rightarrow> gateway \<Rightarrow> gateway" where
  "gw_onDetectionDone env hid g0 =
     (let g1 = g0\<lparr> gwActive := filter (\<lambda>(i, h). i \<noteq> hid) (gwActive g0) \<rparr>;
          g = gw_emit (ScanProgressChanged (gw_scanProgress g1)) g1
      in if gwScanType g \<noteq> ScanNone \<and> gen_hasNext (gwGenerator g) then
           (let (a, gen) = gen_next (gwGenerator g)
            in gw_scanHost (envPrint env a) (g\<lparr> gwGenerator := gen \<rparr>))
         else if gwActive g = [] then
           (let scanType = gwScanType g;
                g = g\<lparr> gwScanType := ScanNone \<rparr>;
                missing = filter (\<lambda>a. a \<notin> set (gwDevicesFound g))
                  (knownIpAddresses (envParse env) (gwSettings g))
            in if scanType = ScanTryPriority \<and> stAutoScan (gwSettings g) \<and> missing \<noteq> []
                 \<and> \<not> gwTriedFull g
               then gw_continueScan env
                 (gw_setAutoDetect True (g\<lparr> gwScanType := ScanFull, gwTriedFull := True \<rparr>))
               else (gw_setAutoDetect False g)\<lparr> gwTimer := True \<rparr>)
         else g)"

definition gw_onPortNumberChanged :: "gw_env \<Rightarrow> gateway \<Rightarrow> gateway" where
  "gw_onPortNumberChanged env g = gw_scan env ScanTryPriority g"

definition gw_onIpAddressesChanged :: "gw_env \<Rightarrow> gateway \<Rightarrow> gateway" where
  "gw_onIpAddressesChanged env g = gw_scan env ScanPriority g"

definition gw_onTimer :: "gw_env \<Rightarrow> gateway \<Rightarrow> gateway" where
  "gw_onTimer env g =
     (if gwScanType g \<noteq> ScanNone then g else gw_scan env ScanTryPriority g)"

subsection \<open>Signals of a detector reply\<close>

text \<open>\<^verbatim>\<open>deviceFound\<close> and \<^verbatim>\<open>finished\<close> of the running reply of a host scan.\<close>

definition gw_deviceFound :: "gw_env \<Rightarrow> nat \<Rightarrow> device_info \<Rightarrow> gateway \<Rightarrow> gateway" where
  "gw_deviceFound env hid info g =
     (case map_of (gwActive g) hid of
        None \<Rightarrow> g
      | Some h \<Rightarrow> gw_onInverterFound env info
          (g\<lparr> gwActive := map (\<lambda>(i, x). (i, if i = hid then hs_onDeviceFound h else x)) (gwActive g) \<rparr>))"

definition gw_replyFinished :: "gw_env \<Rightarrow> nat \<Rightarrow> gateway \<Rightarrow> gateway" where
  "gw_replyFinished env hid g =
     (case map_of (gwActive g) hid of
        None \<Rightarrow> g
      | Some h \<Rightarrow>
          (let (finished, g') = gw_run_scan hid h g
           in if finished then gw_onDetectionDone env hid g' else g'))"

definition gw_udpFinished :: "gw_env \<Rightarrow> gateway \<Rightarrow> gateway" where
  "gw_udpFinished env g = gw_continueScan env (g\<lparr> gwUdpTimer := False \<rparr>)"

datatype gw_event =
    GwStart
  | GwFullScan
  | GwPortNumberChanged
  | GwIpAddressesChanged string
  | GwAutoScanChanged bool
  | GwTimer
  | GwUdpResponse "host_address list"
  | GwUdpTimeout
  | GwDeviceFound nat device_info
  | GwReplyFinished nat

fun gw_step :: "gw_env \<Rightarrow> gateway \<Rightarrow> gw_event \<Rightarrow> gateway" where
  "gw_step env g GwStart = gw_startDetection env g"
| "gw_step env g GwFullScan = gw_fullScan env g"
| "gw_step env g GwPortNumberChanged = gw_onPortNumberChanged env g"
| "gw_step env g (GwIpAddressesChanged s) =
     gw_onIpAddressesChanged env (g\<lparr> gwSettings := (gwSettings g)\<lparr> stIpAddresses := s \<rparr> \<rparr>)"
| "gw_step env g (GwAutoScanChanged b) = g\<lparr> gwSettings := (gwSettings g)\<lparr> stAutoScan := b \<rparr> \<rparr>"
| "gw_step env g GwTimer = (if gwTimer g then gw_onTimer env g else g)"
| "gw_step env g (GwUdpResponse senders) = udp_responseReceived senders g"
| "gw_step env g GwUdpTimeout = (if gwUdpTimer g then gw_udpFinished env g else g)"
| "gw_step env g (GwDeviceFound hid info) = gw_deviceFound env hid info g"
| "gw_step env g (GwReplyFinished hid) = gw_replyFinished env hid g"

subsection \<open>What each operation touches\<close>

lemma gw_emit_simps [simp]:
  "gwSettings (gw_emit x g) = gwSettings g" "gwDevicesFound (gw_emit x g) = gwDevicesFound g"
  "gwActive (gw_emit x g) = gwActive g" "gwNextHost (gw_emit x g) = gwNextHost g"
  "gwGenerator (gw_emit x g) = gwGenerator g" "gwDetectors (gw_emit x g) = gwDetectors g"
  "gwTimer (gw_emit x g) = gwTimer g" "gwUdpFound (gw_emit x g) = gwUdpFound g"
  "gwUdpTimer (gw_emit x g) = gwUdpTimer g" "gwAutoDetect (gw_emit x g) = gwAutoDetect g"
  "gwTriedFull (gw_emit x g) = gwTriedFull g" "gwScanType (gw_emit x g) = gwScanType g"
  "gwOut (gw_emit x g) = gwOut g @ [x]"
  by (simp_all add: gw_emit_def)

lemma gw_setAutoDetect_simps [simp]:
  "gwSettings (gw_setAutoDetect b g) = gwSettings g"
  "gwDevicesFound (gw_setAutoDetect b g) = gwDevicesFound g"
  "gwActive (gw_setAutoDetect b g) = gwActive g" "gwNextHost (gw_setAutoDetect b g) = gwNextHost g"
  "gwGenerator (gw_setAutoDetect b g) = gwGenerator g"
  "gwDetectors (gw_setAutoDetect b g) = gwDetectors g"
  "gwUdpFound (gw_setAutoDetect b g) = gwUdpFound g" "gwAutoDetect (gw_setAutoDetect b g) = b"
  "gwTriedFull (gw_setAutoDetect b g) = gwTriedFull g"
  "gwScanType (gw_setAutoDetect b g) = gwScanType g"
  by (simp_all add: gw_setAutoDetect_def)

text \<open>A scan step of a host: one detector is started, or the host finishes.\<close>

lemma hs_scan_eq:
  "hs_scan h = (h\<lparr> hsDetectors := tl (hsDetectors h) \<rparr>,
     case hsDetectors h of [] \<Rightarrow> None | d # ds \<Rightarrow> Some d, hsDetectors h = [])"
  by (cases h; cases "hsDetectors h") (simp_all add: hs_scan_def)

lemma gw_run_scan_eq:
  "gw_run_scan hid h g = (hsDetectors h = [],
     let g' = g\<lparr> gwActive := map (\<lambda>(i, x). (i, if i = hid
                then h\<lparr> hsDetectors := tl (hsDetectors h) \<rparr> else x)) (gwActive g) \<rparr>
     in case hsDetectors h of [] \<Rightarrow> g' | d # ds \<Rightarrow> gw_emit (StartDetector d (hsHost h)) g')"
  unfolding gw_run_scan_def hs_scan_eq Let_def prod.case
  by (cases "hsDetectors h") simp_all

lemma gw_run_scan_simps [simp]:
  "fst (gw_run_scan hid h g) \<longleftrightarrow> hsDetectors h = []"
  "gwSettings (snd (gw_run_scan hid h g)) = gwSettings g"
  "gwDevicesFound (snd (gw_run_scan hid h g)) = gwDevicesFound g"
  "gwNextHost (snd (gw_run_scan hid h g)) = gwNextHost g"
  "gwGenerator (snd (gw_run_scan hid h g)) = gwGenerator g"
  "gwDetectors (snd (gw_run_scan hid h g)) = gwDetectors g"
  "gwUdpFound (snd (gw_run_scan hid h g)) = gwUdpFound g"
  "gwAutoDetect (snd (gw_run_scan hid h g)) = gwAutoDetect g"
  "gwTriedFull (snd (gw_run_scan hid h g)) = gwTriedFull g"
  "gwScanType (snd (gw_run_scan hid h g)) = gwScanType g"
  "gwActive (snd (gw_run_scan hid h g)) =
     map (\<lambda>(i, x). (i, if i = hid then h\<lparr> hsDetectors := tl (hsDetectors h) \<rparr> else x)) (gwActive g)"
  "gwOut (snd (gw_run_scan hid h g)) = gwOut g @
     (case hsDetectors h of [] \<Rightarrow> [] | d # ds \<Rightarrow> [StartDetector d (hsHost h)])"
  by (simp_all add: gw_run_scan_eq Let_def split: list.split)

text \<open>The next address of the generator is handed to a new host scan.\<close>

definition gw_next_host :: "gw_env \<Rightarrow> gateway \<Rightarrow> gateway" where
  "gw_next_host env g =
     gw_scanHost (envPrint env (fst (gen_next (gwGenerator g))))
       (g\<lparr> gwGenerator := snd (gen_next (gwGenerator g)) \<rparr>)"

definition gw_inv :: "gateway \<Rightarrow> bool" where
  "gw_inv g \<longleftrightarrow> length (gwActive g) \<le> MaxSimultaneousRequests \<and>
     distinct (map fst (gwActive g)) \<and> list_all (\<lambda>(i, h). i < gwNextHost g) (gwActive g) \<and>
     list_all (\<lambda>(i, h). set (hsDetectors h) \<subseteq> set (tl (gwDetectors g))) (gwActive g) \<and>
     (gwAutoDetect g \<longleftrightarrow> gwScanType g = ScanFull) \<and> gen_ok (gwGenerator g)"

lemma gw_next_host_active:
  assumes "list_all (\<lambda>(i, h). i < gwNextHost g) (gwActive g)"
  shows "gwActive (gw_next_host env g) = gwActive g @ [(gwNextHost g,
    \<lparr> hsDetectors = tl (gwDetectors g), hsHost = envPrint env (fst (gen_next (gwGenerator g))) \<rparr>)]"
proof -
  have "map (\<lambda>(i, x). (i, if i = gwNextHost g then h else x)) (gwActive g) = gwActive g" for h
    using assms by (intro map_idI) (auto simp: list_all_iff)
  then show ?thesis
    by (simp add: gw_next_host_def gw_scanHost_def Let_def)
qed

lemma gw_next_host_simps [simp]:
  "gwSettings (gw_next_host env g) = gwSettings g"
  "gwDevicesFound (gw_next_host env g) = gwDevicesFound g"
  "gwNextHost (gw_next_host env g) = Suc (gwNextHost g)"
  "gwGenerator (gw_next_host env g) = snd (gen_next (gwGenerator g))"
  "gwDetectors (gw_next_host env g) = gwDetectors g"
  "gwUdpFound (gw_next_host env g) = gwUdpFound g"
  "gwAutoDetect (gw_next_host env g) = gwAutoDetect g"
  "gwTriedFull (gw_next_host env g) = gwTriedFull g"
  "gwScanType (gw_next_host env g) = gwScanType g"
  "gwOut (gw_next_host env g) = gwOut g @ (case gwDetectors g of [] \<Rightarrow> []
     | d # ds \<Rightarrow> [StartDetector d (envPrint env (fst (gen_next (gwGenerator g))))])"
  "length (gwActive (gw_next_host env g)) = Suc (length (gwActive g))"
  by (simp_all add: gw_next_host_def gw_scanHost_def Let_def split: list.split)

lemma gw_fill_step:
  "gw_fill env g =
     (if length (gwActive g) < MaxSimultaneousRequests \<and> gen_hasNext (gwGenerator g)
      then gw_fill env (gw_next_host env g) else g)"
  by (subst gw_fill.simps) (simp add: gw_next_host_def case_prod_beta Let_def)

lemma gw_fill_stop:
  "\<not> (length (gwActive g) < MaxSimultaneousRequests \<and> gen_hasNext (gwGenerator g)) \<Longrightarrow> gw_fill env g = g"
  by (subst gw_fill_step) (simp only: if_False)

text \<open>The loop of \<^verbatim>\<open>continueScan\<close> keeps whatever each of its iterations keeps.\<close>

lemma gw_fill_induct:
  assumes "P g"
    and "\<And>g. P g \<Longrightarrow> length (gwActive g) < MaxSimultaneousRequests \<Longrightarrow> gen_hasNext (gwGenerator g) \<Longrightarrow>
      P (gw_next_host env g)"
  shows "P (gw_fill env g)"
  using assms(1)
proof (induction "MaxSimultaneousRequests - length (gwActive g)" arbitrary: g rule: less_induct)
  case less
  show ?case
  proof (cases "length (gwActive g) < MaxSimultaneousRequests \<and> gen_hasNext (gwGenerator g)")
    case True
    then have "P (gw_fill env (gw_next_host env g))"
      using less.prems by (intro less.hyps assms(2)) auto
    then show ?thesis using True by (subst gw_fill_step) simp
  qed (use less.prems in \<open>simp add: gw_fill_stop\<close>)
qed

text \<open>It ends with all slots taken or with no address left.\<close>

lemma gw_fill_end:
  "\<not> (length (gwActive (gw_fill env g)) < MaxSimultaneousRequests \<and>
      gen_hasNext (gwGenerator (gw_fill env g)))"
proof (induction "MaxSimultaneousRequests - length (gwActive g)" arbitrary: g rule: less_induct)
  case less
  show ?case
  proof (cases "length (gwActive g) < MaxSimultaneousRequests \<and> gen_hasNext (gwGenerator g)")
    case True
    then have "\<not> (length (gwActive (gw_fill env (gw_next_host env g))) < MaxSimultaneousRequests \<and>
      gen_hasNext (gwGenerator (gw_fill env (gw_next_host env g))))"
      by (intro less.hyps) auto
    moreover have "gw_fill env g = gw_fill env (gw_next_host env g)"
      using True by (subst gw_fill_step) simp
    ultimately show ?thesis by simp
  qed (simp only: gw_fill_stop not_False_eq_True)
qed

lemma gw_fill_frame [simp]:
  "gwSettings (gw_fill env g) = gwSettings g" "gwDevicesFound (gw_fill env g) = gwDevicesFound g"
  "gwDetectors (gw_fill env g) = gwDetectors g" "gwUdpFound (gw_fill env g) = gwUdpFound g"
  "gwAutoDetect (gw_fill env g) = gwAutoDetect g" "gwTriedFull (gw_fill env g) = gwTriedFull g"
  "gwScanType (gw_fill env g) = gwScanType g"
proof -
  have "gwSettings (gw_fill env g) = gwSettings g \<and> gwDevicesFound (gw_fill env g) = gwDevicesFound g \<and>
    gwDetectors (gw_fill env g) = gwDetectors g \<and> gwUdpFound (gw_fill env g) = gwUdpFound g \<and>
    gwAutoDetect (gw_fill env g) = gwAutoDetect g \<and> gwTriedFull (gw_fill env g) = gwTriedFull g \<and>
    gwScanType (gw_fill env g) = gwScanType g"
    by (rule gw_fill_induct) simp_all
  then show "gwSettings (gw_fill env g) = gwSettings g" "gwDevicesFound (gw_fill env g) = gwDevicesFound g"
    "gwDetectors (gw_fill env g) = gwDetectors g" "gwUdpFound (gw_fill env g) = gwUdpFound g"
    "gwAutoDetect (gw_fill env g) = gwAutoDetect g" "gwTriedFull (gw_fill env g) = gwTriedFull g"
    "gwScanType (gw_fill env g) = gwScanType g" by blast+
qed

subsection \<open>The invariant\<close>

lemma gw_inv_next_host:
  assumes "gw_inv g" "length (gwActive g) < MaxSimultaneousRequests" "gen_hasNext (gwGenerator g)"
  shows "gw_inv (gw_next_host env g)"
proof -
  have ids: "list_all (\<lambda>(i, h). i < gwNextHost g) (gwActive g)"
    using assms(1) by (simp add: gw_inv_def)
  show ?thesis
    using assms gen.nxt_ok [of "gwGenerator g"]
    by (auto simp: gw_inv_def gw_next_host_active [OF ids] list_all_iff)
qed

lemma gw_inv_fill: "gw_inv g \<Longrightarrow> gw_inv (gw_fill env g)"
  by (rule gw_fill_induct) (auto intro: gw_inv_next_host)

lemma gw_inv_frame:
  assumes "gw_inv g" "gwActive g' = gwActive g" "gwNextHost g' = gwNextHost g"
    "gwDetectors g' = gwDetectors g" "gwAutoDetect g' \<longleftrightarrow> gwScanType g' = ScanFull"
    "gen_ok (gwGenerator g')"
  shows "gw_inv g'"
  using assms by (simp add: gw_inv_def)

lemma gw_inv_continueScan: "gw_inv g \<Longrightarrow> gw_inv (gw_continueScan env g)"
proof -
  assume inv: "gw_inv g"
  then have "gw_inv (g\<lparr> gwGenerator := gw_prepare env g \<rparr>)"
    by (rule gw_inv_frame) (use inv in \<open>simp_all add: gw_inv_def gw_prepare_def gen_reset_ok\<close>)
  then show ?thesis
    using inv by (simp add: gw_continueScan_def gw_inv_fill)
qed

lemma gw_inv_scan: "gw_inv g \<Longrightarrow> gw_inv (gw_scan env t g)"
proof -
  assume inv: "gw_inv g"
  let ?g = "udp_reset (gw_setAutoDetect (t = ScanFull) (g\<lparr> gwScanType := t, gwDevicesFound := [] \<rparr>))"
  have "gw_inv ?g"
    by (rule gw_inv_frame [OF inv]) (use inv in \<open>simp_all add: gw_inv_def udp_reset_def\<close>)
  moreover from this have "gw_inv (udp_start ?g)"
    by (rule gw_inv_frame) (use inv in \<open>simp_all add: gw_inv_def udp_reset_def udp_start_def\<close>)
  ultimately show ?thesis
    unfolding gw_scan_def Let_def by (simp only: gw_inv_continueScan split: if_split) simp
qed

lemma gw_inv_detector_step:
  assumes "gw_inv g" "map_of (gwActive g) hid = Some h" "set (hsDetectors h') \<subseteq> set (hsDetectors h)"
    "gwActive g' = map (\<lambda>(i, x). (i, if i = hid then h' else x)) (gwActive g)"
    "gwNextHost g' = gwNextHost g" "gwDetectors g' = gwDetectors g"
    "gwAutoDetect g' \<longleftrightarrow> gwScanType g' = ScanFull" "gen_ok (gwGenerator g')"
  shows "gw_inv g'"
proof -
  have all: "list_all (\<lambda>(i, h). i < gwNextHost g) (gwActive g)"
    "list_all (\<lambda>(i, h). set (hsDetectors h) \<subseteq> set (tl (gwDetectors g))) (gwActive g)"
    using assms(1) by (simp_all add: gw_inv_def)
  have h': "set (hsDetectors h') \<subseteq> set (tl (gwDetectors g))"
    using all(2) assms(3) map_of_SomeD [OF assms(2)] unfolding list_all_iff by fastforce
  have "map fst (gwActive g') = map fst (gwActive g)"
    by (auto simp: assms(4))
  moreover have "list_all (\<lambda>(i, h). i < gwNextHost g') (gwActive g')"
    using all(1) by (auto simp: assms(4,5) list_all_iff)
  moreover have "list_all (\<lambda>(i, h). set (hsDetectors h) \<subseteq> set (tl (gwDetectors g'))) (gwActive g')"
    using all(2) h' unfolding assms(4,6) list_all_iff by (auto split: if_splits) blast+
  moreover have "length (gwActive g') = length (gwActive g)"
    by (simp add: assms(4))
  ultimately show ?thesis
    using assms(1,7,8) by (simp add: gw_inv_def)
qed

text \<open>Removing a finished host frees its slot.\<close>

definition gw_remove :: "nat \<Rightarrow> gateway \<Rightarrow> gateway" where
  "gw_remove hid g =
     (let g1 = g\<lparr> gwActive := filter (\<lambda>(i, h). i \<noteq> hid) (gwActive g) \<rparr>
      in gw_emit (ScanProgressChanged (gw_scanProgress g1)) g1)"

lemma gw_remove_simps [simp]:
  "gwSettings (gw_remove hid g) = gwSettings g" "gwDevicesFound (gw_remove hid g) = gwDevicesFound g"
  "gwActive (gw_remove hid g) = filter (\<lambda>(i, h). i \<noteq> hid) (gwActive g)"
  "gwNextHost (gw_remove hid g) = gwNextHost g" "gwGenerator (gw_remove hid g) = gwGenerator g"
  "gwDetectors (gw_remove hid g) = gwDetectors g" "gwAutoDetect (gw_remove hid g) = gwAutoDetect g"
  "gwTriedFull (gw_remove hid g) = gwTriedFull g" "gwScanType (gw_remove hid g) = gwScanType g"
  "gwOut (gw_remove hid g) = gwOut g @ [ScanProgressChanged (gw_scanProgress
     (g\<lparr> gwActive := filter (\<lambda>(i, h). i \<noteq> hid) (gwActive g) \<rparr>))]"
  by (simp_all add: gw_remove_def Let_def)

lemma gw_remove_fold:
  "gw_emit (ScanProgressChanged (gw_scanProgress (g\<lparr> gwActive := filter (\<lambda>(i, h). i \<noteq> hid) (gwActive g) \<rparr>)))
     (g\<lparr> gwActive := filter (\<lambda>(i, h). i \<noteq> hid) (gwActive g) \<rparr>) = gw_remove hid g"
  by (simp add: gw_remove_def Let_def)

lemma gw_remove_length:
  "hid \<in> fst ` set (gwActive g) \<Longrightarrow> length (gwActive (gw_remove hid g)) < length (gwActive g)"
  by (auto intro!: length_filter_less)

lemma gw_inv_remove: "gw_inv g \<Longrightarrow> gw_inv (gw_remove hid g)"
  using le_trans [OF length_filter_le]
  by (auto simp: gw_inv_def list_all_iff distinct_map_filter)

text \<open>The end of a scan.\<close>

definition gw_scan_done :: "gw_env \<Rightarrow> gateway \<Rightarrow> gateway" where
  "gw_scan_done env g =
     (if gwScanType g = ScanTryPriority \<and> stAutoScan (gwSettings g) \<and> \<not> gwTriedFull g \<and>
         filter (\<lambda>a. a \<notin> set (gwDevicesFound g)) (knownIpAddresses (envParse env) (gwSettings g)) \<noteq> []
      then gw_continueScan env (gw_setAutoDetect True (g\<lparr> gwScanType := ScanFull, gwTriedFull := True \<rparr>))
      else (gw_setAutoDetect False (g\<lparr> gwScanType := ScanNone \<rparr>))\<lparr> gwTimer := True \<rparr>)"

lemma gw_onDetectionDone_cases:
  "gw_onDetectionDone env hid g =
     (let g' = gw_remove hid g
      in if gwScanType g' \<noteq> ScanNone \<and> gen_hasNext (gwGenerator g') then gw_next_host env g'
         else if gwActive g' = [] then gw_scan_done env g' else g')"
proof -
  have up: "(d\<lparr> gwScanType := t \<rparr>)\<lparr> gwScanType := u, gwTriedFull := b \<rparr> =
      d\<lparr> gwScanType := u, gwTriedFull := b \<rparr>" for d t u b by simp
  show ?thesis
    unfolding gw_onDetectionDone_def Let_def gw_remove_fold gw_next_host_def gw_scan_done_def
    by (simp add: case_prod_beta)
qed

lemma gw_inv_scan_done:
  assumes "gw_inv g"
  shows "gw_inv (gw_scan_done env g)"
proof -
  have "gw_inv (gw_setAutoDetect True (g\<lparr> gwScanType := ScanFull, gwTriedFull := True \<rparr>))"
    by (rule gw_inv_frame [OF assms]) (use assms in \<open>simp_all add: gw_inv_def\<close>)
  moreover have "gw_inv ((gw_setAutoDetect False (g\<lparr> gwScanType := ScanNone \<rparr>))\<lparr> gwTimer := True \<rparr>)"
    by (rule gw_inv_frame [OF assms]) (use assms in \<open>simp_all add: gw_inv_def\<close>)
  ultimately show ?thesis
    by (simp add: gw_scan_done_def gw_inv_continueScan)
qed

lemma gw_inv_onDetectionDone:
  assumes "gw_inv g" "hid \<in> fst ` set (gwActive g)"
  shows "gw_inv (gw_onDetectionDone env hid g)"
proof -
  have "length (gwActive (gw_remove hid g)) < MaxSimultaneousRequests"
    using gw_remove_length [OF assms(2)] assms(1) by (simp add: gw_inv_def)
  with gw_inv_remove [OF assms(1)] show ?thesis
    by (auto simp: gw_onDetectionDone_cases Let_def gw_inv_next_host gw_inv_scan_done
        simp del: gw_remove_simps)
qed

lemma gw_inv_replyFinished:
  assumes "gw_inv g"
  shows "gw_inv (gw_replyFinished env hid g)"
proof (cases "map_of (gwActive g) hid")
  case (Some h)
  let ?g = "snd (gw_run_scan hid h g)"
  have "set (tl (hsDetectors h)) \<subseteq> set (hsDetectors h)"
    by (cases "hsDetectors h") auto
  then have inv: "gw_inv ?g"
    by (intro gw_inv_detector_step [OF assms Some, of "h\<lparr> hsDetectors := tl (hsDetectors h) \<rparr>"])
      (use assms in \<open>simp_all add: gw_inv_def\<close>)
  have "hid \<in> fst ` set (gwActive ?g)"
    using map_of_SomeD [OF Some] by force
  with inv show ?thesis
    using Some by (simp add: gw_replyFinished_def case_prod_beta gw_inv_onDetectionDone)
qed (simp add: gw_replyFinished_def assms)

lemma gw_onInverterFound_simps [simp]:
  "gwActive (gw_onInverterFound env info g) = gwActive g"
  "gwNextHost (gw_onInverterFound env info g) = gwNextHost g"
  "gwGenerator (gw_onInverterFound env info g) = gwGenerator g"
  "gwDetectors (gw_onInverterFound env info g) = gwDetectors g"
  "gwAutoDetect (gw_onInverterFound env info g) = gwAutoDetect g"
  "gwTriedFull (gw_onInverterFound env info g) = gwTriedFull g"
  "gwScanType (gw_onInverterFound env info g) = gwScanType g"
  "gwOut (gw_onInverterFound env info g) = gwOut g @ [InverterFound info]"
  by (simp_all add: gw_onInverterFound_def Let_def)

lemma gw_inv_deviceFound:
  assumes "gw_inv g"
  shows "gw_inv (gw_deviceFound env hid info g)"
proof (cases "map_of (gwActive g) hid")
  case (Some h)
  then show ?thesis
    by (intro gw_inv_detector_step [OF assms Some, of "hs_onDeviceFound h"])
      (use assms in \<open>simp_all add: gw_inv_def gw_deviceFound_def hs_onDeviceFound_def\<close>)
qed (simp add: gw_deviceFound_def assms)

lemma gw_step_inv: "gw_inv g \<Longrightarrow> gw_inv (gw_step env g e)"
proof -
  assume inv: "gw_inv g"
  have f: "gw_inv (g\<lparr> gwTimer := b \<rparr>)" "gw_inv (g\<lparr> gwUdpTimer := b \<rparr>)" "gw_inv (g\<lparr> gwUdpFound := u \<rparr>)"
    "gw_inv (g\<lparr> gwSettings := st \<rparr>)" for b u st
    by (rule gw_inv_frame [OF inv]; use inv in \<open>simp add: gw_inv_def\<close>)+
  show ?thesis
    using inv f
    by (cases e)
      (simp_all add: gw_startDetection_def gw_fullScan_def gw_onPortNumberChanged_def
        gw_onIpAddressesChanged_def gw_onTimer_def udp_responseReceived_def gw_udpFinished_def
        gw_inv_scan gw_inv_continueScan gw_inv_deviceFound gw_inv_replyFinished)
qed

interpretation gw_run: invariant_machine "gw_step env" gw_inv "\<lambda>_. True" for env
  by unfold_locales (rule gw_step_inv)

lemma gw_inv_new: "gw_inv (gw_new env st)"
proof -
  have "gen_ok (gen_setNetMaskLimit l g) = gen_ok g" for l g
    by (simp add: gen_setNetMaskLimit_def gen_ok_def gen_exceptions_def)
  then show ?thesis
    by (simp add: gw_inv_def gw_new_def gen_new_def gen_reset_ok)
qed

lemma gw_continueScan_detectors [simp]: "gwDetectors (gw_continueScan env g) = gwDetectors g"
  by (simp add: gw_continueScan_def)

lemma gw_scan_detectors [simp]: "gwDetectors (gw_scan env t g) = gwDetectors g"
  by (simp add: gw_scan_def Let_def udp_start_def udp_reset_def)

lemma gw_step_detectors [simp]: "gwDetectors (gw_step env g e) = gwDetectors g"
  by (cases e)
    (simp_all add: gw_startDetection_def gw_fullScan_def gw_onPortNumberChanged_def gw_onTimer_def
      gw_onIpAddressesChanged_def udp_responseReceived_def gw_udpFinished_def gw_deviceFound_def
      gw_replyFinished_def gw_onDetectionDone_cases gw_scan_done_def Let_def case_prod_beta
      split: option.split)

interpretation gw_run_ds: invariant_machine "gw_step env" "\<lambda>g. gw_inv g \<and> gwDetectors g = ds" "\<lambda>_. True"
    for env ds
  by unfold_locales (simp add: gw_step_inv)

lemma gw_reachable:
  "gw_inv (run (gw_step env) ((gw_new env st)\<lparr> gwDetectors := ds \<rparr>) es) \<and>
   gwDetectors (run (gw_step env) ((gw_new env st)\<lparr> gwDetectors := ds \<rparr>) es) = ds"
proof (rule gw_run_ds.run_inv)
  show "gw_inv ((gw_new env st)\<lparr> gwDetectors := ds \<rparr>) \<and>
      gwDetectors ((gw_new env st)\<lparr> gwDetectors := ds \<rparr>) = ds"
    using gw_inv_new [of env st] by (simp add: gw_inv_def gw_new_def)
qed (simp add: list.pred_True)

subsection \<open>A full scan visits every address once and ends\<close>

text \<open>The hosts on which the first detector was started, and those that are still to come.\<close>

definition gw_scanned :: "nat \<Rightarrow> gateway \<Rightarrow> string list" where
  "gw_scanned d g = concat (map (\<lambda>x. case x of StartDetector e host \<Rightarrow> if e = d then [host] else []
     | _ \<Rightarrow> []) (gwOut g))"

definition gw_pool :: "gw_env \<Rightarrow> nat \<Rightarrow> gateway \<Rightarrow> string list" where
  "gw_pool env d g = gw_scanned d g @ map (envPrint env) (gen_remaining (gwGenerator g))"

text \<open>The replies that a scan still waits for, at most.\<close>

definition gw_work :: "gateway \<Rightarrow> nat" where
  "gw_work g = sum_list (map (\<lambda>(i, h). Suc (length (hsDetectors h))) (gwActive g)) +
     length (gwDetectors g) * length (gen_remaining (gwGenerator g))"

fun host_event :: "gw_event \<Rightarrow> bool" where
  "host_event (GwDeviceFound hid info) = True"
| "host_event (GwReplyFinished hid) = True"
| "host_event _ = False"

definition full_phase :: "nat \<Rightarrow> gateway \<Rightarrow> bool" where
  "full_phase d g \<longleftrightarrow> gw_inv g \<and> (\<exists>ds. gwDetectors g = d # ds \<and> d \<notin> set ds) \<and>
     (gwScanType g = ScanFull \<or> gwScanType g = ScanNone \<and> \<not> gen_hasNext (gwGenerator g)) \<and>
     (gwActive g = [] \<longrightarrow> gwScanType g = ScanNone \<and> gwTimer g)"

lemma gw_scanned_append:
  "gwOut g' = gwOut g @ out \<Longrightarrow> gw_scanned d g' = gw_scanned d g @
     concat (map (\<lambda>x. case x of StartDetector e host \<Rightarrow> if e = d then [host] else [] | _ \<Rightarrow> []) out)"
  by (simp add: gw_scanned_def)

lemma gw_next_host_pool:
  assumes "gw_inv g" "gwDetectors g = d # ds" "gen_hasNext (gwGenerator g)"
  shows "gw_pool env d (gw_next_host env g) = gw_pool env d g"
proof -
  have ok: "gen_ok (gwGenerator g)" using assms(1) by (simp add: gw_inv_def)
  have "gen_remaining (gwGenerator g) \<noteq> []"
    using gen.hasNext_iff [OF ok] assms(3) by simp
  then show ?thesis
    using gen.nxt_hd [OF ok assms(3)] gen.nxt_tl [OF ok assms(3)] assms(2)
    by (cases "gen_remaining (gwGenerator g)") (simp_all add: gw_pool_def gw_scanned_def)
qed

lemma gw_fill_pool:
  assumes "gw_inv g" "gwDetectors g = d # ds"
  shows "gw_pool env d (gw_fill env g) = gw_pool env d g"
proof -
  have "gw_inv (gw_fill env g) \<and> gwDetectors (gw_fill env g) = d # ds \<and>
      gw_pool env d (gw_fill env g) = gw_pool env d g"
    by (rule gw_fill_induct) (use assms in \<open>auto simp: gw_next_host_pool gw_inv_next_host\<close>)
  then show ?thesis by blast
qed

lemma sum_list_replace:
  fixes f :: "host_scan \<Rightarrow> nat"
  assumes "distinct (map fst xs)" "map_of xs k = Some h" "f h = Suc (f h')"
  shows "sum_list (map (\<lambda>(i, x). f x) xs) =
    Suc (sum_list (map (\<lambda>(i, x). f x) (map (\<lambda>(i, x). (i, if i = k then h' else x)) xs)))"
  using assms
proof (induction xs)
  case (Cons p xs)
  obtain i x where p: "p = (i, x)" by fastforce
  show ?case
  proof (cases "i = k")
    case True
    then have "map (\<lambda>(i, x). (i, if i = k then h' else x)) xs = xs"
      using Cons.prems(1) p by (intro map_idI) (auto simp: image_iff)
    then show ?thesis using True Cons.prems p by simp
  next
    case False
    then show ?thesis using Cons p by simp
  qed
qed simp

lemma sum_list_remove:
  fixes f :: "host_scan \<Rightarrow> nat"
  assumes "distinct (map fst xs)" "map_of xs k = Some h"
  shows "sum_list (map (\<lambda>(i, x). f x) xs) =
    f h + sum_list (map (\<lambda>(i, x). f x) (filter (\<lambda>(i, x). i \<noteq> k) xs))"
  using assms
proof (induction xs)
  case (Cons p xs)
  obtain i x where p: "p = (i, x)" by fastforce
  show ?case
  proof (cases "i = k")
    case True
    then have "filter (\<lambda>(i, x). i \<noteq> k) xs = xs"
      using Cons.prems(1) p by (intro filter_True) (auto simp: image_iff)
    then show ?thesis using True Cons.prems p by simp
  next
    case False
    then show ?thesis using Cons p by simp
  qed
qed simp

lemma gw_run_scan_empty:
  assumes "distinct (map fst (gwActive g))" "map_of (gwActive g) hid = Some h" "hsDetectors h = []"
  shows "gw_run_scan hid h g = (True, g)"
proof -
  have "map (\<lambda>(i, x). (i, if i = hid then h\<lparr> hsDetectors := [] \<rparr> else x)) (gwActive g) = gwActive g"
  proof (rule map_idI)
    fix p
    assume p: "p \<in> set (gwActive g)"
    obtain i x where ix: "p = (i, x)" by fastforce
    have "i = hid \<Longrightarrow> x = h" 
      using eq_key_imp_eq_value [OF assms(1)] map_of_SomeD [OF assms(2)] p ix by metis
    moreover have "h\<lparr> hsDetectors := [] \<rparr> = h" using assms(3) by (cases h) simp
    ultimately show "(case p of (i, x) \<Rightarrow> (i, if i = hid then h\<lparr> hsDetectors := [] \<rparr> else x)) = p"
      using ix by simp
  qed
  then have "gw_run_scan hid h g = (True, g\<lparr> gwActive := gwActive g \<rparr>)"
    unfolding gw_run_scan_eq Let_def assms(3) list.case list.sel by (simp only: refl)
  then show ?thesis by simp
qed

lemma full_phase_detector:
  fixes env
  assumes "full_phase d g" "map_of (gwActive g) hid = Some h" "hsDetectors h = e # es"
  defines "g' \<equiv> gw_replyFinished env hid g"
  shows "full_phase d g' \<and> gw_pool env d g' = gw_pool env d g \<and> gw_work g' < gw_work g"
proof -
  let ?h = "h\<lparr> hsDetectors := tl (hsDetectors h) \<rparr>"
  have len: "Suc (length (hsDetectors h)) = Suc (Suc (length (hsDetectors ?h)))"
    using assms(3) by simp
  have inv: "gw_inv g" using assms(1) by (simp add: full_phase_def)
  have g': "g' = snd (gw_run_scan hid h g)"
    using assms(2,3) by (simp add: g'_def gw_replyFinished_def case_prod_beta)
  have inv': "gw_inv g'"
    unfolding g'_def by (rule gw_inv_replyFinished [OF inv])
  obtain ds where ds: "gwDetectors g = d # ds" "d \<notin> set ds"
    using assms(1) by (auto simp: full_phase_def)
  have "(hid, h) \<in> set (gwActive g)" by (rule map_of_SomeD [OF assms(2)])
  then have "set (hsDetectors h) \<subseteq> set ds"
    using inv ds(1) by (auto simp: gw_inv_def list_all_iff)
  then have "e \<noteq> d" using ds(2) assms(3) by auto
  then have "gw_pool env d g' = gw_pool env d g"
    using assms(3) by (simp add: g' gw_pool_def gw_scanned_def)
  moreover have "full_phase d g'"
    using assms(1) inv' \<open>(hid, h) \<in> set (gwActive g)\<close> unfolding g'
    by (auto simp: full_phase_def)
  moreover have "distinct (map fst (gwActive g))" using inv by (simp add: gw_inv_def)
  then have "gw_work g' < gw_work g"
    using sum_list_replace [where f = "\<lambda>h. Suc (length (hsDetectors h))", OF _ assms(2) len]
    by (simp add: g' gw_work_def)
  ultimately show ?thesis by blast
qed

lemma full_phase_host_done:
  fixes env
  assumes "full_phase d g" "map_of (gwActive g) hid = Some h" "hsDetectors h = []"
  defines "g' \<equiv> gw_replyFinished env hid g"
  shows "full_phase d g' \<and> gw_pool env d g' = gw_pool env d g \<and> gw_work g' < gw_work g"
proof -
  have inv: "gw_inv g" and dist: "distinct (map fst (gwActive g))"
    using assms(1) by (simp_all add: full_phase_def gw_inv_def)
  have mem: "hid \<in> fst ` set (gwActive g)"
    using map_of_SomeD [OF assms(2)] by force
  have g': "g' = gw_onDetectionDone env hid g"
    using assms(2) by (simp add: g'_def gw_replyFinished_def gw_run_scan_empty [OF dist assms(2,3)])
  have inv': "gw_inv g'" unfolding g' by (rule gw_inv_onDetectionDone [OF inv mem])
  obtain ds where ds: "gwDetectors g = d # ds" "d \<notin> set ds"
    using assms(1) by (auto simp: full_phase_def)
  let ?r = "gw_remove hid g"
  have r: "gw_inv ?r" "gw_pool env d ?r = gw_pool env d g"
    using gw_inv_remove [OF inv] by (simp_all add: gw_pool_def gw_scanned_def)
  have work: "gw_work g = Suc (gw_work ?r)"
    using sum_list_remove [OF dist assms(2), of "\<lambda>h. Suc (length (hsDetectors h))"] assms(3)
    by (simp add: gw_work_def)
  show ?thesis
  proof (cases "gwScanType ?r \<noteq> ScanNone \<and> gen_hasNext (gwGenerator ?r)")
    case True
    then have n: "g' = gw_next_host env ?r" by (simp add: g' gw_onDetectionDone_cases Let_def)
    have ok: "gen_ok (gwGenerator ?r)" using r(1) by (simp add: gw_inv_def)
    have ids: "list_all (\<lambda>(i, h). i < gwNextHost ?r) (gwActive ?r)"
      using r(1) unfolding gw_inv_def by blast
    have "gw_work g' = gw_work ?r"
    proof -
      have "gen_remaining (gwGenerator ?r) \<noteq> []"
        using gen.hasNext_iff [OF ok] True by simp
      then obtain a as where "gen_remaining (gwGenerator ?r) = a # as"
        by (cases "gen_remaining (gwGenerator ?r)") auto
      then show ?thesis
        using gen.nxt_tl [OF ok] True ds(1) unfolding n gw_work_def gw_next_host_active [OF ids]
        by simp
    qed
    moreover have "gw_pool env d g' = gw_pool env d ?r"
      unfolding n using True ds(1) by (intro gw_next_host_pool [OF r(1)]) simp_all
    moreover have "gwActive g' \<noteq> []"
      unfolding n gw_next_host_active [OF ids] by simp
    then have "full_phase d g'"
      using inv' assms(1) True unfolding full_phase_def by (simp add: n)
    ultimately show ?thesis using r(2) work by simp
  next
    case False
    then have f: "g' = (if gwActive ?r = [] then gw_scan_done env ?r else ?r)"
      unfolding g' gw_onDetectionDone_cases Let_def by (simp only: if_False)
    have none: "\<not> gen_hasNext (gwGenerator g)" "gwScanType g \<noteq> ScanTryPriority"
      using False assms(1) by (auto simp: full_phase_def)
    show ?thesis
    proof (cases "gwActive ?r = []")
      case True
      then have "g' = (gw_setAutoDetect False (?r\<lparr> gwScanType := ScanNone \<rparr>))\<lparr> gwTimer := True \<rparr>"
        using f none(2) by (simp add: gw_scan_done_def)
      moreover have "gw_scanned d ((gw_setAutoDetect False x)\<lparr> gwTimer := True \<rparr>) = gw_scanned d x" for x
        by (simp add: gw_scanned_def gw_setAutoDetect_def)
      moreover have "gw_scanned d (?r\<lparr> gwScanType := ScanNone \<rparr>) = gw_scanned d ?r"
        by (simp add: gw_scanned_def)
      ultimately show ?thesis
        using inv' none True work r(2)
        by (simp add: full_phase_def ds gw_pool_def gw_work_def)
    next
      case False
      then have "g' = ?r" using f by simp
      then show ?thesis
        using inv' none False work r(2) assms(1) by (simp add: full_phase_def ds)
    qed
  qed
qed

lemma full_phase_found:
  assumes "full_phase d g"
  shows "full_phase d (gw_deviceFound env hid info g) \<and>
    gw_pool env d (gw_deviceFound env hid info g) = gw_pool env d g"
proof (cases "map_of (gwActive g) hid")
  case (Some h)
  have "gwTimer (gw_onInverterFound env info x) = gwTimer x" for x
    by (simp add: gw_onInverterFound_def Let_def)
  then show ?thesis
    using assms gw_inv_deviceFound [of g env hid info] Some
    by (simp add: full_phase_def gw_deviceFound_def gw_pool_def gw_scanned_def)
qed (simp add: assms gw_deviceFound_def)

lemma full_phase_step:
  assumes "full_phase d g" "host_event e"
  shows "full_phase d (gw_step env g e) \<and> gw_pool env d (gw_step env g e) = gw_pool env d g"
proof (cases e)
  case (GwReplyFinished hid)
  show ?thesis
  proof (cases "map_of (gwActive g) hid")
    case None
    then show ?thesis using assms(1) GwReplyFinished by (simp add: gw_replyFinished_def)
  next
    case (Some h)
    then show ?thesis
      using full_phase_detector [OF assms(1) Some] full_phase_host_done [OF assms(1) Some]
        GwReplyFinished by (cases "hsDetectors h") auto
  qed
qed (use assms full_phase_found in auto)

lemma full_phase_run:
  "full_phase d g \<Longrightarrow> list_all host_event hs \<Longrightarrow>
    full_phase d (run (gw_step env) g hs) \<and> gw_pool env d (run (gw_step env) g hs) = gw_pool env d g"
proof (induction hs arbitrary: g)
  case (Cons e hs)
  then show ?case
    using full_phase_step [of d g e env] Cons.IH [of "gw_step env g e"] by simp
qed simp

text \<open>\<^verbatim>\<open>continueScan\<close> of a full scan starts such a phase.\<close>

lemma full_phase_start:
  fixes env
  assumes "gw_inv g" "gwDetectors g = d # ds" "d \<notin> set ds" "gwScanType g = ScanFull"
  defines "g' \<equiv> gw_continueScan env g"
  shows "gwActive g' \<noteq> [] \<Longrightarrow> full_phase d g'"
    and "gw_pool env d g' = gw_scanned d g @ map (envPrint env) (gen_remaining (gw_prepare env g))"
proof -
  let ?g = "g\<lparr> gwGenerator := gw_prepare env g \<rparr>"
  have g': "g' = gw_fill env ?g"
    using assms(4) by (simp add: g'_def gw_continueScan_def)
  have inv: "gw_inv ?g"
    by (rule gw_inv_frame [OF assms(1)])
      (use assms(1) in \<open>simp_all add: gw_inv_def gw_prepare_def gen_reset_ok\<close>)
  show "gw_pool env d g' = gw_scanned d g @ map (envPrint env) (gen_remaining (gw_prepare env g))"
    using gw_fill_pool [OF inv] assms(2) by (simp add: g' gw_pool_def gw_scanned_def)
  show "full_phase d g'" if "gwActive g' \<noteq> []"
    using that gw_inv_fill [OF inv] assms(2-4) by (auto simp: g' full_phase_def)
qed

subsection \<open>Found devices\<close>

text \<open>A device that is found is stored as known address, unless it is configured or known.\<close>

definition known_list :: "gw_env \<Rightarrow> gateway \<Rightarrow> host_address list" where
  "known_list env g = knownIpAddresses (envParse env) (gwSettings g)"

lemma onInverterFound_known:
  assumes addr: "address_text (envParse env) (envPrint env)"
    and "\<And>old new. envStore env old new = new"
    and "list_all is_ipv4 (known_list env g)" "is_ipv4 (envParse env (hostName info))"
  shows "known_list env (gw_onInverterFound env info g) =
    (if envParse env (hostName info) \<in> set (ipAddresses (envParse env) (gwSettings g)) \<union> set (known_list env g)
     then known_list env g else known_list env g @ [envParse env (hostName info)])"
  using address_text.known_after_set [OF addr assms(2), where st = "gwSettings g" and
      as = "known_list env g @ [envParse env (hostName info)]"] assms(3,4)
  by (simp add: known_list_def gw_onInverterFound_def Let_def)

subsection \<open>A scan without addresses\<close>

text \<open>A fresh installation: no configured or known address, and no answer to the UDP probe.\<close>

lemma toAdressList_Nil: "toAdressList parse [] = []"
  by (simp add: toAdressList_def split_skip_def)

lemma gw_scan_nothing:
  assumes "gwUdpFound g = []" "stIpAddresses (gwSettings g) = []" "stKnownIpAddresses (gwSettings g) = []"
    and "gwScanType g = ScanTryPriority" "gwActive g = []"
  shows "gwActive (gw_continueScan env g) = [] \<and> gwScanType (gw_continueScan env g) = ScanTryPriority \<and>
    gwOut (gw_continueScan env g) = gwOut g"
proof -
  have "gw_addresses env g = []"
    using assms by (simp add: gw_addresses_def ipAddresses_def knownIpAddresses_def toAdressList_Nil)
  then have "\<not> gen_hasNext (gw_prepare env g)"
    using assms(4)
    by (simp add: gw_prepare_def gen_setPriorityOnly_def gen_setPriorityAddresses_def gen_reset_def
        gen_hasNext_def Let_def)
  then show ?thesis
    using assms by (simp add: gw_continueScan_def gw_fill_stop)
qed

lemma run_timer_stuck:
  "gwScanType g \<noteq> ScanNone \<Longrightarrow> run (gw_step env) g (replicate n GwTimer) = g"
proof (induction n)
  case (Suc n)
  then have "gw_step env g GwTimer = g" by (simp add: gw_onTimer_def)
  then show ?case using Suc by simp
qed simp

subsection \<open>Properties\<close>

text \<open>The gateway as \<^verbatim>\<open>DBusFronius\<close> sets it up, after any events.\<close>

definition gw_reached :: "gw_env \<Rightarrow> settings \<Rightarrow> nat list \<Rightarrow> gw_event list \<Rightarrow> gateway" where
  "gw_reached env st ds es = run (gw_step env) (foldl (\<lambda>g d. gw_addDetector d g) (gw_new env st) ds) es"

lemma gw_reached_inv: "gw_inv (gw_reached env st ds es) \<and> gwDetectors (gw_reached env st ds es) = ds"
proof -
  have "foldl (\<lambda>g d. gw_addDetector d g) g ds = g\<lparr> gwDetectors := gwDetectors g @ ds \<rparr>" for g
    by (induction ds arbitrary: g) (simp_all add: gw_addDetector_def)
  moreover have "gwDetectors (gw_new env st) = []" by (simp add: gw_new_def)
  ultimately show ?thesis
    unfolding gw_reached_def using gw_reachable by simp
qed

lemma gw_udpFinished_phase:
  fixes env st d ds es
  defines "g \<equiv> gw_reached env st (d # ds) es"
  assumes "d \<notin> set ds" "gwScanType g = ScanFull" "gwActive (gw_udpFinished env g) \<noteq> []"
  shows "full_phase d (gw_udpFinished env g) \<and> gw_pool env d (gw_udpFinished env g) =
    gw_scanned d g @ map (envPrint env) (gen_remaining (gw_prepare env g))"
proof -
  let ?g = "g\<lparr> gwUdpTimer := False \<rparr>"
  have inv: "gw_inv ?g" and ds: "gwDetectors ?g = d # ds"
    using gw_reached_inv [of env st "d # ds" es] by (auto simp: g_def gw_inv_def)
  have "gw_addresses env ?g = gw_addresses env g" by (simp add: gw_addresses_def)
  then have "gw_prepare env ?g = gw_prepare env g" "gw_scanned d ?g = gw_scanned d g"
    by (simp_all add: gw_prepare_def gw_scanned_def)
  then show ?thesis
    using full_phase_start [OF inv ds assms(2), of env] assms(3,4)
    by (simp add: gw_udpFinished_def)
qed

text \<open>
  C32. In every reachable state of the gateway at most 64 hosts are scanned at a time, no host scan
  is listed twice, and the auto-detect flag that is published is set exactly during a full scan.
\<close>

theorem gw_scan_limits:
  "let g = gw_reached env st ds es
   in length (gwActive g) \<le> 64 \<and> distinct (map fst (gwActive g)) \<and>
      (gwAutoDetect g \<longleftrightarrow> gwScanType g = ScanFull)"
  using gw_reached_inv [of env st ds es] by (simp add: gw_inv_def Let_def MaxSimultaneousRequests_def)

text \<open>
  C7. A full scan that has started a host, in any reachable state, ends only after the first
  detector was started on every address that the generator was prepared with (UDP answers,
  configured, known and local network addresses), on each exactly once and in order, whatever the
  detectors find and in whatever order they finish; then no scan runs and the rescan timer does.
\<close>

theorem gw_full_scan_complete:
  fixes env st d ds es hs
  defines "g \<equiv> gw_reached env st (d # ds) es"
  defines "g' \<equiv> run (gw_step env) (gw_udpFinished env g) hs"
  assumes "d \<notin> set ds" "gwScanType g = ScanFull" "gwActive (gw_udpFinished env g) \<noteq> []"
    and "list_all host_event hs" "gwActive g' = []"
  shows "gw_scanned d g' = gw_scanned d g @ map (envPrint env) (gen_remaining (gw_prepare env g)) \<and>
    gwScanType g' = ScanNone \<and> \<not> gwAutoDetect g' \<and> gwTimer g'"
proof -
  have start: "full_phase d (gw_udpFinished env g)" "gw_pool env d (gw_udpFinished env g) =
      gw_scanned d g @ map (envPrint env) (gen_remaining (gw_prepare env g))"
    using gw_udpFinished_phase [OF assms(3), of env st es] assms(4,5) by (simp_all add: g_def)
  have phase: "full_phase d g'" "gw_pool env d g' = gw_pool env d (gw_udpFinished env g)"
    using full_phase_run [OF start(1) assms(6), of env] by (simp_all add: g'_def)
  have none: "gwScanType g' = ScanNone" "gwTimer g'" "gw_inv g'"
    using phase(1) assms(7) by (simp_all add: full_phase_def)
  then have "\<not> gen_hasNext (gwGenerator g')" "gen_ok (gwGenerator g')"
    using phase(1) by (simp_all add: full_phase_def gw_inv_def)
  then have "gen_remaining (gwGenerator g') = []" using gen.hasNext_iff by simp
  then show ?thesis
    using phase(2) start(2) none by (simp add: gw_pool_def gw_inv_def)
qed

definition toy_env :: gw_env where
  "toy_env = \<lparr> envParse = (\<lambda>s. IPv4 7), envPrint = (\<lambda>a. ''x''), envStore = (\<lambda>old new. new),
     envInterfaces = [] \<rparr>"

definition toy_settings :: settings where
  "toy_settings = settings_new\<lparr> stIpAddresses := ''x'' \<rparr>"

theorem gw_full_scan_complete_witness:
  "gw_scanned 0 (run (gw_step toy_env) (gw_udpFinished toy_env (gw_reached toy_env toy_settings [0, 1]
       [GwFullScan])) [GwReplyFinished 0, GwReplyFinished 0]) =
     gw_scanned 0 (gw_reached toy_env toy_settings [0, 1] [GwFullScan]) @ map (envPrint toy_env)
       (gen_remaining (gw_prepare toy_env (gw_reached toy_env toy_settings [0, 1] [GwFullScan]))) \<and>
   gwScanType (run (gw_step toy_env) (gw_udpFinished toy_env (gw_reached toy_env toy_settings [0, 1]
       [GwFullScan])) [GwReplyFinished 0, GwReplyFinished 0]) = ScanNone \<and>
   \<not> gwAutoDetect (run (gw_step toy_env) (gw_udpFinished toy_env (gw_reached toy_env toy_settings [0, 1]
       [GwFullScan])) [GwReplyFinished 0, GwReplyFinished 0]) \<and>
   gwTimer (run (gw_step toy_env) (gw_udpFinished toy_env (gw_reached toy_env toy_settings [0, 1]
       [GwFullScan])) [GwReplyFinished 0, GwReplyFinished 0])"
  by (rule gw_full_scan_complete) (code_simp | simp)+



text \<open>
  A found device whose address is neither configured nor known is appended to the known
  addresses, and nothing else changes them.
\<close>

theorem gw_found_device_is_known:
  assumes "address_text (envParse env) (envPrint env)"
    and "\<And>old new. envStore env old new = new"
    and "list_all is_ipv4 (known_list env g)" "is_ipv4 (envParse env (hostName info))"
  shows "known_list env (gw_onInverterFound env info g) =
    (if envParse env (hostName info) \<in> set (ipAddresses (envParse env) (gwSettings g)) \<union> set (known_list env g)
     then known_list env g else known_list env g @ [envParse env (hostName info)])"
  using assms by (rule onInverterFound_known)

definition dotted_env :: gw_env where
  "dotted_env = \<lparr> envParse = parse_dotted, envPrint = dotted, envStore = (\<lambda>old new. new),
     envInterfaces = [] \<rparr>"

theorem gw_found_device_is_known_witness:
  "let info = new_device_info\<lparr> hostName := dotted (IPv4 0xC0A80105) \<rparr>; g = gw_new dotted_env settings_new
   in known_list dotted_env (gw_onInverterFound dotted_env info g) =
    (if envParse dotted_env (hostName info) \<in> set (ipAddresses (envParse dotted_env) (gwSettings g)) \<union>
        set (known_list dotted_env g)
     then known_list dotted_env g else known_list dotted_env g @ [envParse dotted_env (hostName info)])"
  unfolding Let_def
proof (rule gw_found_device_is_known)
  show "address_text (envParse dotted_env) (envPrint dotted_env)"
    unfolding dotted_env_def gw_env.simps by (rule dotted.address_text_axioms)
  show "is_ipv4 (envParse dotted_env (hostName (new_device_info\<lparr> hostName := dotted (IPv4 0xC0A80105) \<rparr>)))"
    by (simp add: dotted_env_def dotted.parse_print del: dotted.simps)
qed (simp_all add: dotted_env_def known_list_def knownIpAddresses_def gw_new_def settings_new_def
    toAdressList_Nil)

text \<open>
  On a fresh installation (nothing configured or known, no answer to the UDP probe) the first
  scan starts no host and never ends: no timer event starts another one, and the full scan that
  should find the devices is never made.
\<close>

theorem gw_first_scan_stuck:
  "let g = gw_reached env settings_new ds ([GwStart, GwUdpTimeout] @ replicate n GwTimer)
   in gwScanType g = ScanTryPriority \<and> gwActive g = [] \<and> gwOut g = [UdpProbe]"
proof -
  let ?g = "gw_reached env settings_new ds [GwStart]"
  let ?u = "gw_step env ?g GwUdpTimeout"
  have new: "foldl (\<lambda>g d. gw_addDetector d g) g ds = g\<lparr> gwDetectors := gwDetectors g @ ds \<rparr>" for g
    by (induction ds arbitrary: g) (simp_all add: gw_addDetector_def)
  have g: "gwUdpFound ?g = []" "gwSettings ?g = settings_new" "gwScanType ?g = ScanTryPriority"
    "gwActive ?g = []" "gwUdpTimer ?g" "gwOut ?g = [UdpProbe]"
    by (simp_all add: gw_reached_def new gw_startDetection_def gw_scan_def Let_def udp_start_def
        udp_reset_def gw_new_def settings_new_def gw_setAutoDetect_def)
  have "gwScanType ?u = ScanTryPriority \<and> gwActive ?u = [] \<and> gwOut ?u = [UdpProbe]"
    using gw_scan_nothing [of "?g\<lparr> gwUdpTimer := False \<rparr>" env] g
    by (simp add: gw_udpFinished_def settings_new_def)
  moreover have "gw_reached env settings_new ds ([GwStart, GwUdpTimeout] @ replicate n GwTimer) =
      run (gw_step env) ?u (replicate n GwTimer)"
    by (simp add: gw_reached_def)
  ultimately show ?thesis
    using run_timer_stuck [of ?u env n] by (simp add: Let_def)
qed

end
