(* ===== verification/Ve_Service.thy ===== *)
theory Ve_Service
  imports Dbl Strings
begin

text \<open>
  Values on the D-Bus (\<^verbatim>\<open>ve_service.cpp\<close>, and \<^verbatim>\<open>VeProducerItem\<close> of \<^verbatim>\<open>ve_service.h\<close>): the items of a
  service are a map from paths to a value and a text.  The text of a number is kept as the value,
  the precision and the unit it is formatted with.
\<close>

datatype variant = Invalid | VInt int | VDouble dbl | VString string

datatype item_text = TextString string | TextNumber dbl int string

record dbus_item =
  itValue :: variant
  itText :: item_text

type_synonym items = "string \<Rightarrow> dbus_item option"

text \<open>\<^verbatim>\<open>QVariant\<close> conversions.  No item that is read back as a number holds a string.\<close>

fun variant_toDouble :: "variant \<Rightarrow> dbl" where
  "variant_toDouble (VInt i) = of_integer i"
| "variant_toDouble (VDouble d) = d"
| "variant_toDouble _ = Fin 0"

fun variant_toInt :: "variant \<Rightarrow> int" where
  "variant_toInt (VInt i) = i"
| "variant_toInt (VDouble d) = qRound d"
| "variant_toInt _ = 0"

fun variant_toString :: "variant \<Rightarrow> string" where
  "variant_toString (VString s) = s"
| "variant_toString (VInt i) = dec_int i"
| "variant_toString _ = []"

text \<open>\<^verbatim>\<open>item->getValue()\<close>; an item without a value is invalid.\<close>

definition item_value :: "string \<Rightarrow> items \<Rightarrow> variant" where
  "item_value path m = (case m path of None \<Rightarrow> Invalid | Some i \<Rightarrow> itValue i)"

definition produceText :: "string \<Rightarrow> variant \<Rightarrow> item_text \<Rightarrow> items \<Rightarrow> items" where
  "produceText path v t m = m(path \<mapsto> \<lparr> itValue = v, itText = t \<rparr>)"

definition produceValue :: "string \<Rightarrow> variant \<Rightarrow> items \<Rightarrow> items" where
  "produceValue path v = produceText path v (TextString (variant_toString v))"

text \<open>The text of a value that is not finite is empty, and so is its value.\<close>

definition produceDouble :: "string \<Rightarrow> dbl \<Rightarrow> int \<Rightarrow> string \<Rightarrow> items \<Rightarrow> items" where
  "produceDouble path value precision unit =
     (if qIsFinite value then produceText path (VDouble value) (TextNumber value precision unit)
      else produceText path Invalid (TextString []))"

definition getDoubleOr :: "dbl \<Rightarrow> string \<Rightarrow> items \<Rightarrow> dbl" where
  "getDoubleOr d path m =
     (case item_value path m of Invalid \<Rightarrow> d | v \<Rightarrow> variant_toDouble v)"

definition getDouble :: "string \<Rightarrow> items \<Rightarrow> dbl" where
  "getDouble = getDoubleOr NaN"

text \<open>\<^verbatim>\<open>createItem\<close> makes the item known, without a value.\<close>

definition createItem :: "string \<Rightarrow> items \<Rightarrow> items" where
  "createItem path m =
     (case m path of None \<Rightarrow> m(path \<mapsto> \<lparr> itValue = Invalid, itText = TextString [] \<rparr>) | Some _ \<Rightarrow> m)"

subsection \<open>Reading back\<close>

lemma item_value_produce [simp]:
  "item_value p (produceText q v t m) = (if p = q then v else item_value p m)"
  "item_value p (produceValue q v m) = (if p = q then v else item_value p m)"
  by (simp_all add: item_value_def produceText_def produceValue_def)

lemma item_value_createItem [simp]: "item_value p (createItem q m) = item_value p m"
  by (simp add: item_value_def createItem_def split: option.split)

lemma getDouble_produceDouble [simp]:
  "getDouble p (produceDouble q d n u m) =
    (if p = q then (if qIsFinite d then d else NaN) else getDouble p m)"
  by (simp add: getDouble_def getDoubleOr_def produceDouble_def)

lemma getDouble_produceValue_other [simp]:
  "p \<noteq> q \<Longrightarrow> getDouble p (produceValue q v m) = getDouble p m"
  "p \<noteq> q \<Longrightarrow> getDouble p (produceText q v t m) = getDouble p m"
  by (simp_all add: getDouble_def getDoubleOr_def)

lemma item_value_produceDouble:
  "item_value p (produceDouble q d n u m) =
    (if p = q then (if qIsFinite d then VDouble d else Invalid) else item_value p m)"
  by (simp add: produceDouble_def)

text \<open>A number is published as it is, and a value that is not one as an invalid item without text.\<close>

definition published :: "string \<Rightarrow> dbl \<Rightarrow> items \<Rightarrow> bool" where
  "published path d m \<longleftrightarrow>
     (case m path of None \<Rightarrow> False
      | Some i \<Rightarrow> if qIsFinite d then itValue i = VDouble d
                  else itValue i = Invalid \<and> itText i = TextString [])"

lemma published_produceDouble: "published path d (produceDouble path d n u m)"
  by (simp add: published_def produceDouble_def produceText_def)

end
