(* ===== verification/Inverter_Settings.thy ===== *)
theory Inverter_Settings
  imports Ve_Service Ve_Consumer Defines
begin

text \<open>
  The settings of one inverter (\<^verbatim>\<open>inverter_settings.cpp\<close>): items of localsettings.  \<open>store\<close> is what an
  item holds after \<^verbatim>\<open>setValue\<close>, from the old value and the new one.
\<close>

type_synonym item_store = "variant \<Rightarrow> variant \<Rightarrow> variant"

type_synonym inverter_settings = "string \<Rightarrow> variant"

text \<open>The items of the constructor with their default values.\<close>

definition inverter_settings_new :: inverter_settings where
  "inverter_settings_new = (\<lambda>_. Invalid)
     (''Phase'' := VInt PhaseL1, ''PhaseCount'' := VInt 1, ''Position'' := VInt Input1,
      ''CustomName'' := VString [], ''IsActive'' := VInt 1, ''L1Energy'' := VDouble (Fin 0),
      ''L2Energy'' := VDouble (Fin 0), ''L3Energy'' := VDouble (Fin 0), ''SerialNumber'' := VString [])"

definition set_setting :: "item_store \<Rightarrow> string \<Rightarrow> variant \<Rightarrow> inverter_settings \<Rightarrow> inverter_settings" where
  "set_setting store path v st = st(path := store (st path) v)"

definition phase :: "inverter_settings \<Rightarrow> inverter_phase" where
  "phase st = variant_toInt (st ''Phase'')"

definition setPhase :: "item_store \<Rightarrow> inverter_phase \<Rightarrow> inverter_settings \<Rightarrow> inverter_settings" where
  "setPhase store p = set_setting store ''Phase'' (VInt p)"

definition setPhaseCount :: "item_store \<Rightarrow> int \<Rightarrow> inverter_settings \<Rightarrow> inverter_settings" where
  "setPhaseCount store n = set_setting store ''PhaseCount'' (VInt n)"

definition position :: "inverter_settings \<Rightarrow> inverter_position" where
  "position st = variant_toInt (st ''Position'')"

definition customName :: "inverter_settings \<Rightarrow> string" where
  "customName st = variant_toString (st ''CustomName'')"

definition setCustomName :: "item_store \<Rightarrow> string \<Rightarrow> inverter_settings \<Rightarrow> inverter_settings" where
  "setCustomName store n st =
     (if customName st = n then st else set_setting store ''CustomName'' (VString n) st)"

definition isActive :: "inverter_settings \<Rightarrow> bool" where
  "isActive st \<longleftrightarrow> variant_toInt (st ''IsActive'') \<noteq> 0"

definition setting_double :: "string \<Rightarrow> inverter_settings \<Rightarrow> dbl" where
  "setting_double path st = (case st path of Invalid \<Rightarrow> NaN | v \<Rightarrow> variant_toDouble v)"

definition l1Energy :: "inverter_settings \<Rightarrow> dbl" where
  "l1Energy = setting_double ''L1Energy''"

definition setL1Energy :: "item_store \<Rightarrow> dbl \<Rightarrow> inverter_settings \<Rightarrow> inverter_settings" where
  "setL1Energy store e = set_setting store ''L1Energy'' (VDouble e)"

definition l2Energy :: "inverter_settings \<Rightarrow> dbl" where
  "l2Energy = setting_double ''L2Energy''"

definition setL2Energy :: "item_store \<Rightarrow> dbl \<Rightarrow> inverter_settings \<Rightarrow> inverter_settings" where
  "setL2Energy store e = set_setting store ''L2Energy'' (VDouble e)"

definition l3Energy :: "inverter_settings \<Rightarrow> dbl" where
  "l3Energy = setting_double ''L3Energy''"

definition setL3Energy :: "item_store \<Rightarrow> dbl \<Rightarrow> inverter_settings \<Rightarrow> inverter_settings" where
  "setL3Energy store e = set_setting store ''L3Energy'' (VDouble e)"

definition getEnergy :: "inverter_phase \<Rightarrow> inverter_settings \<Rightarrow> dbl" where
  "getEnergy p st =
     (if p = PhaseL1 then l1Energy st else if p = PhaseL2 then l2Energy st
      else if p = PhaseL3 then l3Energy st else Fin 0)"

definition setEnergy :: "item_store \<Rightarrow> inverter_phase \<Rightarrow> dbl \<Rightarrow> inverter_settings \<Rightarrow> inverter_settings" where
  "setEnergy store p v st =
     (if p = PhaseL1 then setL1Energy store v st else if p = PhaseL2 then setL2Energy store v st
      else if p = PhaseL3 then setL3Energy store v st else st)"

definition setSerialNumber :: "item_store \<Rightarrow> string \<Rightarrow> inverter_settings \<Rightarrow> inverter_settings" where
  "setSerialNumber store s = set_setting store ''SerialNumber'' (VString s)"

text \<open>An energy is read back for its own phase and no other.\<close>

lemma getEnergy_setEnergy:
  assumes "\<And>old new. store old new = new" "p \<in> {PhaseL1, PhaseL2, PhaseL3}"
  shows "getEnergy q (setEnergy store p v st) = (if q = p then v else getEnergy q st)"
  using assms
  by (auto simp: getEnergy_def setEnergy_def phases setL1Energy_def setL2Energy_def setL3Energy_def
      l1Energy_def l2Energy_def l3Energy_def setting_double_def set_setting_def)

lemma setCustomName_readback:
  "(\<And>old new. store old new = new) \<Longrightarrow> customName (setCustomName store n st) = n"
  by (simp add: setCustomName_def set_setting_def customName_def)

end
