(* ===== verification/Inverter.thy ===== *)
theory Inverter
  imports Ve_Service Defines
begin

text \<open>
  The D-Bus service of an inverter (\<^verbatim>\<open>inverter.cpp\<close>, \<^verbatim>\<open>fronius_inverter.cpp\<close>, \<^verbatim>\<open>power_info.cpp\<close>,
  \<^verbatim>\<open>pv_info.cpp\<close>): its items, below the root of the service, and the signals it emits.  The
  product ids are constants of velib, which is not part of the repository.
\<close>

record products =
  VE_PROD_ID_PV_INVERTER_FRONIUS :: int
  VE_PROD_ID_PV_INVERTER_SMA :: int
  VE_PROD_ID_PV_INVERTER_ABB :: int
  VE_PROD_ID_PV_INVERTER_SUNSPEC :: int

text \<open>Some ids, for examples.\<close>

definition demo_products :: products where
  "demo_products = \<lparr> VE_PROD_ID_PV_INVERTER_FRONIUS = 0xA142, VE_PROD_ID_PV_INVERTER_SMA = 0xA143,
     VE_PROD_ID_PV_INVERTER_ABB = 0xA144, VE_PROD_ID_PV_INVERTER_SUNSPEC = 0xA145 \<rparr>"

subsection \<open>Power and PV information\<close>

text \<open>The services below \<^verbatim>\<open>Ac\<close>, \<^verbatim>\<open>Ac/L1\<close>, \<^verbatim>\<open>Pv/0\<close> and so on are given by their path.\<close>

definition pi_power :: "string \<Rightarrow> items \<Rightarrow> dbl" where
  "pi_power pre = getDouble (pre @ ''/Power'')"

definition pi_setPower :: "string \<Rightarrow> dbl \<Rightarrow> items \<Rightarrow> items" where
  "pi_setPower pre p = produceDouble (pre @ ''/Power'') p 0 ''W''"

definition pi_totalEnergy :: "string \<Rightarrow> items \<Rightarrow> dbl" where
  "pi_totalEnergy pre = getDouble (pre @ ''/Energy/Forward'')"

definition pi_setTotalEnergy :: "string \<Rightarrow> dbl \<Rightarrow> items \<Rightarrow> items" where
  "pi_setTotalEnergy pre e = produceDouble (pre @ ''/Energy/Forward'') e 2 ''kWh''"

definition pi_resetBasic :: "string \<Rightarrow> items \<Rightarrow> items" where
  "pi_resetBasic pre m = pi_setTotalEnergy pre NaN (pi_setPower pre NaN m)"

definition pi_current :: "string \<Rightarrow> items \<Rightarrow> dbl" where
  "pi_current pre = getDouble (pre @ ''/Current'')"

definition pi_setCurrent :: "string \<Rightarrow> dbl \<Rightarrow> items \<Rightarrow> items" where
  "pi_setCurrent pre c = produceDouble (pre @ ''/Current'') c 1 ''A''"

definition pi_voltage :: "string \<Rightarrow> items \<Rightarrow> dbl" where
  "pi_voltage pre = getDouble (pre @ ''/Voltage'')"

definition pi_setVoltage :: "string \<Rightarrow> dbl \<Rightarrow> items \<Rightarrow> items" where
  "pi_setVoltage pre v = produceDouble (pre @ ''/Voltage'') v 0 ''V''"

definition pi_resetValues :: "string \<Rightarrow> items \<Rightarrow> items" where
  "pi_resetValues pre m = pi_setVoltage pre NaN (pi_setCurrent pre NaN (pi_resetBasic pre m))"

definition pi_new :: "string \<Rightarrow> items \<Rightarrow> items" where
  "pi_new pre m = createItem (pre @ ''/Energy/Forward'') (createItem (pre @ ''/Power'') m)"

definition pi_newPhase :: "string \<Rightarrow> items \<Rightarrow> items" where
  "pi_newPhase pre m = createItem (pre @ ''/Voltage'') (createItem (pre @ ''/Current'') (pi_new pre m))"

definition pv_setCurrent :: "string \<Rightarrow> dbl \<Rightarrow> items \<Rightarrow> items" where
  "pv_setCurrent pre c = produceDouble (pre @ ''/Current'') c 3 ''A''"

definition pv_setVoltage :: "string \<Rightarrow> dbl \<Rightarrow> items \<Rightarrow> items" where
  "pv_setVoltage pre v = produceDouble (pre @ ''/Voltage'') v 2 ''V''"

definition pv_setPower :: "string \<Rightarrow> dbl \<Rightarrow> items \<Rightarrow> items" where
  "pv_setPower pre p = produceDouble (pre @ ''/Power'') p 0 ''W''"

definition pv_resetValues :: "string \<Rightarrow> items \<Rightarrow> items" where
  "pv_resetValues pre m = pv_setPower pre NaN (pv_setVoltage pre NaN (pv_setCurrent pre NaN m))"

definition pv_new :: "string \<Rightarrow> items \<Rightarrow> items" where
  "pv_new pre m = createItem (pre @ ''/Power'') (createItem (pre @ ''/Voltage'') (createItem (pre @ ''/Current'') m))"

lemmas power_info_defs = pi_power_def pi_setPower_def pi_totalEnergy_def pi_setTotalEnergy_def
  pi_resetBasic_def pi_current_def pi_setCurrent_def pi_voltage_def pi_setVoltage_def
  pi_resetValues_def pv_setCurrent_def pv_setVoltage_def pv_setPower_def pv_resetValues_def

subsection \<open>The inverter\<close>

datatype inverter_class = BaseInverter | FroniusInverter | SmaInverter

datatype inverter_out = CustomNameChanged | HostNameChanged | PortChanged | PowerLimitRequested dbl

record inverter =
  invInfo :: device_info
  invItems :: items
  invClass :: inverter_class
  invOut :: "inverter_out list"

definition inv_produce :: "(items \<Rightarrow> items) \<Rightarrow> 'a inverter_scheme \<Rightarrow> 'a inverter_scheme" where
  "inv_produce f iv = iv\<lparr> invItems := f (invItems iv) \<rparr>"

definition inv_emit :: "inverter_out \<Rightarrow> 'a inverter_scheme \<Rightarrow> 'a inverter_scheme" where
  "inv_emit x iv = iv\<lparr> invOut := invOut iv @ [x] \<rparr>"

definition connection_text :: "device_info \<Rightarrow> string" where
  "connection_text info =
     (let apistr =
        (if retrievalMode info = ProtocolSunSpecFloat then ''sunspec-f''
         else if retrievalMode info = ProtocolSunSpecFloat then ''sunspec-i''
         else if retrievalMode info = ProtocolSMA then ''sma-pv''
         else ''solarapi'')
      in hostName info @ '' - '' @ dec_int (networkId info) @ '' ('' @ apistr @ '')'')"

definition updateConnectionItem :: "'a inverter_scheme \<Rightarrow> 'a inverter_scheme" where
  "updateConnectionItem iv =
     inv_produce (produceValue ''Mgmt/Connection'' (VString (connection_text (invInfo iv)))) iv"

text \<open>\<^verbatim>\<open>QString::number(n, 16)\<close>\<close>

fun hex :: "nat \<Rightarrow> string" where
  "hex n = (if n < 16 then [''0123456789abcdef'' ! n] else hex (n div 16) @ [''0123456789abcdef'' ! (n mod 16)])"

declare hex.simps [simp del]

definition optional_string :: "string \<Rightarrow> variant" where
  "optional_string s = (if s = [] then Invalid else VString s)"

text \<open>The items of the constructor; \<open>process\<close> and \<open>version\<close> are the name and the version of the program.\<close>

definition inverter_items :: "string \<Rightarrow> string \<Rightarrow> device_info \<Rightarrow> int \<Rightarrow> items" where
  "inverter_items process version info deviceInstance =
     (let m = fold createItem [''ErrorCode'', ''StatusCode'', ''Ac/PowerLimit'', ''Position'',
            ''DeviceInstance'', ''CustomName'', ''ProductName'', ''Mgmt/Connection''] (\<lambda>_. None);
          m = pi_newPhase ''Ac/L3'' (pi_newPhase ''Ac/L2'' (pi_newPhase ''Ac/L1'' (pi_new ''Ac'' m)));
          m = produceValue ''Connected'' (VInt 1) m;
          m = produceValue ''Mgmt/ProcessName'' (VString process) m;
          m = produceValue ''Mgmt/ProcessVersion'' (VString version) m;
          m = produceValue ''ProductName'' (VString (productName info)) m;
          m = produceText ''ProductId'' (VInt (productId info)) (TextString (hex (nat (productId info)))) m;
          m = produceValue ''Serial'' (VString (if serialNumber info = [] then uniqueId info
                else serialNumber info)) m;
          m = produceValue ''DeviceInstance'' (VInt deviceInstance) m;
          m = produceDouble ''Ac/MaxPower'' (maxPower info) 0 ''W'' m;
          m = produceValue ''FirmwareVersion'' (optional_string (firmwareVersion info)) m
      in produceValue ''DataManagerVersion'' (optional_string (dataManagerVersion info)) m)"

definition inverter_new :: "inverter_class \<Rightarrow> string \<Rightarrow> string \<Rightarrow> device_info \<Rightarrow> int \<Rightarrow> inverter" where
  "inverter_new cls process version info deviceInstance =
     updateConnectionItem
       \<lparr> invInfo = info, invItems = inverter_items process version info deviceInstance,
         invClass = cls, invOut = [] \<rparr>"

definition fronius_inverter_new :: "string \<Rightarrow> string \<Rightarrow> device_info \<Rightarrow> int \<Rightarrow> inverter" where
  "fronius_inverter_new process version info deviceInstance =
     inv_produce (produceValue ''FroniusDeviceType'' (VInt (deviceType info)))
       (inverter_new FroniusInverter process version info deviceInstance)"

subsection \<open>Status and connection\<close>

definition inv_setErrorCode :: "int \<Rightarrow> 'a inverter_scheme \<Rightarrow> 'a inverter_scheme" where
  "inv_setErrorCode code = inv_produce (produceValue ''ErrorCode'' (VInt code))"

definition status_text :: "int \<Rightarrow> string" where
  "status_text code =
     (if 0 \<le> code \<and> code < 7 then ''Startup '' @ dec_int code @ ''/6''
      else if code = 7 then ''Running''
      else if code = 8 then ''Standby''
      else if code = 9 then ''Boot loading''
      else if code = 10 then ''Error''
      else if code = 11 then ''Running (MPPT)''
      else if code = 12 then ''Running (Throttled)''
      else dec_int code)"

definition inv_setStatusCode :: "int \<Rightarrow> 'a inverter_scheme \<Rightarrow> 'a inverter_scheme" where
  "inv_setStatusCode code =
     inv_produce (produceText ''StatusCode'' (VInt code) (TextString (status_text code)))"

definition inv_invalidateStatusCode :: "'a inverter_scheme \<Rightarrow> 'a inverter_scheme" where
  "inv_invalidateStatusCode = inv_produce (produceText ''StatusCode'' Invalid (TextString []))"

definition inv_statusCode :: "'a inverter_scheme \<Rightarrow> variant" where
  "inv_statusCode iv = item_value ''StatusCode'' (invItems iv)"

definition inv_customName :: "'a inverter_scheme \<Rightarrow> string" where
  "inv_customName iv = variant_toString (item_value ''CustomName'' (invItems iv))"

definition inv_setCustomName :: "string \<Rightarrow> 'a inverter_scheme \<Rightarrow> 'a inverter_scheme" where
  "inv_setCustomName n iv =
     (let v = item_value ''CustomName'' (invItems iv)
      in if v \<noteq> Invalid \<and> variant_toString v = n then iv
         else inv_emit CustomNameChanged (inv_produce (produceValue ''CustomName'' (VString n)) iv))"

definition inv_setHostName :: "string \<Rightarrow> 'a inverter_scheme \<Rightarrow> 'a inverter_scheme" where
  "inv_setHostName h iv =
     (if hostName (invInfo iv) = h then iv
      else inv_emit HostNameChanged
             (updateConnectionItem (iv\<lparr> invInfo := (invInfo iv)\<lparr> hostName := h \<rparr> \<rparr>)))"

definition inv_setPort :: "int \<Rightarrow> 'a inverter_scheme \<Rightarrow> 'a inverter_scheme" where
  "inv_setPort p iv =
     (if devicePort (invInfo iv) = p then iv
      else inv_emit PortChanged (iv\<lparr> invInfo := (invInfo iv)\<lparr> devicePort := p \<rparr> \<rparr>))"

definition inv_setPosition :: "inverter_position \<Rightarrow> 'a inverter_scheme \<Rightarrow> 'a inverter_scheme" where
  "inv_setPosition p =
     inv_produce (produceText ''Position'' (VInt p) (TextString
       (if p = Input1 then ''Input 1'' else if p = Output then ''Output''
        else if p = Input2 then ''Input 2'' else [])))"

definition inv_getPowerInfo :: "inverter_phase \<Rightarrow> string option" where
  "inv_getPowerInfo p =
     (if p = PhaseL1 then Some ''Ac/L1'' else if p = PhaseL2 then Some ''Ac/L2''
      else if p = PhaseL3 then Some ''Ac/L3'' else None)"

definition inv_powerLimit :: "'a inverter_scheme \<Rightarrow> dbl" where
  "inv_powerLimit iv = getDouble ''Ac/PowerLimit'' (invItems iv)"

definition inv_setPowerLimit :: "dbl \<Rightarrow> 'a inverter_scheme \<Rightarrow> 'a inverter_scheme" where
  "inv_setPowerLimit p = inv_produce (produceDouble ''Ac/PowerLimit'' p 0 ''W'')"

text \<open>A write to an item by another program: the result code, and the inverter.\<close>

definition inv_handleSetValue :: "string \<Rightarrow> variant \<Rightarrow> 'a inverter_scheme \<Rightarrow> int \<times> 'a inverter_scheme" where
  "inv_handleSetValue item v iv =
     (if item = ''Ac/PowerLimit'' then (0, inv_emit (PowerLimitRequested (variant_toDouble v)) iv)
      else if item = ''CustomName'' then (0, inv_setCustomName (variant_toString v) iv)
      else (1, iv))"

definition inv_location :: "'a inverter_scheme \<Rightarrow> string" where
  "inv_location iv = uniqueId (invInfo iv) @ ''@'' @ hostName (invInfo iv) @ '':''
     @ dec_int (networkId (invInfo iv))"

subsection \<open>The hook for bad frames\<close>

definition FroniusNullFrame :: "u16 list" where
  "FroniusNullFrame = replicate 36 0 @ [7, 10]"

definition fronius_validateSunspecMonitorFrame :: "device_info \<Rightarrow> u16 list \<Rightarrow> bool" where
  "fronius_validateSunspecMonitorFrame info frame \<longleftrightarrow>
     \<not> (retrievalMode info = ProtocolSunSpecIntSf \<and> take 38 (drop 2 frame) = FroniusNullFrame)"

definition inv_validateSunspecMonitorFrame :: "'a inverter_scheme \<Rightarrow> u16 list \<Rightarrow> bool" where
  "inv_validateSunspecMonitorFrame iv frame =
     (if invClass iv = FroniusInverter then fronius_validateSunspecMonitorFrame (invInfo iv) frame
      else True)"

subsection \<open>Lemmas\<close>

lemma inv_produce_simps [simp]:
  "invInfo (inv_produce f iv) = invInfo iv" "invItems (inv_produce f iv) = f (invItems iv)"
  "invClass (inv_produce f iv) = invClass iv" "invOut (inv_produce f iv) = invOut iv"
  by (simp_all add: inv_produce_def)

lemma inv_emit_simps [simp]:
  "invInfo (inv_emit x iv) = invInfo iv" "invItems (inv_emit x iv) = invItems iv"
  "invClass (inv_emit x iv) = invClass iv" "invOut (inv_emit x iv) = invOut iv @ [x]"
  by (simp_all add: inv_emit_def)

lemma updateConnectionItem_simps [simp]:
  "invInfo (updateConnectionItem iv) = invInfo iv" "invClass (updateConnectionItem iv) = invClass iv"
  by (simp_all add: updateConnectionItem_def)

text \<open>A power limit that is published can be read back, one that is not a number reads as NaN.\<close>

lemma inv_powerLimit_set:
  "inv_powerLimit (inv_setPowerLimit p iv) = (if qIsFinite p then p else NaN)"
  by (simp add: inv_powerLimit_def inv_setPowerLimit_def)

lemma inv_setHostName_info: "invInfo (inv_setHostName h iv) = (invInfo iv)\<lparr> hostName := h \<rparr>"
  by (simp add: inv_setHostName_def)

lemma inv_setPort_info: "invInfo (inv_setPort p iv) = (invInfo iv)\<lparr> devicePort := p \<rparr>"
  by (simp add: inv_setPort_def)

lemma inv_customName_set: "inv_customName (inv_setCustomName n iv) = n"
  by (simp add: inv_setCustomName_def inv_customName_def Let_def)

text \<open>The text of the connection never names the integer register map.\<close>

lemma connection_text_intsf:
  "retrievalMode info = ProtocolSunSpecIntSf \<Longrightarrow>
   connection_text info = hostName info @ '' - '' @ dec_int (networkId info) @ '' (solarapi)''"
  by (simp add: connection_text_def)

end
