(* ===== verification/Sunspec_Tools.thy ===== *)
theory Sunspec_Tools
  imports Dbl
begin

text \<open>
  Values in Sunspec registers (\<^verbatim>\<open>sunspec_tools.cpp\<close>): scaled integers, floats and strings.  An index
  outside the vector is undefined in the code; here it reads 0, and the properties that need the
  length assume it.
\<close>

definition reg_at :: "u16 list \<Rightarrow> nat \<Rightarrow> u16" where
  "reg_at values i = (if i < length values then values ! i else 0)"

definition getScale :: "u16 list \<Rightarrow> nat \<Rightarrow> dbl" where
  "getScale values offset =
     (let v = reg_at values offset in if v = 0x8000 then NaN else pow10 (sint v))"

text \<open>\<^verbatim>\<open>(values[offset] << 16) | values[offset + 1]\<close>\<close>

definition reg32 :: "u16 list \<Rightarrow> nat \<Rightarrow> u32" where
  "reg32 values offset = push_bit 16 (ucast (reg_at values offset)) OR ucast (reg_at values (offset + 1))"

definition getScaledValue :: "u16 list \<Rightarrow> nat \<Rightarrow> nat \<Rightarrow> nat \<Rightarrow> bool \<Rightarrow> dbl" where
  "getScaledValue values offset sz scaleOffset isSigned =
     (let scale = getScale values scaleOffset
      in if \<not> qIsFinite scale then NaN
         else if sz = 1 then
           (let v = reg_at values offset
            in if isSigned \<and> v = 0x8000 \<or> \<not> isSigned \<and> v = 0xFFFF then NaN
               else of_integer (if isSigned then sint v else uint v) * scale)
         else if sz = 2 then
           (let v = reg32 values offset
            in if isSigned \<and> v = 0x80000000 \<or> \<not> isSigned \<and> v = 0xFFFFFFFF then NaN
               else of_integer (if isSigned then sint v else uint v) * scale)
         else of_integer 0 * scale)"

definition getFloat :: "u16 list \<Rightarrow> nat \<Rightarrow> dbl" where
  "getFloat values offset = float_of_bits (reg32 values offset)"

definition getString :: "u16 list \<Rightarrow> nat \<Rightarrow> nat \<Rightarrow> string" where
  "getString values offset sz =
     filter (\<lambda>c. c \<noteq> CHR 0x00)
       (concat (map (\<lambda>i. let v = reg_at values (offset + i)
                          in [char_of (unat (msb v)), char_of (unat (lsb v))]) [0..<sz]))"

subsection \<open>Numbers\<close>

lemma uint_reg32: "uint (reg32 values i) = uint (reg_at values i) * 2 ^ 16 + uint (reg_at values (i + 1))"
proof -
  let ?h = "reg_at values i" and ?l = "reg_at values (i + 1)"
  have lt: "uint ?h < 2 ^ 16" "uint ?l < 2 ^ 16" using uint_lt2p [of ?h] uint_lt2p [of ?l] by simp_all
  have "reg32 values i = push_bit 16 (ucast ?h) + ucast ?l"
    unfolding reg32_def
    by (rule disjunctive_add [symmetric]) (auto simp: bit_simps dest: bit_imp_le_length)
  then have "reg32 values i = ucast ?h * 2 ^ 16 + ucast ?l" by (simp add: push_bit_eq_mult)
  moreover have "uint (ucast ?h * 2 ^ 16 + ucast ?l :: u32) = (uint ?h * 2 ^ 16 + uint ?l) mod 2 ^ 32"
    using lt by (simp add: uint_word_ariths unsigned_ucast_eq take_bit_eq_mod mod_simps)
  moreover have "(uint ?h * 2 ^ 16 + uint ?l) mod 2 ^ 32 = uint ?h * 2 ^ 16 + uint ?l"
    using lt by (intro mod_pos_pos_trivial) (simp_all add: mult.commute)
  ultimately show ?thesis by simp
qed

lemma of_integer_word:
  "of_integer (sint (v :: u16)) = Fin (of_int (sint v))" "of_integer (uint v) = Fin (of_int (uint v))"
  "of_integer (sint (w :: u32)) = Fin (of_int (sint w))" "of_integer (uint w) = Fin (of_int (uint w))"
proof -
  have "\<bar>sint v\<bar> < 2 ^ 53" using sint_lt [of v] sint_ge [of v] by simp
  moreover have "\<bar>uint v\<bar> < 2 ^ 53" using uint_lt2p [of v] by simp
  moreover have "\<bar>sint w\<bar> < 2 ^ 53" using sint_lt [of w] sint_ge [of w] by simp
  moreover have "\<bar>uint w\<bar> < 2 ^ 53" using uint_lt2p [of w] by simp
  ultimately show "of_integer (sint v) = Fin (of_int (sint v))" "of_integer (uint v) = Fin (of_int (uint v))"
    "of_integer (sint w) = Fin (of_int (sint w))" "of_integer (uint w) = Fin (of_int (uint w))"
    by (simp_all only: of_integer_small)
qed

text \<open>A register with a scale of ten to a small power: the value is exact.\<close>

lemma scaled_exact:
  assumes "reg_at values scaleOffset = of_nat n" "n \<le> 11"
    and "\<not> (if isSigned then reg_at values offset = 0x8000 else reg_at values offset = 0xFFFF)"
  shows "getScaledValue values offset 1 scaleOffset isSigned =
    Fin (of_int ((if isSigned then sint (reg_at values offset) else uint (reg_at values offset)) * 10 ^ n))"
proof -
  let ?v = "reg_at values offset"
  let ?i = "if isSigned then sint ?v else uint ?v"
  have s: "sint (of_nat n :: u16) = int n"
  proof -
    have "n < 2 ^ 15" using assms(2) by simp
    then show ?thesis
      by (simp add: signed_of_nat signed_take_bit_int_eq_self_iff)
  qed
  have ne: "(of_nat n :: u16) \<noteq> 0x8000"
  proof
    assume "(of_nat n :: u16) = 0x8000"
    then have "sint (of_nat n :: u16) = sint (0x8000 :: u16)" by simp
    then show False using s by simp
  qed
  have scale: "getScale values scaleOffset = Fin (10 ^ n)"
    using ne assms(1,2) s pow10_exact [of n] by (simp add: getScale_def)
  have "\<bar>?i\<bar> \<le> 2 ^ 16"
    using sint_lt [of ?v] sint_ge [of ?v] uint_lt2p [of ?v] 
    by (auto simp: abs_le_iff intro: order_trans [of _ 0])
  moreover have "(10 :: int) ^ n \<le> 10 ^ 11" using assms(2) by (intro power_increasing) simp_all
  ultimately have "\<bar>?i\<bar> * 10 ^ n \<le> 2 ^ 16 * 10 ^ 11" by (intro mult_mono) simp_all
  then have small: "\<bar>?i * 10 ^ n\<bar> < 2 ^ 53" by (simp add: abs_mult)
  have "getScaledValue values offset 1 scaleOffset isSigned = of_integer ?i * Fin (of_int (10 ^ n))"
    using assms(3) scale by (auto simp: getScaledValue_def Let_def)
  also have "of_integer ?i = Fin (of_int ?i)"
    by (simp only: of_integer_word split: if_split) simp
  finally show ?thesis using times_int [OF small] by simp
qed

subsection \<open>Strings\<close>

text \<open>A device writes a string two characters per register, and fills the rest with zero.\<close>

fun string_regs :: "string \<Rightarrow> u16 list" where
  "string_regs [] = []"
| "string_regs [c] = [toUInt16 (of_char c) 0]"
| "string_regs (c # d # cs) = toUInt16 (of_char c) (of_char d) # string_regs cs"

lemma char_of_0 [simp]: "char_of (0 :: nat) = CHR 0x00"
  by (simp add: char_of_def)

lemma char_of_u8 [simp]: "char_of (unat (of_char c :: u8)) = c"
proof -
  have "(of_char c :: nat) < 2 ^ 8" using nat_of_char_less_256 [of c] by simp
  moreover have "(of_char c :: u8) = of_nat (of_char c)" by (simp add: of_nat_of_char)
  ultimately have "unat (of_char c :: u8) = of_char c"
    by (simp add: unsigned_of_nat take_bit_eq_mod)
  then show ?thesis by simp
qed

lemma getString_shift:
  "sz \<le> length vs \<Longrightarrow> getString (pre @ vs @ post) (length pre) sz = getString vs 0 sz"
  unfolding getString_def
  by (rule arg_cong [where f = "filter _"], rule arg_cong [where f = concat], rule map_cong)
    (auto simp: reg_at_def nth_append)

lemma getString_Suc:
  "getString (v # vs) 0 (Suc sz) =
    filter (\<lambda>c. c \<noteq> CHR 0x00) [char_of (unat (msb v)), char_of (unat (lsb v))] @ getString vs 0 sz"
proof -
  have "[0..<Suc sz] = 0 # map Suc [0..<sz]" by (metis map_Suc_upt upt_conv_Cons zero_less_Suc)
  then show ?thesis
    by (auto simp: getString_def reg_at_def Let_def comp_def simp del: upt_Suc
        intro!: arg_cong [where f = "filter _"] arg_cong [where f = concat] map_cong)
qed

lemma getString_zeros: "getString (replicate n 0) 0 n = []"
proof -
  have "msb 0 = 0" "lsb 0 = 0" by (simp_all add: msb_def lsb_def)
  then show ?thesis
    by (induction n) (simp_all add: getString_Suc, simp_all add: getString_def)
qed

lemma getString_string_regs_lemma:
  assumes "CHR 0x00 \<notin> set s"
  shows "getString (string_regs s @ replicate n 0) 0 (length (string_regs s) + n) = s"
  using assms
proof (induction s rule: string_regs.induct)
  case 1
  then show ?case by (simp add: getString_zeros)
next
  case (2 c)
  then show ?case by (simp add: getString_Suc getString_zeros)
next
  case (3 c d cs)
  then show ?case by (auto simp: getString_Suc)
qed

text \<open>
  Every value of a 16-bit Sunspec register whose scale register holds a power of ten from 0 to 11 is
  read exactly, without any rounding of the double: the register times the power, signed or
  unsigned as asked for; only the value that the standard reserves (0x8000 signed, 0xFFFF unsigned)
  is NaN.
\<close>

theorem scaled_register_exact:
  assumes "reg_at values scaleOffset = of_nat n" "n \<le> 11"
  shows "getScaledValue values offset 1 scaleOffset isSigned =
    (if reg_at values offset = (if isSigned then 0x8000 else 0xFFFF) then NaN
     else Fin (of_int ((if isSigned then sint (reg_at values offset) else uint (reg_at values offset))
                       * 10 ^ n)))"
proof (cases "reg_at values offset = (if isSigned then 0x8000 else 0xFFFF)")
  case True
  then show ?thesis by (auto simp: getScaledValue_def Let_def)
next
  case False
  then have "\<not> (if isSigned then reg_at values offset = 0x8000 else reg_at values offset = 0xFFFF)"
    by (simp split: if_splits)
  from scaled_exact [OF assms this] show ?thesis using False by (simp only: if_False)
qed

theorem scaled_register_exact_witness:
  "getScaledValue [0xFFFB, 2] 0 1 1 True = Fin (- 500)"
  using scaled_register_exact [of "[0xFFFB, 2]" 1 2 0 True] by (simp add: reg_at_def)

text \<open>
  Reading a string from registers gives back the string a device stored there, two characters per
  register and padded with zeros, whatever is before and after it in the block, when it has no zero
  character.
\<close>

theorem getString_string_regs:
  assumes "CHR 0x00 \<notin> set s"
  shows "getString (pre @ (string_regs s @ replicate n 0) @ post) (length pre) (length (string_regs s) + n) = s"
  using getString_string_regs_lemma [OF assms, of n]
  by (subst getString_shift) simp_all

theorem getString_string_regs_witness:
  "getString ([7, 9] @ (string_regs ''Fronius'' @ replicate 2 0) @ [1])
    (length [7 :: u16, 9]) (length (string_regs ''Fronius'') + 2) = ''Fronius''"
  by (rule getString_string_regs) simp

end
