(* ===== verification/Dbl_Error.thy ===== *)
theory Dbl_Error
  imports Dbl
begin

text \<open>
  Rounding errors of chains of double operations on non-negative numbers.  \<open>near k x r\<close> says that
  \<open>r\<close> is \<open>x\<close> up to \<open>k\<close> roundings; the relation composes over sums, products and quotients.
\<close>

definition keep :: rat where "keep = 1 - 1 / 2 ^ 53"

definition near :: "nat \<Rightarrow> rat \<Rightarrow> rat \<Rightarrow> bool" where
  "near k x r \<longleftrightarrow> x * keep ^ k \<le> r \<and> r * keep ^ k \<le> x"

lemma keep_bounds: "0 < keep" "keep \<le> 1"
  by (simp_all add: keep_def)

lemma keep_pow: "0 < keep ^ k" "keep ^ k \<le> 1"
  using keep_bounds by (simp_all add: power_le_one)

lemma near_refl [simp]: "near 0 x x"
  by (simp add: near_def)

lemma near_zero [simp]: "near k 0 0"
  by (simp add: near_def)

lemma near_nonneg: "near k x r \<Longrightarrow> 0 \<le> x \<Longrightarrow> 0 \<le> r"
  unfolding near_def using keep_pow(1) [of k]
  by (meson mult_nonneg_nonneg less_imp_le order_trans)

lemma near_pos: "near k x r \<Longrightarrow> 0 < x \<Longrightarrow> 0 < r"
  unfolding near_def using keep_pow(1) [of k] by (meson mult_pos_pos less_le_trans)

lemma near_trans:
  assumes "near j x y" "near k y z"
  shows "near (j + k) x z"
proof -
  have "x * keep ^ j * keep ^ k \<le> y * keep ^ k"
    using assms(1) keep_pow(1) [of k] by (intro mult_right_mono) (simp_all add: near_def)
  moreover have "z * keep ^ k * keep ^ j \<le> y * keep ^ j"
    using assms(2) keep_pow(1) [of j] by (intro mult_right_mono) (simp_all add: near_def)
  ultimately show ?thesis
    using assms unfolding near_def power_add by (auto simp: ac_simps)
qed

lemma near_mono:
  assumes "near j x r" "j \<le> k" "0 \<le> x"
  shows "near k x r"
proof -
  have r: "0 \<le> r" using assms by (blast intro: near_nonneg)
  have p: "keep ^ k \<le> keep ^ j"
    using keep_bounds assms(2) by (intro power_decreasing) simp_all
  have "x * keep ^ k \<le> x * keep ^ j" "r * keep ^ k \<le> r * keep ^ j"
    using p r assms(3) by (simp_all add: mult_left_mono)
  then show ?thesis using assms(1) by (auto simp: near_def)
qed

lemma near_add: "near k x r \<Longrightarrow> near k y s \<Longrightarrow> near k (x + y) (r + s)"
  by (simp add: near_def distrib_right add_mono)

lemma near_mult:
  assumes "near j x r" "near k y s" "0 \<le> x" "0 \<le> y"
  shows "near (j + k) (x * y) (r * s)"
proof -
  have r: "0 \<le> r" "0 \<le> s" using assms by (blast intro: near_nonneg)+
  have "(x * keep ^ j) * (y * keep ^ k) \<le> r * s" "(r * keep ^ j) * (s * keep ^ k) \<le> x * y"
    using assms r keep_pow(1) by (auto intro!: mult_mono simp: near_def less_imp_le)
  then show ?thesis unfolding near_def power_add by (simp_all add: ac_simps)
qed

lemma near_inverse:
  assumes "near k y s" "0 < y"
  shows "near k (1 / y) (1 / s)"
proof -
  have "0 < s" using assms by (rule near_pos)
  then show ?thesis
    using assms keep_pow(1) [of k] by (simp add: near_def field_simps)
qed

lemma near_divide:
  assumes "near j x r" "near k y s" "0 \<le> x" "0 < y"
  shows "near (j + k) (x / y) (r / s)"
  using near_mult [OF assms(1) near_inverse [OF assms(2,4)] assms(3)] assms(4) by simp

subsection \<open>One rounding\<close>

lemma round_half_even_error: "\<bar>of_int (round_half_even q) - q\<bar> \<le> 1 / 2"
proof -
  have "of_int \<lfloor>q\<rfloor> \<le> q" "q < of_int \<lfloor>q\<rfloor> + 1" by linarith+
  then show ?thesis by (auto simp: round_half_even_def Let_def abs_le_iff)
qed

definition normal_range :: "rat \<Rightarrow> bool" where
  "normal_range x \<longleftrightarrow> x = 0 \<or> pow2 (- 1022) \<le> x \<and> x < pow2 1023"

lemma round_value_error:
  assumes "pow2 (- 1022) \<le> x"
  shows "\<bar>round_value x - x\<bar> \<le> x / 2 ^ 53"
proof -
  let ?u = "pow2 (ulp_exponent x)"
  have x: "0 < x" using assms pow2_pos [of "- 1022"] by linarith
  have "pow2 (- 1022) < pow2 (exponent2 x + 1)" using exponent2_bounds(2) [OF x] assms by linarith
  then have "- 1022 < exponent2 x + 1" by (rule pow2_less)
  then have e: "ulp_exponent x = exponent2 x - 52" using x by (simp add: ulp_exponent_def)
  have "round_value x - x = (of_int (round_half_even (x / ?u)) - x / ?u) * ?u"
    by (simp add: round_value_def left_diff_distrib)
  also have "\<bar>\<dots>\<bar> \<le> 1 / 2 * ?u"
    unfolding abs_mult using round_half_even_error [of "x / ?u"] pow2_pos [of "ulp_exponent x"]
    by (intro mult_mono) (simp_all add: less_imp_le)
  also have "\<dots> = pow2 (exponent2 x) / 2 ^ 53"
  proof -
    have "pow2 (exponent2 x) = ?u * pow2 52" unfolding e by (simp flip: pow2_add)
    also have "pow2 52 = 2 ^ 52" by (simp add: pow2_def)
    finally show ?thesis by simp
  qed
  also have "\<dots> \<le> x / 2 ^ 53" using exponent2_bounds(1) [OF x] by (simp add: divide_right_mono)
  finally show ?thesis .
qed

lemma rnd_near:
  assumes "normal_range x"
  shows "\<exists>r. rnd x = Fin r \<and> near 1 x r"
proof (cases "x = 0")
  case True
  then show ?thesis by (simp add: rnd_def)
next
  case False
  then have x: "pow2 (- 1022) \<le> x" "x < pow2 1023" using assms by (auto simp: normal_range_def)
  then have pos: "0 < x" using pow2_pos [of "- 1022"] by linarith
  let ?r = "round_value x"
  have err: "\<bar>?r - x\<bar> \<le> x / 2 ^ 53" by (rule round_value_error [OF x(1)])
  have "near 1 x ?r"
  proof -
    have "x - x / 2 ^ 53 \<le> ?r" using err unfolding abs_le_iff by linarith
    then have "x * keep \<le> ?r" by (simp add: keep_def right_diff_distrib)
    moreover have "?r * keep \<le> (x + x / 2 ^ 53) * keep"
    proof (rule mult_right_mono)
      show "?r \<le> x + x / 2 ^ 53" using err unfolding abs_le_iff by linarith
    qed (use keep_bounds in simp)
    moreover have "(x + x / 2 ^ 53) * keep \<le> x" using pos by (simp add: keep_def field_simps)
    ultimately show ?thesis by (simp add: near_def)
  qed
  moreover have "\<bar>?r\<bar> < pow2 1024"
  proof -
    have "x / 2 ^ 53 \<le> x / 1" using pos by (intro divide_left_mono) simp_all
    then have "?r \<le> 2 * x" "0 \<le> ?r"
      using err round_value_nonneg [of x] pos unfolding abs_le_iff by (simp_all only: div_by_1) linarith
    moreover have "2 * x < pow2 1024" using x(2) pow2_Suc [of 1023] by simp
    ultimately show ?thesis by simp
  qed
  ultimately show ?thesis using False by (auto simp: rnd_round_value)
qed

text \<open>Zero, or a magnitude that neither overflows nor loses precision.\<close>

definition rng :: "nat \<Rightarrow> rat \<Rightarrow> bool" where
  "rng n x \<longleftrightarrow> x = 0 \<or> 1 / 10 ^ n \<le> x \<and> x \<le> 10 ^ n"

lemma rng_nonneg: "rng n x \<Longrightarrow> 0 \<le> x"
  by (auto simp: rng_def intro: order_trans [of 0 "1 / 10 ^ n"])

lemma rng_0 [simp]: "rng n 0"
  by (simp add: rng_def)

lemma rng_mono:
  assumes "rng m x" "m \<le> n"
  shows "rng n x"
proof -
  have "(10 :: rat) ^ m \<le> 10 ^ n" using assms(2) by (intro power_increasing) simp_all
  moreover from this have "(1 :: rat) / 10 ^ n \<le> 1 / 10 ^ m" by (intro divide_left_mono) simp_all
  ultimately show ?thesis using assms(1) unfolding rng_def by (blast intro: order_trans)
qed

lemma rng_mult:
  assumes "rng m x" "rng n y"
  shows "rng (m + n) (x * y)"
proof (cases "x = 0 \<or> y = 0")
  case False
  then have b: "1 / 10 ^ m \<le> x" "x \<le> 10 ^ m" "1 / 10 ^ n \<le> y" "y \<le> 10 ^ n"
    using assms by (auto simp: rng_def)
  have "1 / 10 ^ m * (1 / 10 ^ n) \<le> x * y" "x * y \<le> 10 ^ m * 10 ^ n"
    using b rng_nonneg [OF assms(1)] rng_nonneg [OF assms(2)] by (intro mult_mono; simp)+
  then show ?thesis by (simp add: rng_def power_add)
qed auto

lemma rng_inverse: "rng n y \<Longrightarrow> rng n (1 / y)"
proof (cases "y = 0")
  case False
  assume "rng n y"
  then have b: "1 / 10 ^ n \<le> y" "y \<le> 10 ^ n" using False by (auto simp: rng_def)
  have "0 < (1 :: rat) / 10 ^ n" by simp
  then have y: "0 < y" using b(1) by linarith
  have "1 / 10 ^ n \<le> 1 / y" using b(2) y by (intro divide_left_mono) simp_all
  moreover have "1 / y \<le> 1 / (1 / 10 ^ n)" using b(1) y by (intro divide_left_mono) simp_all
  ultimately show ?thesis by (simp add: rng_def)
qed simp

lemma rng_divide: "rng m x \<Longrightarrow> rng n y \<Longrightarrow> rng (m + n) (x / y)"
  using rng_mult [OF _ rng_inverse] by fastforce

lemma rng_add:
  assumes "rng n x" "rng n y"
  shows "rng (n + 1) (x + y)"
proof (cases "x = 0 \<or> y = 0")
  case True
  then show ?thesis using assms by (auto intro: rng_mono)
next
  case False
  then have b: "1 / 10 ^ n \<le> x" "x \<le> 10 ^ n" "1 / 10 ^ n \<le> y" "y \<le> 10 ^ n"
    using assms by (auto simp: rng_def)
  define c where "c = (10 :: rat) ^ n"
  have c: "0 < c" "10 ^ (n + 1) = 10 * c" by (simp_all add: c_def)
  define e where "e = 1 / c"
  have i: "1 / 10 ^ (n + 1) = e / 10" "0 < e" using c by (simp_all add: e_def)
  have "1 / 10 ^ (n + 1) \<le> x + y" using b i(2) unfolding i(1) c_def [symmetric] e_def [symmetric] by linarith
  moreover have "x + y \<le> 10 ^ (n + 1)" using b c unfolding c_def [symmetric] by linarith
  ultimately show ?thesis unfolding rng_def by blast
qed

lemma rng_normal: "rng n x \<Longrightarrow> n \<le> 60 \<Longrightarrow> normal_range x"
proof -
  assume "rng n x" "n \<le> 60"
  then have "rng 60 x" by (rule rng_mono)
  moreover have "pow2 (- 1022) \<le> pow2 (- 300)" "pow2 300 \<le> pow2 1022" "pow2 1022 < pow2 1023"
    using pow2_Suc [of 1022] by (simp_all add: pow2_mono)
  moreover have "pow2 (- 300) \<le> 1 / 10 ^ 60" "10 ^ 60 \<le> pow2 300" by (simp_all add: pow2_def)
  ultimately show "normal_range x" unfolding rng_def normal_range_def by auto
qed

lemma near_error:
  assumes "near k x r" "k \<le> 8" "0 \<le> x"
  shows "\<bar>r - x\<bar> \<le> x / 2 ^ 49"
proof -
  have n: "near 8 x r" using assms by (rule near_mono)
  have k: "1 - 1 / 2 ^ 50 \<le> keep ^ 8" "1 \<le> keep ^ 8 * (1 + 1 / 2 ^ 49)"
    by (simp_all add: keep_def power_divide)
  have "x * (1 - 1 / 2 ^ 50) \<le> x * keep ^ 8" using k(1) assms(3) by (rule mult_left_mono)
  then have low: "x - x / 2 ^ 50 \<le> r" using n by (simp add: near_def right_diff_distrib)
  have r: "0 \<le> r" using n assms(3) by (rule near_nonneg)
  have "r * 1 \<le> r * (keep ^ 8 * (1 + 1 / 2 ^ 49))" using k(2) r by (rule mult_left_mono)
  also have "\<dots> \<le> x * (1 + 1 / 2 ^ 49)"
    using n unfolding mult.assoc [symmetric] by (intro mult_right_mono) (simp_all add: near_def)
  finally have "r \<le> x + x / 2 ^ 49" by (simp add: distrib_left)
  moreover have "x / 2 ^ 50 \<le> x / 2 ^ 49" using assms(3) by (intro divide_left_mono) simp_all
  ultimately show ?thesis using low unfolding abs_le_iff by linarith
qed

lemma near_between:
  assumes "near k x r" "k \<le> 8" "0 \<le> x"
  shows "x / 2 \<le> r" "r \<le> 2 * x"
proof -
  have "x / 2 ^ 49 \<le> x / 2 ^ 1" using assms(3) by (intro divide_left_mono) simp_all
  then have "- (x / 2) \<le> r - x" "r - x \<le> x / 2"
    using near_error [OF assms] unfolding abs_le_iff power_one_right by linarith+
  then show "x / 2 \<le> r" "r \<le> 2 * x" using assms(3) by linarith+
qed

lemma near_rng:
  assumes "near k x r" "k \<le> 8" "rng n x"
  shows "rng (n + 1) r"
proof (cases "x = 0")
  case True
  then have "r = 0"
    using assms(1) keep_pow(1) [of k] by (simp add: near_def mult_le_0_iff)
  then show ?thesis by simp
next
  case False
  then have b: "1 / 10 ^ n \<le> x" "x \<le> 10 ^ n" using assms(3) by (auto simp: rng_def)
  define c where "c = (10 :: rat) ^ n"
  have c: "0 < c" "10 ^ (n + 1) = 10 * c" by (simp_all add: c_def)
  define e where "e = 1 / c"
  have i: "1 / 10 ^ (n + 1) = e / 10" "0 < e" using c by (simp_all add: e_def)
  note nb = near_between [OF assms(1,2) rng_nonneg [OF assms(3)]]
  have "1 / 10 ^ (n + 1) \<le> r" using b nb i(2) unfolding i(1) c_def [symmetric] e_def [symmetric] by linarith
  moreover have "r \<le> 10 ^ (n + 1)" using b nb c unfolding c_def [symmetric] by linarith
  ultimately show ?thesis unfolding rng_def by blast
qed

lemma rnd_rng:
  assumes "rng n x" "n \<le> 60"
  obtains r where "rnd x = Fin r" "near 1 x r" "rng (n + 1) r"
  using rnd_near [OF rng_normal [OF assms]] near_rng [OF _ _ assms(1), of 1] by auto

subsection \<open>Distribution over three weights\<close>

text \<open>
  A quantity \<open>p\<close> is distributed over three weights the way \<^verbatim>\<open>DataProcessor\<close> does it: the sum of the
  weights, the quotient, three products.  Every part is the exact share up to four roundings.
\<close>

lemma distribute_near:
  assumes w: "rng 13 w1" "rng 13 w2" "rng 13 w3" "0 < w1 + w2 + w3" and p: "rng 7 p"
  obtains T c p1 p2 p3 where
    "Fin w1 + Fin w2 + Fin w3 = Fin T" "0 < T" "Fin p div Fin T = Fin c"
    "Fin w1 * Fin c = Fin p1" "Fin w2 * Fin c = Fin p2" "Fin w3 * Fin c = Fin p3"
    "near 4 (p * w1 / (w1 + w2 + w3)) p1" "near 4 (p * w2 / (w1 + w2 + w3)) p2"
    "near 4 (p * w3 / (w1 + w2 + w3)) p3" "rng 39 p1" "rng 39 p2" "rng 39 p3"
proof -
  let ?S = "w1 + w2 + w3"
  note nn = rng_nonneg [OF w(1)] rng_nonneg [OF w(2)] rng_nonneg [OF w(3)] rng_nonneg [OF p]
  obtain t where t: "rnd (w1 + w2) = Fin t" "near 1 (w1 + w2) t" "rng 15 t"
    using rnd_rng [OF rng_add [OF w(1,2)]] by auto
  have "rng 16 (t + w3)" using rng_add [OF t(3), of w3] rng_mono [OF w(3), of 15] by simp
  then obtain T where T: "rnd (t + w3) = Fin T" "near 1 (t + w3) T" "rng 17 T"
    using rnd_rng [of 16 "t + w3"] by auto
  have "near 1 ?S (t + w3)"
    using near_add [OF t(2), of w3 w3] near_mono [of 0 w3 w3 1] nn by simp
  from near_trans [OF this T(2)] have ST: "near 2 ?S T" by (simp add: numeral_2_eq_2)
  have pos: "0 < T" using ST w(4) by (rule near_pos)
  obtain c where c: "rnd (p / T) = Fin c" "near 1 (p / T) c" "rng 25 c"
    using rnd_rng [OF rng_divide [OF p T(3)]] by auto
  have "near (0 + 2) (p / ?S) (p / T)" using ST w(4) nn by (intro near_divide) simp_all
  from near_trans [OF this c(2)] have cS: "near 3 (p / ?S) c" by (simp add: numeral_3_eq_3)
  have part: "\<exists>q. Fin w * Fin c = Fin q \<and> near 4 (p * w / ?S) q \<and> rng 39 q" if w': "rng 13 w" for w
  proof -
    obtain q where q: "rnd (w * c) = Fin q" "near 1 (w * c) q" "rng 39 q"
      using rnd_rng [OF rng_mult [OF w' c(3)]] by auto
    have "near (0 + 3) (w * (p / ?S)) (w * c)"
      using cS rng_nonneg [OF w'] nn w(4) by (intro near_mult) simp_all
    from near_trans [OF this q(2)] have "near 4 (p * w / ?S) q" by (simp add: ac_simps)
    then show ?thesis using q by auto
  qed
  obtain q1 q2 q3 where
    "Fin w1 * Fin c = Fin q1 \<and> near 4 (p * w1 / ?S) q1 \<and> rng 39 q1"
    "Fin w2 * Fin c = Fin q2 \<and> near 4 (p * w2 / ?S) q2 \<and> rng 39 q2"
    "Fin w3 * Fin c = Fin q3 \<and> near 4 (p * w3 / ?S) q3 \<and> rng 39 q3"
    using part [OF w(1)] part [OF w(2)] part [OF w(3)] by blast
  moreover have "Fin w1 + Fin w2 + Fin w3 = Fin T" using t(1) T(1) by simp
  moreover have "Fin p div Fin T = Fin c" using c(1) pos by simp
  ultimately show thesis using pos by (intro that [of T c q1 q2 q3]) blast+
qed

text \<open>The weights themselves are rounded products.\<close>

lemma weight_near:
  assumes "rng 6 v" "rng 6 i"
  obtains w where "Fin v * Fin i = Fin w" "near 1 (v * i) w" "rng 13 w"
  using rnd_rng [OF rng_mult [OF assms]] by auto

lemma share_near:
  assumes w: "near 1 x1 w1" "near 1 x2 w2" "near 1 x3 w3" and x: "0 \<le> x1" "0 \<le> x2" "0 \<le> x3" "0 < x1 + x2 + x3"
    and p: "0 \<le> p" and j: "near 1 y w" "0 \<le> y"
  shows "near 2 (p * y / (x1 + x2 + x3)) (p * w / (w1 + w2 + w3))"
proof -
  have "near 1 (x1 + x2 + x3) (w1 + w2 + w3)" using w by (intro near_add)
  moreover have "near (0 + 1) (p * y) (p * w)" using p j by (intro near_mult) simp_all
  ultimately have "near ((0 + 1) + 1) (p * y / (x1 + x2 + x3)) (p * w / (w1 + w2 + w3))"
    using p j(2) x(4) by (intro near_divide) simp_all
  then show ?thesis by (simp add: numeral_2_eq_2)
qed

text \<open>
  The other order of operations, for the previous total energy: a product for each part, then the
  quotient by the rounded sum.
\<close>

lemma redistribute_near:
  assumes e: "rng 6 e1" "rng 6 e2" "rng 6 e3" "0 < e1 + e2 + e3" and p: "rng 6 p"
  obtains A q1 q2 q3 where
    "Fin e1 + Fin e2 + Fin e3 = Fin A" "0 < A" "Fin p * Fin e1 div Fin A = Fin q1"
    "Fin p * Fin e2 div Fin A = Fin q2" "Fin p * Fin e3 div Fin A = Fin q3"
    "near 4 (p * e1 / (e1 + e2 + e3)) q1" "near 4 (p * e2 / (e1 + e2 + e3)) q2"
    "near 4 (p * e3 / (e1 + e2 + e3)) q3" "rng 24 q1" "rng 24 q2" "rng 24 q3"
proof -
  let ?S = "e1 + e2 + e3"
  note nn = rng_nonneg [OF e(1)] rng_nonneg [OF e(2)] rng_nonneg [OF e(3)] rng_nonneg [OF p]
  obtain t where t: "rnd (e1 + e2) = Fin t" "near 1 (e1 + e2) t" "rng 8 t"
    using rnd_rng [OF rng_add [OF e(1,2)]] by auto
  have "rng 9 (t + e3)" using rng_add [OF t(3), of e3] rng_mono [OF e(3), of 8] by simp
  then obtain A where A: "rnd (t + e3) = Fin A" "near 1 (t + e3) A" "rng 10 A"
    using rnd_rng [of 9 "t + e3"] by auto
  have "near 1 ?S (t + e3)"
    using near_add [OF t(2), of e3 e3] near_mono [of 0 e3 e3 1] nn by simp
  from near_trans [OF this A(2)] have SA: "near 2 ?S A" by (simp add: numeral_2_eq_2)
  have pos: "0 < A" using SA e(4) by (rule near_pos)
  have part: "\<exists>q. Fin p * Fin x div Fin A = Fin q \<and> near 4 (p * x / ?S) q \<and> rng 24 q" if x: "rng 6 x" for x
  proof -
    obtain y where y: "rnd (p * x) = Fin y" "near 1 (p * x) y" "rng 13 y"
      using rnd_rng [OF rng_mult [OF p x]] by auto
    obtain q where q: "rnd (y / A) = Fin q" "near 1 (y / A) q" "rng 24 q"
      using rnd_rng [OF rng_divide [OF y(3) A(3)]] by auto
    have "near (1 + 2) (p * x / ?S) (y / A)"
      using y(2) SA e(4) nn rng_nonneg [OF x] by (intro near_divide) simp_all
    from near_trans [OF this q(2)] have "near 4 (p * x / ?S) q" by (simp add: eval_nat_numeral)
    then show ?thesis using y q pos by auto
  qed
  obtain q1 q2 q3 where
    "Fin p * Fin e1 div Fin A = Fin q1 \<and> near 4 (p * e1 / ?S) q1 \<and> rng 24 q1"
    "Fin p * Fin e2 div Fin A = Fin q2 \<and> near 4 (p * e2 / ?S) q2 \<and> rng 24 q2"
    "Fin p * Fin e3 div Fin A = Fin q3 \<and> near 4 (p * e3 / ?S) q3 \<and> rng 24 q3"
    using part [OF e(1)] part [OF e(2)] part [OF e(3)] by blast
  moreover have "Fin e1 + Fin e2 + Fin e3 = Fin A" using t(1) A(1) by simp
  ultimately show thesis using pos by (intro that [of A q1 q2 q3]) blast+
qed

lemma near_add_rnd:
  assumes "near j x r" "near k y s" "0 \<le> x" "0 \<le> y" "rng m r" "rng n s" "m \<le> 50" "n \<le> 50"
  obtains z where "Fin r + Fin s = Fin z" "near (max j k + 1) (x + y) z"
proof -
  have "rng 50 r" "rng 50 s" using assms(5-8) by (blast intro: rng_mono)+
  then have "rng 51 (r + s)" using rng_add [of 50 r s] by simp
  then obtain z where z: "rnd (r + s) = Fin z" "near 1 (r + s) z"
    using rnd_rng [of 51 "r + s"] by auto
  have "near (max j k) (x + y) (r + s)"
    using assms(1-4) by (intro near_add) (auto intro: near_mono)
  from near_trans [OF this z(2)] show thesis using z(1) that by simp
qed

text \<open>Three parts that are near their shares are near the whole.\<close>

lemma near_whole:
  assumes "near k (p * x1 / (x1 + x2 + x3)) q1" "near k (p * x2 / (x1 + x2 + x3)) q2"
    "near k (p * x3 / (x1 + x2 + x3)) q3" and "0 < x1 + x2 + x3"
  shows "near k p (q1 + q2 + q3)"
proof -
  let ?S = "x1 + x2 + x3"
  have "p * x1 / ?S + p * x2 / ?S + p * x3 / ?S = p * ?S / ?S"
    by (simp add: add_divide_distrib distrib_left)
  also have "\<dots> = p" using assms(4) by simp
  finally show ?thesis using near_add [OF near_add [OF assms(1,2)] assms(3)] by simp
qed

subsection \<open>Rounding to an integer\<close>

lemma qRound_near:
  assumes "0 \<le> x" "x \<le> 10 ^ 6"
  shows "\<bar>of_int (qRound (Fin x)) - x\<bar> \<le> 1 / 2 + 1 / 2 ^ 28"
proof -
  have "rng 7 (x + 1 / 2)" using assms by (simp add: rng_def)
  then obtain z where z: "rnd (x + 1 / 2) = Fin z" "near 1 (x + 1 / 2) z" using rnd_rng [of 7 "x + 1 / 2"] by auto
  have "\<bar>z - (x + 1 / 2)\<bar> \<le> (x + 1 / 2) / 2 ^ 49" using near_error [OF z(2)] assms by simp
  also have "\<dots> \<le> 1 / 2 ^ 28" using assms by (simp add: field_simps)
  finally have e: "z - (x + 1 / 2) \<le> 1 / 2 ^ 28" "- (z - (x + 1 / 2)) \<le> 1 / 2 ^ 28" by (simp_all only: abs_le_iff)
  have "0 \<le> z" using near_nonneg [OF z(2)] assms by simp
  then have "qRound (Fin x) = \<lfloor>z\<rfloor>" using assms z(1) by (simp add: qRound_def)
  moreover have "of_int \<lfloor>z\<rfloor> \<le> z" "z < of_int \<lfloor>z\<rfloor> + 1" by linarith+
  ultimately show ?thesis using e unfolding abs_le_iff by linarith
qed

end
