(* ===== verification/Data_Processor.thy ===== *)
theory Data_Processor
  imports Inverter Inverter_Settings Dbl_Error
begin

text \<open>
  \<^verbatim>\<open>data_processor.cpp\<close>: the measurements of an inverter become its D-Bus items; a three phase
  inverter reports no power and energy per phase, they are computed with voltage times current as
  weights.  The measurements are the structures of \<^verbatim>\<open>froniussolar_api.h\<close>; \<open>dbl\<close> is the
  correctly rounded arithmetic of the code, so the errors of the computation are part of the
  model (\<open>x div y\<close> is the division of two doubles).
\<close>

datatype api_error = NoError | NetworkError | ApiError

record solar_api_reply =
  raError :: api_error
  raErrorMessage :: string

record common_data = solar_api_reply +
  cdDeviceId :: string
  cdAcPower :: dbl
  cdAcCurrent :: dbl
  cdAcVoltage :: dbl
  cdAcFrequency :: dbl
  cdDcCurrent :: dbl
  cdDcVoltage :: dbl
  cdDayEnergy :: dbl
  cdYearEnergy :: dbl
  cdTotalEnergy :: dbl
  cdStatusCode :: int
  cdErrorCode :: int

record three_phases_data = solar_api_reply +
  tpDeviceId :: string
  tpAcCurrent1 :: dbl
  tpAcVoltage1 :: dbl
  tpAcCurrent2 :: dbl
  tpAcVoltage2 :: dbl
  tpAcCurrent3 :: dbl
  tpAcVoltage3 :: dbl

text \<open>The state of the processor is \<^verbatim>\<open>mPreviousTotalEnergy\<close>.\<close>

definition dp_new :: dbl where "dp_new = Fin (- 1)"

definition dp_getPhase :: "inverter_settings \<Rightarrow> 'a inverter_scheme \<Rightarrow> inverter_phase" where
  "dp_getPhase st iv = (if phaseCount (invInfo iv) > 1 then MultiPhase else phase st)"

text \<open>A single phase; \<open>None\<close> is the null pointer dereference for a phase setting other than 1 to 3.\<close>

definition dp_process_common ::
    "inverter_settings \<Rightarrow> ('b common_data_scheme) \<Rightarrow> 'a inverter_scheme \<Rightarrow> 'a inverter_scheme option" where
  "dp_process_common st data iv =
     (let iv = inv_produce (pi_setPower ''Ac'' (cdAcPower data)) iv;
          iv = inv_produce (pi_setTotalEnergy ''Ac'' (cdTotalEnergy data div Fin 1000)) iv;
          ph = dp_getPhase st iv
      in if ph \<noteq> MultiPhase then
           (case inv_getPowerInfo ph of
              None \<Rightarrow> None
            | Some li \<Rightarrow>
                let iv = inv_produce (pi_setCurrent li (cdAcCurrent data)) iv;
                    iv = inv_produce (pi_setVoltage li (cdAcVoltage data)) iv;
                    iv = inv_produce (pi_setPower li (pi_power ''Ac'' (invItems iv))) iv
                in Some (inv_produce (pi_setTotalEnergy li (pi_totalEnergy ''Ac'' (invItems iv))) iv))
         else Some iv)"

definition dp_getEnergyValue :: "inverter_settings \<Rightarrow> inverter_phase \<Rightarrow> items \<Rightarrow> dbl" where
  "dp_getEnergyValue st ph m =
     (case inv_getPowerInfo ph of
        None \<Rightarrow> Fin 0
      | Some pwi \<Rightarrow> let e = pi_totalEnergy pwi m in if isnormal e then e else getEnergy ph st)"

definition dp_updateEnergyValue ::
    "inverter_settings \<Rightarrow> dbl \<Rightarrow> inverter_phase \<Rightarrow> dbl \<Rightarrow> dbl \<Rightarrow> 'a inverter_scheme \<Rightarrow> 'a inverter_scheme" where
  "dp_updateEnergyValue st prev ph accumulatedEnergy energyDelta iv =
     (if prev < Fin 0 then iv
      else
        let phaseEnergy =
              (if Fin 0 < accumulatedEnergy
               then prev * dp_getEnergyValue st ph (invItems iv) div accumulatedEnergy
               else prev div of_integer (phaseCount (invInfo iv)))
        in case inv_getPowerInfo ph of
             None \<Rightarrow> iv
           | Some pwi \<Rightarrow> inv_produce (pi_setTotalEnergy pwi (phaseEnergy + energyDelta)) iv)"

text \<open>What the code does for each of the three phases.\<close>

definition dp_line ::
    "inverter_settings \<Rightarrow> dbl \<Rightarrow> dbl \<Rightarrow> dbl \<Rightarrow> dbl \<Rightarrow> string \<Rightarrow> inverter_phase \<Rightarrow> dbl \<Rightarrow> dbl \<Rightarrow> dbl \<Rightarrow>
     'a inverter_scheme \<Rightarrow> 'a inverter_scheme" where
  "dp_line st prev accumulatedEnergy powerCorrection energyCorrection li ph c v vi iv =
     (let iv = inv_produce (pi_setCurrent li c) iv;
          iv = inv_produce (pi_setVoltage li v) iv;
          iv = inv_produce (pi_setPower li (vi * powerCorrection)) iv
      in dp_updateEnergyValue st prev ph accumulatedEnergy (vi * energyCorrection) iv)"

definition dp_process_three ::
    "inverter_settings \<Rightarrow> ('b three_phases_data_scheme) \<Rightarrow> dbl \<times> 'a inverter_scheme \<Rightarrow> dbl \<times> 'a inverter_scheme" where
  "dp_process_three st data s =
     (let (prev, iv) = s;
          vi1 = tpAcVoltage1 data * tpAcCurrent1 data;
          vi2 = tpAcVoltage2 data * tpAcCurrent2 data;
          vi3 = tpAcVoltage3 data * tpAcCurrent3 data;
          totalEnergy = pi_totalEnergy ''Ac'' (invItems iv);
          energyDelta = (let d = totalEnergy - prev in if d < Fin 0 then Fin 0 else d);
          accumulatedEnergy = dp_getEnergyValue st PhaseL1 (invItems iv) + dp_getEnergyValue st PhaseL2 (invItems iv);
          (accumulatedEnergy, totalVi) =
            (if phaseCount (invInfo iv) > 2
             then (accumulatedEnergy + dp_getEnergyValue st PhaseL3 (invItems iv), vi1 + vi2 + vi3)
             else (accumulatedEnergy, vi1 + vi2));
          (powerCorrection, energyCorrection) =
            (if Fin 0 < totalVi then (pi_power ''Ac'' (invItems iv) div totalVi, energyDelta div totalVi)
             else (Fin 0, Fin 0));
          line = dp_line st prev accumulatedEnergy powerCorrection energyCorrection;
          iv = line ''Ac/L1'' PhaseL1 (tpAcCurrent1 data) (tpAcVoltage1 data) vi1 iv;
          iv = line ''Ac/L2'' PhaseL2 (tpAcCurrent2 data) (tpAcVoltage2 data) vi2 iv;
          iv = (if phaseCount (invInfo iv) > 2
                then line ''Ac/L3'' PhaseL3 (tpAcCurrent3 data) (tpAcVoltage3 data) vi3 iv else iv)
      in (totalEnergy, iv))"

definition dp_updateEnergySetting ::
    "item_store \<Rightarrow> items \<Rightarrow> inverter_phase \<Rightarrow> inverter_settings \<Rightarrow> inverter_settings" where
  "dp_updateEnergySetting store m ph st =
     (case inv_getPowerInfo ph of
        None \<Rightarrow> st
      | Some pwi \<Rightarrow> let e = pi_totalEnergy pwi m in if isnormal e then setEnergy store ph e st else st)"

definition dp_updateEnergySettings ::
    "item_store \<Rightarrow> 'a inverter_scheme \<Rightarrow> inverter_settings \<Rightarrow> inverter_settings" where
  "dp_updateEnergySettings store iv st =
     dp_updateEnergySetting store (invItems iv) PhaseL3
       (dp_updateEnergySetting store (invItems iv) PhaseL2
         (dp_updateEnergySetting store (invItems iv) PhaseL1 st))"

subsection \<open>What is published\<close>

definition as_published :: "dbl \<Rightarrow> dbl" where
  "as_published d = (if qIsFinite d then d else NaN)"

lemma as_published_Fin [simp]: "as_published (Fin x) = Fin x"
  by (simp add: as_published_def)

text \<open>The part of the previous total energy that a phase gets.\<close>

definition dp_share :: "inverter_settings \<Rightarrow> dbl \<Rightarrow> dbl \<Rightarrow> inverter_phase \<Rightarrow> int \<Rightarrow> items \<Rightarrow> dbl" where
  "dp_share st prev acc ph n m =
     (if Fin 0 < acc then prev * dp_getEnergyValue st ph m div acc else prev div of_integer n)"

lemma path_neq:
  "li @ ''/Power'' \<noteq> li' @ ''/Energy/Forward''" "li @ ''/Voltage'' \<noteq> li' @ ''/Energy/Forward''"
  "li @ ''/Current'' \<noteq> li' @ ''/Energy/Forward''" "li' @ ''/Energy/Forward'' \<noteq> li @ ''/Power''"
  "li' @ ''/Energy/Forward'' \<noteq> li @ ''/Voltage''" "li' @ ''/Energy/Forward'' \<noteq> li @ ''/Current''"
  by (auto dest: arg_cong [where f = last])

lemma dp_getEnergyValue_other:
  "getDouble (li @ ''/Energy/Forward'') m' = getDouble (li @ ''/Energy/Forward'') m \<Longrightarrow>
   inv_getPowerInfo ph = Some li \<Longrightarrow> dp_getEnergyValue st ph m' = dp_getEnergyValue st ph m"
  by (simp add: dp_getEnergyValue_def pi_totalEnergy_def)

lemma dp_line_items:
  assumes "inv_getPowerInfo ph = Some li"
  shows "getDouble p (invItems (dp_line st prev acc pc ec li ph c v vi iv)) =
    (if p = li @ ''/Energy/Forward'' then
       (if prev < Fin 0 then getDouble p (invItems iv)
        else as_published (dp_share st prev acc ph (phaseCount (invInfo iv)) (invItems iv) + vi * ec))
     else if p = li @ ''/Power'' then as_published (vi * pc)
     else if p = li @ ''/Voltage'' then as_published v
     else if p = li @ ''/Current'' then as_published c
     else getDouble p (invItems iv))"
  and "invInfo (dp_line st prev acc pc ec li ph c v vi iv) = invInfo iv"
proof -
  let ?iv = "inv_produce (pi_setPower li (vi * pc)) (inv_produce (pi_setVoltage li v) (inv_produce (pi_setCurrent li c) iv))"
  have e: "dp_getEnergyValue st ph (invItems ?iv) = dp_getEnergyValue st ph (invItems iv)"
    using assms by (intro dp_getEnergyValue_other) (simp_all add: power_info_defs path_neq)
  show "getDouble p (invItems (dp_line st prev acc pc ec li ph c v vi iv)) =
    (if p = li @ ''/Energy/Forward'' then
       (if prev < Fin 0 then getDouble p (invItems iv)
        else as_published (dp_share st prev acc ph (phaseCount (invInfo iv)) (invItems iv) + vi * ec))
     else if p = li @ ''/Power'' then as_published (vi * pc)
     else if p = li @ ''/Voltage'' then as_published v
     else if p = li @ ''/Current'' then as_published c
     else getDouble p (invItems iv))"
    using assms e unfolding dp_line_def dp_updateEnergyValue_def dp_share_def Let_def
    by (simp add: power_info_defs path_neq as_published_def)
  show "invInfo (dp_line st prev acc pc ec li ph c v vi iv) = invInfo iv"
    using assms by (simp add: dp_line_def dp_updateEnergyValue_def Let_def)
qed

lemma getPowerInfo_phases:
  "inv_getPowerInfo PhaseL1 = Some ''Ac/L1''" "inv_getPowerInfo PhaseL2 = Some ''Ac/L2''"
  "inv_getPowerInfo PhaseL3 = Some ''Ac/L3''"
  by (simp_all add: inv_getPowerInfo_def phases)

lemma dp_share_line:
  assumes "inv_getPowerInfo ph = Some li" "inv_getPowerInfo ph' = Some li'" "li \<noteq> li'"
  shows "dp_share st prev acc ph n (invItems (dp_line st' prev' acc' pc ec li' ph' c v vi iv)) =
    dp_share st prev acc ph n (invItems iv)"
  unfolding dp_share_def using assms
  by (subst dp_getEnergyValue_other [OF _ assms(1)]) (simp_all add: dp_line_items path_neq)

text \<open>All published values of the phases of a three phase inverter after a measurement.\<close>

definition vi_sum :: "'b three_phases_data_scheme \<Rightarrow> dbl" where
  "vi_sum data = tpAcVoltage1 data * tpAcCurrent1 data + tpAcVoltage2 data * tpAcCurrent2 data
     + tpAcVoltage3 data * tpAcCurrent3 data"

definition energy_sum :: "inverter_settings \<Rightarrow> items \<Rightarrow> dbl" where
  "energy_sum st m = dp_getEnergyValue st PhaseL1 m + dp_getEnergyValue st PhaseL2 m + dp_getEnergyValue st PhaseL3 m"

lemma dp_process_three_result:
  fixes iv :: "'a inverter_scheme" and data :: "'b three_phases_data_scheme"
    and st :: inverter_settings and prev :: dbl
  assumes "phaseCount (invInfo iv) > 2"
  defines "m \<equiv> invItems iv" and "T \<equiv> vi_sum data" and "A \<equiv> energy_sum st (invItems iv)"
  defines "pc \<equiv> (if Fin 0 < T then pi_power ''Ac'' m div T else Fin 0)"
    and "d \<equiv> pi_totalEnergy ''Ac'' m - prev"
  defines "ec \<equiv> (if Fin 0 < T then (if d < Fin 0 then Fin 0 else d) div T else Fin 0)"
  defines "m' \<equiv> invItems (snd (dp_process_three st data (prev, iv)))"
  shows "fst (dp_process_three st data (prev, iv)) = pi_totalEnergy ''Ac'' m"
    and "pi_power ''Ac/L1'' m' = as_published (tpAcVoltage1 data * tpAcCurrent1 data * pc)"
    and "pi_power ''Ac/L2'' m' = as_published (tpAcVoltage2 data * tpAcCurrent2 data * pc)"
    and "pi_power ''Ac/L3'' m' = as_published (tpAcVoltage3 data * tpAcCurrent3 data * pc)"
    and "pi_totalEnergy ''Ac/L1'' m' = (if prev < Fin 0 then pi_totalEnergy ''Ac/L1'' m else
      as_published (dp_share st prev A PhaseL1 (phaseCount (invInfo iv)) m + tpAcVoltage1 data * tpAcCurrent1 data * ec))"
    and "pi_totalEnergy ''Ac/L2'' m' = (if prev < Fin 0 then pi_totalEnergy ''Ac/L2'' m else
      as_published (dp_share st prev A PhaseL2 (phaseCount (invInfo iv)) m + tpAcVoltage2 data * tpAcCurrent2 data * ec))"
    and "pi_totalEnergy ''Ac/L3'' m' = (if prev < Fin 0 then pi_totalEnergy ''Ac/L3'' m else
      as_published (dp_share st prev A PhaseL3 (phaseCount (invInfo iv)) m + tpAcVoltage3 data * tpAcCurrent3 data * ec))"
    and "pi_power ''Ac'' m' = pi_power ''Ac'' m" "pi_totalEnergy ''Ac'' m' = pi_totalEnergy ''Ac'' m"
proof -
  let ?line = "dp_line st prev A pc ec"
  let ?iv1 = "?line ''Ac/L1'' PhaseL1 (tpAcCurrent1 data) (tpAcVoltage1 data)
    (tpAcVoltage1 data * tpAcCurrent1 data) iv"
  let ?iv2 = "?line ''Ac/L2'' PhaseL2 (tpAcCurrent2 data) (tpAcVoltage2 data)
    (tpAcVoltage2 data * tpAcCurrent2 data) ?iv1"
  let ?iv3 = "?line ''Ac/L3'' PhaseL3 (tpAcCurrent3 data) (tpAcVoltage3 data)
    (tpAcVoltage3 data * tpAcCurrent3 data) ?iv2"
  note gp = getPowerInfo_phases
  note items = dp_line_items [OF gp(1)] dp_line_items [OF gp(2)] dp_line_items [OF gp(3)]
  have res: "dp_process_three st data (prev, iv) = (pi_totalEnergy ''Ac'' m, ?iv3)"
    using assms(1)
    unfolding dp_process_three_def T_def A_def pc_def ec_def d_def m_def vi_sum_def energy_sum_def
    by (simp add: Let_def items(2,4) del: plus_dbl.simps minus_dbl_def)
  have share: "dp_share st prev A PhaseL2 n (invItems ?iv1) = dp_share st prev A PhaseL2 n m"
    "dp_share st prev A PhaseL3 n (invItems ?iv2) = dp_share st prev A PhaseL3 n m" for n
    by (simp_all add: dp_share_line [OF gp(2) gp(1)] dp_share_line [OF gp(3) gp(2)]
        dp_share_line [OF gp(3) gp(1)] m_def)
  have m': "m' = invItems ?iv3" by (simp add: m'_def res)
  show "fst (dp_process_three st data (prev, iv)) = pi_totalEnergy ''Ac'' m" by (simp add: res)
  show "pi_power ''Ac/L1'' m' = as_published (tpAcVoltage1 data * tpAcCurrent1 data * pc)"
    "pi_power ''Ac/L2'' m' = as_published (tpAcVoltage2 data * tpAcCurrent2 data * pc)"
    "pi_power ''Ac/L3'' m' = as_published (tpAcVoltage3 data * tpAcCurrent3 data * pc)"
    "pi_power ''Ac'' m' = pi_power ''Ac'' m" "pi_totalEnergy ''Ac'' m' = pi_totalEnergy ''Ac'' m"
    by (simp_all add: m' pi_power_def pi_totalEnergy_def items m_def)
  show "pi_totalEnergy ''Ac/L1'' m' = (if prev < Fin 0 then pi_totalEnergy ''Ac/L1'' m else
      as_published (dp_share st prev A PhaseL1 (phaseCount (invInfo iv)) m + tpAcVoltage1 data * tpAcCurrent1 data * ec))"
    "pi_totalEnergy ''Ac/L2'' m' = (if prev < Fin 0 then pi_totalEnergy ''Ac/L2'' m else
      as_published (dp_share st prev A PhaseL2 (phaseCount (invInfo iv)) m + tpAcVoltage2 data * tpAcCurrent2 data * ec))"
    "pi_totalEnergy ''Ac/L3'' m' = (if prev < Fin 0 then pi_totalEnergy ''Ac/L3'' m else
      as_published (dp_share st prev A PhaseL3 (phaseCount (invInfo iv)) m + tpAcVoltage3 data * tpAcCurrent3 data * ec))"
    by (simp_all add: m' pi_totalEnergy_def items share) (simp_all add: m_def)
qed

subsection \<open>Properties\<close>

lemma dp_process_common_info: "dp_process_common st data iv = Some iv' \<Longrightarrow> invInfo iv' = invInfo iv"
  by (auto simp: dp_process_common_def Let_def split: if_splits option.splits)

lemma dp_common_single_lemma:
  assumes "phaseCount (invInfo iv) \<le> 1" "inv_getPowerInfo (phase st) = Some li"
  obtains iv' where "dp_process_common st data iv = Some iv'"
    "getDouble ''Ac/Power'' (invItems iv') = as_published (cdAcPower data)"
    "getDouble ''Ac/Energy/Forward'' (invItems iv') = as_published (cdTotalEnergy data div Fin 1000)"
    "getDouble (li @ ''/Power'') (invItems iv') = as_published (cdAcPower data)"
    "getDouble (li @ ''/Energy/Forward'') (invItems iv') = as_published (cdTotalEnergy data div Fin 1000)"
    "getDouble (li @ ''/Current'') (invItems iv') = as_published (cdAcCurrent data)"
    "getDouble (li @ ''/Voltage'') (invItems iv') = as_published (cdAcVoltage data)"
proof -
  have li: "li = ''Ac/L1'' \<or> li = ''Ac/L2'' \<or> li = ''Ac/L3''" "phase st \<noteq> MultiPhase"
    using assms(2) by (auto simp: inv_getPowerInfo_def phases split: if_splits)
  from li(1) show thesis
    using assms li(2)
    by (elim disjE; intro that, simp_all add: dp_process_common_def Let_def dp_getPhase_def)
      (auto simp: power_info_defs as_published_def)
qed

text \<open>
  A measurement of a single phase inverter is published for the whole inverter and for the phase of
  the settings alike: power, energy (from Wh to kWh), current and voltage; a value that is not a
  finite number becomes an invalid item.
\<close>

theorem single_phase_values_copied:
  assumes "phaseCount (invInfo iv) \<le> 1" "inv_getPowerInfo (phase st) = Some li"
  shows "\<exists>iv'. dp_process_common st data iv = Some iv' \<and>
    pi_power ''Ac'' (invItems iv') = as_published (cdAcPower data) \<and>
    pi_power li (invItems iv') = as_published (cdAcPower data) \<and>
    pi_totalEnergy ''Ac'' (invItems iv') = as_published (cdTotalEnergy data div Fin 1000) \<and>
    pi_totalEnergy li (invItems iv') = as_published (cdTotalEnergy data div Fin 1000) \<and>
    pi_current li (invItems iv') = as_published (cdAcCurrent data) \<and>
    pi_voltage li (invItems iv') = as_published (cdAcVoltage data)"
  using dp_common_single_lemma [OF assms, of data] by (auto simp: power_info_defs)

definition demo_common :: common_data where
  "demo_common = \<lparr> raError = NoError, raErrorMessage = [], cdDeviceId = ''1'', cdAcPower = Fin 2300,
     cdAcCurrent = Fin 10, cdAcVoltage = Fin 230, cdAcFrequency = Fin 50, cdDcCurrent = Fin 7,
     cdDcVoltage = Fin 340, cdDayEnergy = Fin 1200, cdYearEnergy = NaN, cdTotalEnergy = Fin 250000,
     cdStatusCode = 7, cdErrorCode = 0 \<rparr>"

theorem single_phase_values_copied_witness:
  "\<exists>iv'. dp_process_common inverter_settings_new demo_common
        (inverter_new BaseInverter ''dbus-fronius'' ''1.0'' new_device_info 20) = Some iv' \<and>
    pi_power ''Ac'' (invItems iv') = as_published (Fin 2300) \<and>
    pi_power ''Ac/L1'' (invItems iv') = as_published (Fin 2300) \<and>
    pi_totalEnergy ''Ac'' (invItems iv') = as_published (Fin 250000 div Fin 1000) \<and>
    pi_totalEnergy ''Ac/L1'' (invItems iv') = as_published (Fin 250000 div Fin 1000) \<and>
    pi_current ''Ac/L1'' (invItems iv') = as_published (Fin 10) \<and>
    pi_voltage ''Ac/L1'' (invItems iv') = as_published (Fin 230)"
proof -
  have "phaseCount (invInfo (inverter_new BaseInverter ''dbus-fronius'' ''1.0'' new_device_info 20)) \<le> 1"
    by (simp add: inverter_new_def new_device_info_def)
  moreover have "inv_getPowerInfo (phase inverter_settings_new) = Some ''Ac/L1''"
    by (simp add: phase_def inverter_settings_new_def inv_getPowerInfo_def)
  ultimately have "\<exists>iv'. dp_process_common inverter_settings_new demo_common
        (inverter_new BaseInverter ''dbus-fronius'' ''1.0'' new_device_info 20) = Some iv' \<and>
    pi_power ''Ac'' (invItems iv') = as_published (cdAcPower demo_common) \<and>
    pi_power ''Ac/L1'' (invItems iv') = as_published (cdAcPower demo_common) \<and>
    pi_totalEnergy ''Ac'' (invItems iv') = as_published (cdTotalEnergy demo_common div Fin 1000) \<and>
    pi_totalEnergy ''Ac/L1'' (invItems iv') = as_published (cdTotalEnergy demo_common div Fin 1000) \<and>
    pi_current ''Ac/L1'' (invItems iv') = as_published (cdAcCurrent demo_common) \<and>
    pi_voltage ''Ac/L1'' (invItems iv') = as_published (cdAcVoltage demo_common)"
    by (rule single_phase_values_copied)
  then show ?thesis unfolding demo_common_def common_data.simps solar_api_reply.simps .
qed

text \<open>The part of \<open>p\<close> that the weight \<open>w\<close> of \<open>s\<close> gets, to a relative error of 2^-49.\<close>

definition share_of :: "rat \<Rightarrow> rat \<Rightarrow> rat \<Rightarrow> rat \<Rightarrow> bool" where
  "share_of p w s q \<longleftrightarrow> \<bar>q - p * w / s\<bar> \<le> p * w / s / 2 ^ 49"

lemma near_share_of: "near k (p * w / s) q \<Longrightarrow> k \<le> 8 \<Longrightarrow> 0 \<le> p \<Longrightarrow> 0 \<le> w \<Longrightarrow> 0 < s \<Longrightarrow> share_of p w s q"
  unfolding share_of_def by (rule near_error) simp_all

text \<open>The measurement of a three phase inverter with the given voltages and currents.\<close>

definition three_measured :: "rat list \<Rightarrow> 'b three_phases_data_scheme \<Rightarrow> bool" where
  "three_measured vis data \<longleftrightarrow> list_all (rng 6) vis \<and>
     map Fin vis = [tpAcVoltage1 data, tpAcCurrent1 data, tpAcVoltage2 data, tpAcCurrent2 data,
                    tpAcVoltage3 data, tpAcCurrent3 data]"

lemma weights_of_measurement:
  assumes "three_measured [v1, i1, v2, i2, v3, i3] data" "0 < v1 * i1 + v2 * i2 + v3 * i3"
  obtains w1 w2 w3 where
    "tpAcVoltage1 data * tpAcCurrent1 data = Fin w1" "tpAcVoltage2 data * tpAcCurrent2 data = Fin w2"
    "tpAcVoltage3 data * tpAcCurrent3 data = Fin w3" "near 1 (v1 * i1) w1" "near 1 (v2 * i2) w2"
    "near 1 (v3 * i3) w3" "rng 13 w1" "rng 13 w2" "rng 13 w3" "0 < w1 + w2 + w3"
proof -
  have r: "rng 6 v1" "rng 6 i1" "rng 6 v2" "rng 6 i2" "rng 6 v3" "rng 6 i3"
    using assms(1) by (simp_all add: three_measured_def)
  have d: "tpAcVoltage1 data = Fin v1" "tpAcCurrent1 data = Fin i1" "tpAcVoltage2 data = Fin v2"
    "tpAcCurrent2 data = Fin i2" "tpAcVoltage3 data = Fin v3" "tpAcCurrent3 data = Fin i3"
    using assms(1) by (auto simp: three_measured_def)
  obtain w1 where w1: "Fin v1 * Fin i1 = Fin w1" "near 1 (v1 * i1) w1" "rng 13 w1" using weight_near [OF r(1,2)] .
  obtain w2 where w2: "Fin v2 * Fin i2 = Fin w2" "near 1 (v2 * i2) w2" "rng 13 w2" using weight_near [OF r(3,4)] .
  obtain w3 where w3: "Fin v3 * Fin i3 = Fin w3" "near 1 (v3 * i3) w3" "rng 13 w3" using weight_near [OF r(5,6)] .
  have "near 1 (v1 * i1 + v2 * i2 + v3 * i3) (w1 + w2 + w3)" using w1 w2 w3 by (intro near_add)
  then have "0 < w1 + w2 + w3" using assms(2) by (rule near_pos)
  moreover have "tpAcVoltage1 data * tpAcCurrent1 data = Fin w1" "tpAcVoltage2 data * tpAcCurrent2 data = Fin w2"
    "tpAcVoltage3 data * tpAcCurrent3 data = Fin w3"
    by (simp_all only: d w1 w2 w3)
  ultimately show thesis using w1 w2 w3 by (intro that)
qed

lemma vis_nonneg:
  assumes "three_measured [v1, i1, v2, i2, v3, i3] data"
  shows "0 \<le> v1 * i1" "0 \<le> v2 * i2" "0 \<le> v3 * i3"
  using assms by (auto simp: three_measured_def intro!: mult_nonneg_nonneg dest: rng_nonneg)

text \<open>
  C34. The total power of a three phase inverter is distributed over the phases in proportion to voltage
  times current: for measurements that are zero or between a millionth and a million, not all zero,
  every published phase power is the exact share of the total power to a relative error of 2^-49, and
  their sum is the total power to the same precision.
\<close>

theorem phase_powers_are_shares:
  fixes iv :: "'a inverter_scheme" and data :: "'b three_phases_data_scheme"
    and st :: inverter_settings and prev :: dbl
  assumes "phaseCount (invInfo iv) > 2" "three_measured [v1, i1, v2, i2, v3, i3] data"
    and "0 < v1 * i1 + v2 * i2 + v3 * i3" "pi_power ''Ac'' (invItems iv) = Fin p" "rng 6 p"
  defines "m' \<equiv> invItems (snd (dp_process_three st data (prev, iv)))"
  shows "\<exists>p1 p2 p3. pi_power ''Ac/L1'' m' = Fin p1 \<and> pi_power ''Ac/L2'' m' = Fin p2 \<and>
    pi_power ''Ac/L3'' m' = Fin p3 \<and>
    share_of p (v1 * i1) (v1 * i1 + v2 * i2 + v3 * i3) p1 \<and>
    share_of p (v2 * i2) (v1 * i1 + v2 * i2 + v3 * i3) p2 \<and>
    share_of p (v3 * i3) (v1 * i1 + v2 * i2 + v3 * i3) p3 \<and>
    \<bar>p1 + p2 + p3 - p\<bar> \<le> p / 2 ^ 49"
proof -
  let ?S = "v1 * i1 + v2 * i2 + v3 * i3"
  note pos = assms(3) and nn = vis_nonneg [OF assms(2)] and p0 = rng_nonneg [OF assms(5)]
  obtain w1 w2 w3 where w: "tpAcVoltage1 data * tpAcCurrent1 data = Fin w1"
    "tpAcVoltage2 data * tpAcCurrent2 data = Fin w2" "tpAcVoltage3 data * tpAcCurrent3 data = Fin w3"
    and n: "near 1 (v1 * i1) w1" "near 1 (v2 * i2) w2" "near 1 (v3 * i3) w3"
    and r: "rng 13 w1" "rng 13 w2" "rng 13 w3" "0 < w1 + w2 + w3"
    using weights_of_measurement [OF assms(2) pos] .
  have p7: "rng 7 p" by (rule rng_mono [OF assms(5)]) simp
  obtain T c p1 p2 p3 where d: "Fin w1 + Fin w2 + Fin w3 = Fin T" "0 < T" "Fin p div Fin T = Fin c"
    "Fin w1 * Fin c = Fin p1" "Fin w2 * Fin c = Fin p2" "Fin w3 * Fin c = Fin p3"
    and q: "near 4 (p * w1 / (w1 + w2 + w3)) p1" "near 4 (p * w2 / (w1 + w2 + w3)) p2"
    "near 4 (p * w3 / (w1 + w2 + w3)) p3" and "rng 39 p1" "rng 39 p2" "rng 39 p3"
    using distribute_near [OF r p7] .
  have T: "vi_sum data = Fin T" by (simp only: vi_sum_def w d(1))
  have "pi_power ''Ac/L1'' m' = Fin p1" "pi_power ''Ac/L2'' m' = Fin p2" "pi_power ''Ac/L3'' m' = Fin p3"
    using d(2) by (simp_all only: m'_def dp_process_three_result(2-4) [OF assms(1)] w T assms(4) d(3-6)
        less_dbl.simps if_True as_published_Fin)
  moreover have s: "near 6 (p * (v1 * i1) / ?S) p1" "near 6 (p * (v2 * i2) / ?S) p2" "near 6 (p * (v3 * i3) / ?S) p3"
    using near_trans [OF share_near [OF n nn pos p0 n(1) nn(1)] q(1)]
      near_trans [OF share_near [OF n nn pos p0 n(2) nn(2)] q(2)]
      near_trans [OF share_near [OF n nn pos p0 n(3) nn(3)] q(3)] by simp_all
  moreover have "near 6 p (p1 + p2 + p3)" using s pos by (rule near_whole)
  ultimately show ?thesis
    using near_share_of [OF s(1)] near_share_of [OF s(2)] near_share_of [OF s(3)]
      near_error [where k = 6] nn p0 pos by (intro exI conjI) simp_all
qed

definition demo_inverter :: "rat \<Rightarrow> rat \<Rightarrow> inverter" where
  "demo_inverter p e =
     (let iv = inverter_new BaseInverter ''dbus-fronius'' ''1.0'' (new_device_info\<lparr> phaseCount := 3 \<rparr>) 20
      in inv_produce (pi_setTotalEnergy ''Ac'' (Fin e)) (inv_produce (pi_setPower ''Ac'' (Fin p)) iv))"

definition demo_data :: three_phases_data where
  "demo_data = \<lparr> raError = NoError, raErrorMessage = [], tpDeviceId = ''1'',
     tpAcCurrent1 = Fin 10, tpAcVoltage1 = Fin 230, tpAcCurrent2 = Fin 5, tpAcVoltage2 = Fin 231,
     tpAcCurrent3 = Fin 0, tpAcVoltage3 = Fin 229 \<rparr>"

lemma demo_simps:
  "phaseCount (invInfo (demo_inverter p e)) = 3"
  "pi_power ''Ac'' (invItems (demo_inverter p e)) = Fin p"
  "pi_totalEnergy ''Ac'' (invItems (demo_inverter p e)) = Fin e"
  "three_measured [230, 10, 231, 5, 229, 0] demo_data"
  by (simp_all add: demo_inverter_def Let_def inverter_new_def new_device_info_def power_info_defs
      demo_data_def three_measured_def rng_def)

text \<open>A new inverter has no energies of its phases; they come from the settings.\<close>

lemma new_inverter_no_energy:
  assumes "q \<in> {''Ac/L1/Energy/Forward'', ''Ac/L2/Energy/Forward'', ''Ac/L3/Energy/Forward''}"
  shows "item_value q (inverter_items process version info deviceInstance) = Invalid"
proof -
  have "item_value q (\<lambda>_. None) = Invalid" by (simp add: item_value_def)
  then show ?thesis
    using assms unfolding inverter_items_def Let_def
    by (elim insertE emptyE) (simp_all add: item_value_produceDouble pi_newPhase_def pi_new_def)
qed

lemma new_inverter_energy:
  assumes "ph \<in> {PhaseL1, PhaseL2, PhaseL3}"
  shows "dp_getEnergyValue st ph (invItems (demo_inverter p e)) = getEnergy ph st"
proof -
  have "item_value q (invItems (demo_inverter p e)) = Invalid"
    if q: "q \<in> {''Ac/L1/Energy/Forward'', ''Ac/L2/Energy/Forward'', ''Ac/L3/Energy/Forward''}" for q
  proof -
    have "q \<noteq> ''Ac/Energy/Forward''" "q \<noteq> ''Ac/Power''" "q \<noteq> ''Mgmt/Connection''" using q by auto
    then show ?thesis
      using new_inverter_no_energy [OF q]
      by (simp add: demo_inverter_def Let_def inverter_new_def updateConnectionItem_def
          item_value_produceDouble power_info_defs)
  qed
  note none = this [of "''Ac/L1/Energy/Forward''"] this [of "''Ac/L2/Energy/Forward''"]
    this [of "''Ac/L3/Energy/Forward''"]
  have "getDouble ''Ac/L1/Energy/Forward'' (invItems (demo_inverter p e)) = NaN"
    "getDouble ''Ac/L2/Energy/Forward'' (invItems (demo_inverter p e)) = NaN"
    "getDouble ''Ac/L3/Energy/Forward'' (invItems (demo_inverter p e)) = NaN"
    using none by (simp_all add: getDouble_def getDoubleOr_def)
  then show ?thesis
    using assms by (elim insertE emptyE) (simp_all add: dp_getEnergyValue_def getPowerInfo_phases pi_totalEnergy_def)
qed

theorem phase_powers_are_shares_witness:
  "\<exists>p1 p2 p3. pi_power ''Ac/L1'' (invItems (snd (dp_process_three inverter_settings_new demo_data
       (dp_new, demo_inverter 3000 1200)))) = Fin p1 \<and>
     pi_power ''Ac/L2'' (invItems (snd (dp_process_three inverter_settings_new demo_data
       (dp_new, demo_inverter 3000 1200)))) = Fin p2 \<and>
     pi_power ''Ac/L3'' (invItems (snd (dp_process_three inverter_settings_new demo_data
       (dp_new, demo_inverter 3000 1200)))) = Fin p3 \<and>
     share_of 3000 (230 * 10) (230 * 10 + 231 * 5 + 229 * 0) p1 \<and>
     share_of 3000 (231 * 5) (230 * 10 + 231 * 5 + 229 * 0) p2 \<and>
     share_of 3000 (229 * 0) (230 * 10 + 231 * 5 + 229 * 0) p3 \<and>
     \<bar>p1 + p2 + p3 - 3000\<bar> \<le> 3000 / 2 ^ 49"
  by (rule phase_powers_are_shares) (simp_all add: demo_simps, simp add: rng_def)



end
