(* ===== verification/Polling.thy ===== *)
theory Polling
  imports Inverter
begin

text \<open>
  What the polling engines of the Modbus inverters (\<^verbatim>\<open>sunspec_updater.cpp\<close>, \<^verbatim>\<open>sma_updater.cpp\<close>) see of
  their \<^verbatim>\<open>ModbusTcpClient\<close>: requests without an answer, the state of the connection, and the log of
  what they asked for and signalled.
\<close>

datatype request = PendingRead | PendingWrite

datatype link = LinkDown | LinkConnecting | LinkUp

datatype poll_out =
    ReadRegisters u8 u16 u16
  | WriteRegisters u8 u16 "u16 list"
  | ConnectToServer string
  | ConnectionLost
  | InverterModelChanged

definition lost_count :: "poll_out list \<Rightarrow> nat" where
  "lost_count out = length (filter (\<lambda>x. x = ConnectionLost) out)"

lemma lost_count_append [simp]: "lost_count (xs @ ys) = lost_count xs + lost_count ys"
  by (simp add: lost_count_def)

lemma lost_count_simps [simp]:
  "lost_count [] = 0" "lost_count [ConnectionLost] = 1" "lost_count [ReadRegisters i r n] = 0"
  "lost_count [WriteRegisters i r vs] = 0" "lost_count [ConnectToServer h] = 0" "lost_count [InverterModelChanged] = 0"
  by (simp_all add: lost_count_def)

end
