(* ===== verification/Sunspec_Updater.thy ===== *)
theory Sunspec_Updater
  imports Data_Processor Sunspec_Tools Polling
begin

text \<open>
  The polling engine of a Sunspec inverter (\<^verbatim>\<open>sunspec_updater.cpp\<close>): read the power limit, read
  power and voltage, write a new limit, wait.  The Modbus TCP client is the log of the requests, the
  list \<open>suPending\<close> of requests without an answer and the state \<open>suLink\<close> of its connection; what a
  device answers arrives with an event.  A step that dereferences a null pointer has no result.
\<close>

datatype su_mode = ReadPowerLimit | ReadPowerAndVoltage | WritePowerLimit | Idle

record sunspec_updater =
  suInverter :: inverter
  suSettings :: inverter_settings
  suTimer :: "int option"
  suPrevious :: dbl
  suState :: su_mode
  suPowerLimitPct :: dbl
  suRetryCount :: int
  suWriteRequested :: bool
  suPending :: "request list"
  suLink :: link
  suOut :: "poll_out list"

definition PowerLimitTimeout :: u16 where "PowerLimitTimeout = 120"

definition PowerLimitScale :: dbl where "PowerLimitScale = Fin 100"

definition su_emit :: "poll_out \<Rightarrow> sunspec_updater \<Rightarrow> sunspec_updater" where
  "su_emit x u = u\<lparr> suOut := suOut u @ [x] \<rparr>"

definition su_info :: "sunspec_updater \<Rightarrow> device_info" where
  "su_info u = invInfo (suInverter u)"

definition su_connectToServer :: "sunspec_updater \<Rightarrow> sunspec_updater" where
  "su_connectToServer u = su_emit (ConnectToServer (hostName (su_info u))) (u\<lparr> suLink := LinkConnecting \<rparr>)"

definition su_new :: "inverter \<Rightarrow> inverter_settings \<Rightarrow> sunspec_updater" where
  "su_new iv st = su_connectToServer
     \<lparr> suInverter = iv, suSettings = st, suTimer = None, suPrevious = dp_new, suState = Idle,
       suPowerLimitPct = Fin 100, suRetryCount = 0, suWriteRequested = False, suPending = [],
       suLink = LinkDown, suOut = [] \<rparr>"

subsection \<open>Requests and timer\<close>

definition su_readHoldingRegisters :: "u16 \<Rightarrow> u16 \<Rightarrow> sunspec_updater \<Rightarrow> sunspec_updater" where
  "su_readHoldingRegisters startRegister count u =
     su_emit (ReadRegisters (of_int (networkId (su_info u))) startRegister count)
       (u\<lparr> suPending := suPending u @ [PendingRead] \<rparr>)"

definition su_writeMultipleHoldingRegisters :: "u16 \<Rightarrow> u16 list \<Rightarrow> sunspec_updater \<Rightarrow> sunspec_updater" where
  "su_writeMultipleHoldingRegisters startReg values u =
     su_emit (WriteRegisters (of_int (networkId (su_info u))) startReg values)
       (u\<lparr> suPending := suPending u @ [PendingWrite] \<rparr>)"

definition su_startIdleTimer :: "sunspec_updater \<Rightarrow> sunspec_updater" where
  "su_startIdleTimer u = u\<lparr> suTimer := Some (if suState u = Idle then 1000 else 5000) \<rparr>"

definition su_startNextAction :: "su_mode \<Rightarrow> sunspec_updater \<Rightarrow> sunspec_updater" where
  "su_startNextAction state u0 =
     (let u = u0\<lparr> suState := state \<rparr>; info = su_info u
      in case state of
           ReadPowerLimit \<Rightarrow> su_readHoldingRegisters (immediateControlOffset info + 5) 5 u
         | ReadPowerAndVoltage \<Rightarrow>
             if retrievalMode info = ProtocolSunSpecFloat
             then su_readHoldingRegisters (inverterModelOffset info) 62 u
             else su_readHoldingRegisters (inverterModelOffset info) 52 u
         | WritePowerLimit \<Rightarrow>
             if suPowerLimitPct u < Fin 100 then
               (let pct = of_int (qRound (suPowerLimitPct u * powerLimitScale info))
                in su_writeMultipleHoldingRegisters (immediateControlOffset info + 5)
                     [pct, 0, PowerLimitTimeout, 0, 1] u)
             else su_writeMultipleHoldingRegisters (immediateControlOffset info + 9) [0] u
         | Idle \<Rightarrow> su_startIdleTimer u)"

definition su_handleError :: "sunspec_updater \<Rightarrow> sunspec_updater" where
  "su_handleError u =
     (let u = u\<lparr> suRetryCount := suRetryCount u + 1 \<rparr>;
          u = (if suRetryCount u > 5 then su_emit ConnectionLost (u\<lparr> suRetryCount := 0 \<rparr>) else u)
      in su_startIdleTimer u)"

definition su_getInitState :: "products \<Rightarrow> sunspec_updater \<Rightarrow> su_mode" where
  "su_getInitState pr u =
     (if productId (su_info u) = VE_PROD_ID_PV_INVERTER_FRONIUS pr \<or>
         productId (su_info u) = VE_PROD_ID_PV_INVERTER_ABB pr
      then ReadPowerLimit else ReadPowerAndVoltage)"

subsection \<open>Measurements\<close>

definition sunspec_status :: "int \<Rightarrow> int option" where
  "sunspec_status sunSpecState =
     (if sunSpecState = 1 then Some 0
      else if sunSpecState = 2 \<or> sunSpecState = 6 \<or> sunSpecState = 8 then Some 8
      else if sunSpecState = 3 then Some 3
      else if sunSpecState = 4 then Some 11
      else if sunSpecState = 5 then Some 12
      else if sunSpecState = 7 then Some 10
      else None)"

definition su_setInverterState :: "int \<Rightarrow> inverter \<Rightarrow> inverter" where
  "su_setInverterState sunSpecState iv =
     (case sunspec_status sunSpecState of
        None \<Rightarrow> inv_invalidateStatusCode iv
      | Some froniusState \<Rightarrow> inv_setStatusCode froniusState iv)"

definition su_updateSplitPhase :: "dbl \<Rightarrow> dbl \<Rightarrow> inverter \<Rightarrow> inverter" where
  "su_updateSplitPhase p energy iv =
     inv_produce (pi_setTotalEnergy ''Ac/L2'' energy) (inv_produce (pi_setTotalEnergy ''Ac/L1'' energy)
       (inv_produce (pi_setPower ''Ac/L2'' p) (inv_produce (pi_setPower ''Ac/L1'' p) iv)))"

text \<open>The members of the local structures that the code leaves uninitialised are not read.\<close>

definition su_common :: "dbl \<Rightarrow> dbl \<Rightarrow> dbl \<Rightarrow> dbl \<Rightarrow> common_data" where
  "su_common current p voltage energy =
     \<lparr> raError = NoError, raErrorMessage = [], cdDeviceId = [], cdAcPower = p,
       cdAcCurrent = current, cdAcVoltage = voltage, cdAcFrequency = NaN, cdDcCurrent = NaN,
       cdDcVoltage = NaN, cdDayEnergy = NaN, cdYearEnergy = NaN, cdTotalEnergy = energy,
       cdStatusCode = 0, cdErrorCode = 0 \<rparr>"

definition su_three :: "(nat \<Rightarrow> dbl) \<Rightarrow> (nat \<Rightarrow> dbl) \<Rightarrow> three_phases_data" where
  "su_three current voltage =
     \<lparr> raError = NoError, raErrorMessage = [], tpDeviceId = [], tpAcCurrent1 = current 1,
       tpAcVoltage1 = voltage 1, tpAcCurrent2 = current 2, tpAcVoltage2 = voltage 2,
       tpAcCurrent3 = current 3, tpAcVoltage3 = voltage 3 \<rparr>"

text \<open>What both register maps do with a measurement.\<close>

definition su_measured ::
    "inverter_settings \<Rightarrow> common_data \<Rightarrow> three_phases_data \<Rightarrow> dbl \<times> inverter \<Rightarrow> (dbl \<times> inverter) option" where
  "su_measured st cid tpid s =
     (case dp_process_common st cid (snd s) of
        None \<Rightarrow> None
      | Some iv \<Rightarrow> Some
          (if phaseCount (invInfo iv) > 1 then dp_process_three st tpid (fst s, iv)
           else if phase st = MultiPhase
           then (fst s, su_updateSplitPhase (cdAcPower cid div Fin 2) (cdTotalEnergy cid div Fin 2) iv)
           else (fst s, iv)))"

definition su_float_map ::
    "inverter_settings \<Rightarrow> u16 list \<Rightarrow> dbl \<times> inverter \<Rightarrow> (dbl \<times> inverter) option" where
  "su_float_map st values s =
     (let p = getFloat values 22;
          cid = su_common (getFloat values 2) p (getFloat values 16) (getFloat values 32);
          tpid = su_three (\<lambda>i. getFloat values (2 + 2 * i)) (\<lambda>i. getFloat values (14 + 2 * i))
      in map_option (\<lambda>(prev, iv). (prev, su_setInverterState (uint (reg_at values 48)) iv))
           (if qIsFinite p then su_measured st cid tpid s else Some s))"

definition su_int_map ::
    "inverter_settings \<Rightarrow> u16 list \<Rightarrow> dbl \<times> inverter \<Rightarrow> (dbl \<times> inverter) option" where
  "su_int_map st values s =
     (let p = getScaledValue values 14 1 15 True;
          cid = su_common (getScaledValue values 2 1 6 False) p
                  (getScaledValue values 10 1 13 False) (getScaledValue values 24 2 26 False);
          tpid = su_three (\<lambda>i. getScaledValue values (2 + i) 1 6 False)
                   (\<lambda>i. getScaledValue values (9 + i) 1 13 False)
      in map_option (\<lambda>(prev, iv). (prev, su_setInverterState (uint (reg_at values 38)) iv))
           (if qIsFinite p then su_measured st cid tpid s else Some s))"

text \<open>
  \<^verbatim>\<open>ReadPowerAndVoltage\<close>: the updater after the frame and the next state.  Every \<^verbatim>\<open>break\<close> of the code
  keeps the state, so that the registers are fetched again.
\<close>

definition su_readPowerAndVoltage ::
    "u16 list \<Rightarrow> sunspec_updater \<Rightarrow> (su_mode \<times> sunspec_updater) option" where
  "su_readPowerAndVoltage values u =
     (if values = [] then Some (suState u, u)
      else if \<not> inv_validateSunspecMonitorFrame (suInverter u) values then Some (suState u, u)
      else
        let modelId = uint (values ! 0); info = su_info u;
            mode = (if modelId > 103 then ProtocolSunSpecFloat else ProtocolSunSpecIntSf);
            float = (retrievalMode info = ProtocolSunSpecFloat)
        in if mode \<noteq> retrievalMode info \<or> modelId mod 10 \<noteq> phaseCount info
           then Some (Idle, su_emit InverterModelChanged u)
           else if length values \<noteq> (if float then 62 else 52) then Some (suState u, u)
           else map_option
             (\<lambda>(prev, iv). (if suWriteRequested u then WritePowerLimit else Idle,
                            u\<lparr> suPrevious := prev, suInverter := iv \<rparr>))
             ((if float then su_float_map else su_int_map) (suSettings u) values
                (suPrevious u, suInverter u)))"

definition su_limit_read :: "u16 list \<Rightarrow> device_info \<Rightarrow> dbl" where
  "su_limit_read values info =
     (if PowerLimitScale \<le> powerLimitScale info then
        (if values ! 4 = 1 then
           (if values ! 0 \<noteq> 0xFFFF
            then of_integer (uint (values ! 0)) * maxPower info div powerLimitScale info else NaN)
         else maxPower info)
      else NaN)"

definition su_readPowerLimit :: "u16 list \<Rightarrow> sunspec_updater \<Rightarrow> su_mode \<times> sunspec_updater" where
  "su_readPowerLimit values u =
     (if length values = 5
      then (ReadPowerAndVoltage,
            u\<lparr> suInverter := inv_setPowerLimit (su_limit_read values (su_info u)) (suInverter u) \<rparr>)
      else (suState u, u))"

text \<open>
  The answer of a read: an error, or registers.  The last branch of the code is the assertion that
  no other state reads.
\<close>

definition su_onReadCompleted ::
    "products \<Rightarrow> u16 list option \<Rightarrow> sunspec_updater \<Rightarrow> sunspec_updater option" where
  "su_onReadCompleted pr reply u =
     (case reply of
        None \<Rightarrow> Some (su_handleError u)
      | Some values \<Rightarrow>
          (let u = u\<lparr> suRetryCount := 0 \<rparr>
           in map_option (\<lambda>(nextState, u). su_startNextAction nextState u)
                (case suState u of
                   ReadPowerAndVoltage \<Rightarrow> su_readPowerAndVoltage values u
                 | ReadPowerLimit \<Rightarrow> Some (su_readPowerLimit values u)
                 | _ \<Rightarrow> Some (su_getInitState pr u, u))))"

definition su_onWriteCompleted :: "products \<Rightarrow> sunspec_updater \<Rightarrow> sunspec_updater" where
  "su_onWriteCompleted pr u =
     (let u = u\<lparr> suWriteRequested := False \<rparr> in su_startNextAction (su_getInitState pr u) u)"

definition su_onPowerLimitRequested :: "dbl \<Rightarrow> sunspec_updater \<Rightarrow> sunspec_updater" where
  "su_onPowerLimitRequested v u =
     (let info = su_info u
      in if powerLimitScale info < PowerLimitScale then u
         else if \<not> qIsFinite (inv_powerLimit (suInverter u)) then u
         else
           let u = u\<lparr> suPowerLimitPct := qBound (Fin 0) (v div maxPower info) (Fin 100) \<rparr>
           in if suTimer u \<noteq> None then
                (let u = u\<lparr> suTimer := None \<rparr>
                 in if suState u = Idle then su_startNextAction WritePowerLimit u
                    else (su_startNextAction (suState u) u)\<lparr> suWriteRequested := True \<rparr>)
              else u\<lparr> suWriteRequested := True \<rparr>)"

definition su_onConnected :: "products \<Rightarrow> sunspec_updater \<Rightarrow> sunspec_updater" where
  "su_onConnected pr u = su_startNextAction (su_getInitState pr u) u"

definition su_onDisconnected :: "products \<Rightarrow> sunspec_updater \<Rightarrow> sunspec_updater" where
  "su_onDisconnected pr u = su_handleError (u\<lparr> suState := su_getInitState pr u \<rparr>)"

definition su_onTimer :: "products \<Rightarrow> sunspec_updater \<Rightarrow> sunspec_updater" where
  "su_onTimer pr u =
     (if suLink u = LinkUp
      then su_startNextAction (if suState u = Idle then su_getInitState pr u else suState u) u
      else su_connectToServer u)"

definition su_onPhaseChanged :: "sunspec_updater \<Rightarrow> sunspec_updater" where
  "su_onPhaseChanged u =
     (if phaseCount (su_info u) > 1 then u
      else u\<lparr> suInverter := inv_produce (pi_resetValues ''Ac/L3'')
             (inv_produce (pi_resetValues ''Ac/L2'') (inv_produce (pi_resetValues ''Ac/L1'') (suInverter u))) \<rparr>)"

subsection \<open>Events\<close>

text \<open>
  What can happen: the answer or the error of the oldest request, the timer, the signals of the
  connection, a power limit from the D-Bus, a new phase setting.  \<open>None\<close> is a crash.
\<close>

datatype su_event =
    SuReadReply "u16 list option"
  | SuWriteReply
  | SuTimeout
  | SuConnected
  | SuDisconnected
  | SuPowerLimit dbl
  | SuPhase inverter_phase

fun su_enabled :: "sunspec_updater \<Rightarrow> su_event \<Rightarrow> bool" where
  "su_enabled u (SuReadReply _) = (\<exists>rs. suPending u = PendingRead # rs)"
| "su_enabled u SuWriteReply = (\<exists>rs. suPending u = PendingWrite # rs)"
| "su_enabled u SuTimeout = (suTimer u \<noteq> None)"
| "su_enabled u SuConnected = (suLink u = LinkConnecting)"
| "su_enabled u SuDisconnected = (suLink u \<noteq> LinkDown)"
| "su_enabled u _ = True"

fun su_step :: "products \<Rightarrow> sunspec_updater \<Rightarrow> su_event \<Rightarrow> sunspec_updater option" where
  "su_step pr u (SuReadReply r) = su_onReadCompleted pr r (u\<lparr> suPending := tl (suPending u) \<rparr>)"
| "su_step pr u SuWriteReply = Some (su_onWriteCompleted pr (u\<lparr> suPending := tl (suPending u) \<rparr>))"
| "su_step pr u SuTimeout = Some (su_onTimer pr (u\<lparr> suTimer := None \<rparr>))"
| "su_step pr u SuConnected = Some (su_onConnected pr (u\<lparr> suLink := LinkUp \<rparr>))"
| "su_step pr u SuDisconnected = Some (su_onDisconnected pr (u\<lparr> suLink := LinkDown \<rparr>))"
| "su_step pr u (SuPowerLimit v) = Some (su_onPowerLimitRequested v u)"
| "su_step pr u (SuPhase p) =
     Some (su_onPhaseChanged (u\<lparr> suSettings := (suSettings u)(''Phase'' := VInt p) \<rparr>))"

text \<open>
  The states an updater can get into.  With \<open>clean\<close> the connection breaks only when no request is
  pending, which the client sees to by finishing all of them on a socket error; without it the
  connect timer of the client may break the connection at any time.
\<close>

inductive su_reach :: "bool \<Rightarrow> products \<Rightarrow> inverter \<Rightarrow> inverter_settings \<Rightarrow> sunspec_updater \<Rightarrow> bool"
  for clean pr iv st where
  su_init: "su_reach clean pr iv st (su_new iv st)"
| su_next: "su_reach clean pr iv st u \<Longrightarrow> su_enabled u e \<Longrightarrow>
    (clean \<and> e = SuDisconnected \<longrightarrow> suPending u = []) \<Longrightarrow> su_step pr u e = Some u' \<Longrightarrow>
    su_reach clean pr iv st u'"

subsection \<open>What the operations touch\<close>

lemma su_emit_simps [simp]:
  "suInverter (su_emit x u) = suInverter u" "suSettings (su_emit x u) = suSettings u"
  "suTimer (su_emit x u) = suTimer u" "suPrevious (su_emit x u) = suPrevious u"
  "suState (su_emit x u) = suState u" "suPowerLimitPct (su_emit x u) = suPowerLimitPct u"
  "suRetryCount (su_emit x u) = suRetryCount u" "suWriteRequested (su_emit x u) = suWriteRequested u"
  "suPending (su_emit x u) = suPending u" "suLink (su_emit x u) = suLink u"
  "suOut (su_emit x u) = suOut u @ [x]"
  by (simp_all add: su_emit_def)

lemma su_request_simps [simp]:
  "suTimer (su_readHoldingRegisters r n u) = suTimer u" "suState (su_readHoldingRegisters r n u) = suState u"
  "suPending (su_readHoldingRegisters r n u) = suPending u @ [PendingRead]"
  "suLink (su_readHoldingRegisters r n u) = suLink u" "suInverter (su_readHoldingRegisters r n u) = suInverter u"
  "suSettings (su_readHoldingRegisters r n u) = suSettings u"
  "suTimer (su_writeMultipleHoldingRegisters r vs u) = suTimer u"
  "suState (su_writeMultipleHoldingRegisters r vs u) = suState u"
  "suPending (su_writeMultipleHoldingRegisters r vs u) = suPending u @ [PendingWrite]"
  "suLink (su_writeMultipleHoldingRegisters r vs u) = suLink u"
  "suInverter (su_writeMultipleHoldingRegisters r vs u) = suInverter u"
  "suSettings (su_writeMultipleHoldingRegisters r vs u) = suSettings u"
  by (simp_all add: su_readHoldingRegisters_def su_writeMultipleHoldingRegisters_def)

lemma su_startNextAction_simps [simp]:
  "suState (su_startNextAction s u) = s" "suLink (su_startNextAction s u) = suLink u"
  "suInverter (su_startNextAction s u) = suInverter u" "suSettings (su_startNextAction s u) = suSettings u"
  "suTimer (su_startNextAction s u) = (if s = Idle then Some 1000 else suTimer u)"
  "suPending (su_startNextAction s u) = suPending u @
    (case s of Idle \<Rightarrow> [] | WritePowerLimit \<Rightarrow> [PendingWrite] | _ \<Rightarrow> [PendingRead])"
  by (cases s; simp add: su_startNextAction_def su_startIdleTimer_def Let_def)+

lemma su_handleError_simps [simp]:
  "suState (su_handleError u) = suState u" "suLink (su_handleError u) = suLink u"
  "suInverter (su_handleError u) = suInverter u" "suPending (su_handleError u) = suPending u"
  "suSettings (su_handleError u) = suSettings u"
  "suTimer (su_handleError u) = Some (if suState u = Idle then 1000 else 5000)"
  by (simp_all add: su_handleError_def su_startIdleTimer_def Let_def)

lemma su_connect_simps [simp]:
  "suState (su_connectToServer u) = suState u" "suLink (su_connectToServer u) = LinkConnecting"
  "suInverter (su_connectToServer u) = suInverter u" "suPending (su_connectToServer u) = suPending u"
  "suTimer (su_connectToServer u) = suTimer u" "suSettings (su_connectToServer u) = suSettings u"
  by (simp_all add: su_connectToServer_def)

lemma su_getInitState_read [simp]:
  "su_getInitState pr u \<noteq> Idle" "su_getInitState pr u \<noteq> WritePowerLimit"
  "(case su_getInitState pr u of ReadPowerLimit \<Rightarrow> c | ReadPowerAndVoltage \<Rightarrow> c | WritePowerLimit \<Rightarrow> b | Idle \<Rightarrow> a) = c"
  by (simp_all add: su_getInitState_def)

lemma su_readPowerAndVoltage_frame:
  "su_readPowerAndVoltage values u = Some (s, u') \<Longrightarrow>
    suTimer u' = suTimer u \<and> suPending u' = suPending u \<and> suLink u' = suLink u \<and> suSettings u' = suSettings u"
  by (auto simp: su_readPowerAndVoltage_def Let_def split: if_splits)

lemma su_readPowerLimit_frame:
  "su_readPowerLimit values u = (s, u') \<Longrightarrow>
    suTimer u' = suTimer u \<and> suPending u' = suPending u \<and> suLink u' = suLink u \<and> suSettings u' = suSettings u"
  by (auto simp: su_readPowerLimit_def split: if_splits)

text \<open>After an answer the engine has a request again or the timer.\<close>

lemma su_onReadCompleted_cases:
  assumes "su_onReadCompleted pr r u = Some u'"
  obtains "u' = su_handleError u" "r = None"
  | s u1 where "u' = su_startNextAction s u1" "r \<noteq> None" "suTimer u1 = suTimer u"
      "suPending u1 = suPending u" "suLink u1 = suLink u" "suSettings u1 = suSettings u"
proof (cases r)
  case None
  then show thesis using assms that(1) by (simp add: su_onReadCompleted_def)
next
  case (Some vs)
  then obtain s u1 where u1: "u' = su_startNextAction s u1" and
    "(case suState u of
        ReadPowerAndVoltage \<Rightarrow> su_readPowerAndVoltage vs (u\<lparr> suRetryCount := 0 \<rparr>)
      | ReadPowerLimit \<Rightarrow> Some (su_readPowerLimit vs (u\<lparr> suRetryCount := 0 \<rparr>))
      | _ \<Rightarrow> Some (su_getInitState pr (u\<lparr> suRetryCount := 0 \<rparr>), u\<lparr> suRetryCount := 0 \<rparr>)) = Some (s, u1)"
    using assms by (auto simp: su_onReadCompleted_def Let_def)
  then have "suTimer u1 = suTimer u \<and> suPending u1 = suPending u \<and> suLink u1 = suLink u \<and> suSettings u1 = suSettings u"
    by (auto split: su_mode.splits dest: su_readPowerAndVoltage_frame su_readPowerLimit_frame)
  then show thesis using that(2) [OF u1] Some by simp
qed

subsection \<open>Progress\<close>

definition su_alive :: "sunspec_updater \<Rightarrow> bool" where
  "su_alive u \<longleftrightarrow> suTimer u \<noteq> None \<or> suPending u \<noteq> [] \<or> suLink u = LinkConnecting"

lemma su_alive_intros [simp]:
  "su_alive (su_startNextAction s u)" "su_alive (su_handleError u)" "su_alive (su_connectToServer u)"
  "su_alive (u\<lparr> suWriteRequested := b \<rparr>) = su_alive u" "su_alive (u\<lparr> suPowerLimitPct := p \<rparr>) = su_alive u"
  "su_alive (u\<lparr> suInverter := iv \<rparr>) = su_alive u" "su_alive (u\<lparr> suSettings := st \<rparr>) = su_alive u"
  by (cases s; simp add: su_alive_def) (simp_all add: su_alive_def)

lemma su_step_alive:
  assumes "su_step pr u e = Some u'" "su_alive u"
  shows "su_alive u'"
proof (cases e)
  case (SuReadReply r)
  then show ?thesis using assms by (auto elim!: su_onReadCompleted_cases)
next
  case (SuPowerLimit v)
  then show ?thesis using assms by (auto simp: su_onPowerLimitRequested_def Let_def)
qed (use assms in \<open>auto simp: su_onWriteCompleted_def Let_def su_onTimer_def su_onConnected_def
  su_onDisconnected_def su_onPhaseChanged_def\<close>)

subsection \<open>One request at a time\<close>

text \<open>Exactly one of: a pending request that fits the state, the timer, a connection attempt.\<close>

definition su_waits :: "sunspec_updater \<Rightarrow> bool" where
  "su_waits u \<longleftrightarrow> suTimer u = None \<and>
     (suPending u = [PendingRead] \<and> suState u \<in> {ReadPowerLimit, ReadPowerAndVoltage} \<or>
      suPending u = [PendingWrite] \<and> suState u = WritePowerLimit)"

definition su_rests :: "sunspec_updater \<Rightarrow> bool" where
  "su_rests u \<longleftrightarrow> suTimer u \<noteq> None \<and> suPending u = []"

definition su_one :: "sunspec_updater \<Rightarrow> bool" where
  "su_one u \<longleftrightarrow> (if suLink u = LinkConnecting then suTimer u = None \<and> suPending u = []
                 else su_waits u \<or> su_rests u)"

lemma su_one_start:
  "suTimer u = None \<Longrightarrow> suPending u = [] \<Longrightarrow> suLink u \<noteq> LinkConnecting \<Longrightarrow> su_one (su_startNextAction s u)"
  by (cases s) (simp_all add: su_one_def su_waits_def su_rests_def)

lemma su_one_error:
  "suPending u = [] \<Longrightarrow> suLink u \<noteq> LinkConnecting \<Longrightarrow> su_one (su_handleError u)"
  by (simp add: su_one_def su_rests_def)

lemma su_one_connect: "suTimer u = None \<Longrightarrow> suPending u = [] \<Longrightarrow> su_one (su_connectToServer u)"
  by (simp add: su_one_def)

lemma su_one_frame [simp]:
  "su_one (u\<lparr> suWriteRequested := b \<rparr>) = su_one u" "su_one (u\<lparr> suPowerLimitPct := p \<rparr>) = su_one u"
  "su_one (u\<lparr> suInverter := iv \<rparr>) = su_one u" "su_one (u\<lparr> suSettings := st \<rparr>) = su_one u"
  by (simp_all add: su_one_def su_waits_def su_rests_def)

lemma su_one_pending:
  assumes "su_one u" "suPending u = r # rs"
  shows "rs = []" "suTimer u = None" "suLink u \<noteq> LinkConnecting"
    "suState u = WritePowerLimit \<longleftrightarrow> r = PendingWrite" "suState u \<noteq> Idle"
  using assms by (auto simp: su_one_def su_waits_def su_rests_def split: if_splits)

lemma su_step_one:
  assumes "su_one u" "su_enabled u e" "e = SuDisconnected \<longrightarrow> suPending u = []" "su_step pr u e = Some u'"
  shows "su_one u'"
proof (cases e)
  case (SuReadReply r)
  then obtain rs where "suPending u = PendingRead # rs" using assms(2) by auto
  note p = this su_one_pending [OF assms(1) this]
  show ?thesis
    using assms(4) p unfolding SuReadReply su_step.simps
    by (elim su_onReadCompleted_cases) (auto intro!: su_one_start su_one_error)
next
  case SuWriteReply
  then obtain rs where "suPending u = PendingWrite # rs" using assms(2) by auto
  note p = this su_one_pending [OF assms(1) this]
  then show ?thesis
    using assms(4) p SuWriteReply by (auto simp: su_onWriteCompleted_def Let_def intro!: su_one_start)
next
  case SuTimeout
  then have "suPending u = []" "suLink u \<noteq> LinkConnecting"
    using assms(1,2) by (auto simp: su_one_def su_waits_def su_rests_def split: if_splits)
  then show ?thesis
    using assms(4) SuTimeout
    by (auto simp: su_onTimer_def intro!: su_one_start su_one_connect)
next
  case (SuPowerLimit v)
  then show ?thesis
    using assms(1,4) by (auto simp: su_onPowerLimitRequested_def Let_def intro!: su_one_start)
      (auto simp: su_one_def su_waits_def su_rests_def split: if_splits)
next
  case SuConnected
  then show ?thesis
    using assms(1,2,4) by (auto simp: su_onConnected_def su_one_def [of u] intro!: su_one_start)
next
  case SuDisconnected
  then show ?thesis
    using assms(3,4) by (auto simp: su_onDisconnected_def intro!: su_one_error)
next
  case (SuPhase p)
  then show ?thesis using assms(1,4) by (auto simp: su_onPhaseChanged_def)
qed

lemma su_reach_one: "su_reach True pr iv st u \<Longrightarrow> su_one u"
proof (induction rule: su_reach.induct)
  case su_init
  show ?case by (simp add: su_new_def su_one_def)
qed (auto intro: su_step_one)

lemma su_reach_alive: "su_reach clean pr iv st u \<Longrightarrow> su_alive u"
proof (induction rule: su_reach.induct)
  case su_init
  show ?case by (simp add: su_new_def)
qed (auto intro: su_step_alive)

subsection \<open>Errors\<close>

interpretation su_errors: error_counter 6 su_handleError suRetryCount "\<lambda>u. lost_count (suOut u)"
  by unfold_locales (simp_all add: su_handleError_def su_startIdleTimer_def Let_def)

text \<open>A crash needs a single phase inverter whose phase setting is not one of the enumeration.\<close>

lemma su_measured_ok:
  assumes "phaseCount (invInfo (snd s)) > 1 \<or> phase st \<in> {MultiPhase, PhaseL1, PhaseL2, PhaseL3}"
  shows "su_measured st cid tpid s \<noteq> None"
proof -
  have "dp_process_common st cid (snd s) \<noteq> None"
    using assms by (auto simp: dp_process_common_def Let_def dp_getPhase_def inv_getPowerInfo_def)
  then show ?thesis by (auto simp: su_measured_def)
qed

lemma su_step_ok:
  assumes "phaseCount (su_info u) > 1 \<or> phase (suSettings u) \<in> {MultiPhase, PhaseL1, PhaseL2, PhaseL3}"
  shows "su_step pr u e \<noteq> None"
proof (cases e)
  case (SuReadReply r)
  have "su_float_map (suSettings u) vs (p, suInverter u) \<noteq> None" "su_int_map (suSettings u) vs (p, suInverter u) \<noteq> None" for vs p
    using assms su_measured_ok [of "(p, suInverter u)" "suSettings u"]
    by (auto simp: su_float_map_def su_int_map_def Let_def su_info_def)
  then have "su_readPowerAndVoltage vs (u\<lparr> suPending := ps, suRetryCount := 0 \<rparr>) \<noteq> None" for vs ps
    by (auto simp: su_readPowerAndVoltage_def Let_def)
  then show ?thesis
    by (auto simp: SuReadReply su_onReadCompleted_def Let_def split: option.split su_mode.split)
qed simp_all

subsection \<open>The power limit\<close>

text \<open>An inverter with a maximum power of \<open>m\<close> whose limiter has \<open>s\<close> steps.\<close>

definition limiter :: "rat \<Rightarrow> int \<Rightarrow> device_info \<Rightarrow> bool" where
  "limiter m s info \<longleftrightarrow> maxPower info = Fin m \<and> powerLimitScale info = Fin (of_int s) \<and>
     1 \<le> m \<and> m \<le> 10 ^ 6 \<and> 100 \<le> s \<and> s < 65535"

definition limit_register :: "device_info \<Rightarrow> dbl \<Rightarrow> int" where
  "limit_register info v = qRound (qBound (Fin 0) (v div maxPower info) (Fin 100) * powerLimitScale info)"

lemma limiter_rng:
  assumes "limiter m s info"
  shows "rng 6 m" "rng 5 (of_int s)" "0 < m" "0 < s"
proof -
  have "(of_int s :: rat) \<le> of_int 65535" "of_int 1 \<le> (of_int s :: rat)"
    using assms unfolding limiter_def of_int_le_iff by linarith+
  then show "rng 5 (of_int s)" by (simp add: rng_def)
  show "rng 6 m" "0 < m" "0 < s" using assms by (auto simp: limiter_def rng_def)
qed

lemma limit_register_lemma:
  assumes "limiter m s info" "rng 6 x" "x \<le> m"
  shows "0 \<le> limit_register info (Fin x)" "limit_register info (Fin x) \<le> s"
    "\<bar>of_int (limit_register info (Fin x)) - x * of_int s / m\<bar> \<le> 51 / 100"
    "qBound (Fin 0) (Fin x div maxPower info) (Fin 100) < Fin 100"
proof -
  note l = limiter_rng [OF assms(1)]
  have d: "maxPower info = Fin m" "powerLimitScale info = Fin (of_int s)" "s < 65535"
    using assms(1) by (auto simp: limiter_def)
  have x: "0 \<le> x" "0 \<le> x / m" "x / m \<le> of_int 1" using rng_nonneg [OF assms(2)] assms(3) l(3) by simp_all
  obtain q where q: "rnd (x / m) = Fin q" "0 \<le> q" "q \<le> of_int 1" using rnd_le_int [OF x(2,3)] by auto
  obtain q' where q': "rnd (x / m) = Fin q'" "near 1 (x / m) q'" "rng 13 q'"
    using rnd_rng [OF rng_divide [OF assms(2) l(1)]] by auto
  then have near_q: "near 1 (x / m) q" "rng 13 q" using q(1) by simp_all
  have bound: "qBound (Fin 0) (Fin x div maxPower info) (Fin 100) = Fin q"
    using l(3) q by (simp add: d qBound_def qMin_def qMax_def)
  then show "qBound (Fin 0) (Fin x div maxPower info) (Fin 100) < Fin 100" using q(3) by simp
  have qs: "0 \<le> q * of_int s" "q * of_int s \<le> of_int s"
    using q l(4) by (simp_all add: mult_left_le_one_le)
  obtain y where y: "rnd (q * of_int s) = Fin y" "0 \<le> y" "y \<le> of_int s"
    using rnd_le_int [OF qs] d(3) by auto
  obtain y' where y': "rnd (q * of_int s) = Fin y'" "near 1 (q * of_int s) y'" "rng 19 y'"
    using rnd_rng [OF rng_mult [OF near_q(2) l(2)]] by auto
  have near_y: "near 1 (q * of_int s) y" using y(1) y'(1,2) by simp
  have r: "limit_register info (Fin x) = qRound (Fin y)"
    unfolding limit_register_def bound d(2) by (simp add: y(1))
  show "0 \<le> limit_register info (Fin x)" "limit_register info (Fin x) \<le> s"
    using qRound_le [OF y(2,3)] d(3) by (simp_all add: r)
  have "near (1 + 0) (x / m * of_int s) (q * of_int s)"
    using near_q(1) x(2) l(4) by (intro near_mult) simp_all
  from near_trans [OF this near_y] have n2: "near 2 (x / m * of_int s) y" by (simp add: numeral_2_eq_2)
  have xs: "0 \<le> x / m * of_int s" "x / m * of_int s \<le> 65535"
  proof -
    have "(of_int s :: rat) \<le> of_int 65535" using d(3) by (simp only: of_int_le_iff)
    then have "x / m * of_int s \<le> 1 * 65535" using x(2,3) l(4) by (intro mult_mono) simp_all
    then show "x / m * of_int s \<le> 65535" by simp
  qed (rule mult_nonneg_nonneg, use x(2) l(4) in simp_all)
  have e1: "\<bar>y - x / m * of_int s\<bar> \<le> 1 / 2 ^ 28"
  proof -
    have "x / m * of_int s / 2 ^ 49 \<le> 1 / 2 ^ 28" using xs by (simp add: field_simps)
    then show ?thesis using near_error [OF n2 _ xs(1)] by simp
  qed
  have "y \<le> 10 ^ 6" using y(3) xs d(3) of_int_le_iff [of s 65535, where 'a = rat] by simp
  from qRound_near [OF y(2) this]
  have e2: "\<bar>of_int (qRound (Fin y)) - y\<bar> \<le> 1 / 2 + 1 / 2 ^ 28" .
  have "x / m * of_int s = x * of_int s / m" by simp
  moreover have "1 / 2 + 1 / 2 ^ 28 + 1 / 2 ^ 28 \<le> (51 / 100 :: rat)" by simp
  ultimately show "\<bar>of_int (limit_register info (Fin x)) - x * of_int s / m\<bar> \<le> 51 / 100"
    using e1 e2 unfolding r abs_le_iff by linarith
qed

text \<open>Reading back a register of the limiter.\<close>

lemma limit_read_register:
  assumes "limiter m s info" "0 \<le> r" "r \<le> s"
  shows "\<exists>b. su_limit_read [of_int r, 0, t, 0, 1] info = Fin b \<and>
    \<bar>b - of_int r * (m / of_int s)\<bar> \<le> 1 / 100 * (m / of_int s)"
proof -
  note l = limiter_rng [OF assms(1)]
  have d: "maxPower info = Fin m" "powerLimitScale info = Fin (of_int s)" "s < 65535" "100 \<le> s"
    using assms(1) by (auto simp: limiter_def)
  have u: "uint (of_int r :: u16) = r"
    using assms(2,3) d(3) by (simp add: unsigned_of_int take_bit_int_eq_self_iff)
  have nf: "(of_int r :: u16) \<noteq> 0xFFFF"
  proof
    assume "(of_int r :: u16) = 0xFFFF"
    then have "r = uint (0xFFFF :: u16)" using u by simp
    then show False using assms(3) d(3) by simp
  qed
  have "of_int 100 \<le> (of_int s :: rat)" using d(4) by (simp only: of_int_le_iff)
  then have sc: "PowerLimitScale \<le> powerLimitScale info" using d(4) by (simp add: d(2) PowerLimitScale_def)
  have r5: "(of_int r :: rat) \<le> of_int 65535" using assms(3) d(3) unfolding of_int_le_iff by linarith
  have rr: "rng 5 (of_int r)"
  proof (cases "r = 0")
    case False
    then have "(of_int 1 :: rat) \<le> of_int r" using assms(2) unfolding of_int_le_iff by linarith
    then show ?thesis using r5 by (simp add: rng_def)
  qed simp
  obtain a where a: "rnd (of_int r * m) = Fin a" "near 1 (of_int r * m) a" "rng 12 a"
    using rnd_rng [OF rng_mult [OF rr l(1)]] by auto
  obtain b where b: "rnd (a / of_int s) = Fin b" "near 1 (a / of_int s) b"
    using rnd_rng [OF rng_divide [OF a(3) l(2)]] by auto
  define step where "step = m / (of_int s :: rat)"
  have step: "0 < step" "0 \<le> of_int r * step" using l(3,4) assms(2) by (simp_all add: step_def)
  have "near (1 + 0) (of_int r * m / of_int s) (a / of_int s)"
    using a(2) l(3,4) assms(2) by (intro near_divide) simp_all
  from near_trans [OF this b(2)] have "near 2 (of_int r * step) b" by (simp add: numeral_2_eq_2 step_def)
  from near_error [OF this _ step(2)] have "\<bar>b - of_int r * step\<bar> \<le> of_int r / 2 ^ 49 * step" by simp
  also have "\<dots> \<le> 1 / 100 * step" using r5 step(1) by (intro mult_right_mono) (simp_all add: field_simps)
  finally have "\<bar>b - of_int r * step\<bar> \<le> 1 / 100 * step" .
  moreover have "of_integer r = Fin (of_int r)" using assms(2,3) d(3) by (intro of_integer_small) simp
  then have "su_limit_read [of_int r, 0, t, 0, 1] info = Fin b"
    using sc nf a(1) b(1) l(4) u by (simp add: su_limit_read_def d(1,2))
  ultimately show ?thesis by (simp add: step_def)
qed

text \<open>Asking for a limit while the engine waits writes it at once.\<close>

definition limiting :: "rat \<Rightarrow> int \<Rightarrow> sunspec_updater \<Rightarrow> bool" where
  "limiting m s u \<longleftrightarrow> limiter m s (su_info u) \<and> qIsFinite (inv_powerLimit (suInverter u)) \<and>
     suTimer u \<noteq> None \<and> suState u = Idle"

lemma limiting_write:
  assumes "limiting m s u" "qBound (Fin 0) (v div Fin m) (Fin 100) < Fin 100"
  shows "suOut (su_onPowerLimitRequested v u) = suOut u @ [WriteRegisters (of_int (networkId (su_info u)))
    (immediateControlOffset (su_info u) + 5) [of_int (limit_register (su_info u) v), 0, PowerLimitTimeout, 0, 1]]"
proof -
  have d: "maxPower (su_info u) = Fin m" "powerLimitScale (su_info u) = Fin (of_int s)" "100 \<le> s"
    using assms(1) by (auto simp: limiting_def limiter_def)
  have "of_int 100 \<le> (of_int s :: rat)" using d(3) by (simp only: of_int_le_iff)
  then have ns: "\<not> powerLimitScale (su_info u) < PowerLimitScale" using d(3) by (simp add: d(2) PowerLimitScale_def)
  show ?thesis
    using assms ns d
    by (simp add: su_onPowerLimitRequested_def Let_def limiting_def su_startNextAction_def su_info_def
        su_writeMultipleHoldingRegisters_def limit_register_def)
qed

subsection \<open>Properties\<close>

definition demo_engine :: sunspec_updater where
  "demo_engine = su_onConnected demo_products
     ((su_new (demo_inverter 0 0) inverter_settings_new)\<lparr> suLink := LinkUp \<rparr>)"

lemma demo_engine_reach: "su_reach True demo_products (demo_inverter 0 0) inverter_settings_new demo_engine"
  by (rule su_reach.su_next [OF su_reach.su_init, where e = SuConnected])
    (simp_all add: su_new_def demo_engine_def)

text \<open>
  C17. The polling engine never gets stuck: in every state it can get into, whatever the device answers
  and whenever the connection breaks, its timer runs, an answer is outstanding or a connection
  attempt is.
\<close>

theorem su_never_stuck:
  assumes "su_reach clean pr iv st u"
  shows "suTimer u \<noteq> None \<or> suPending u \<noteq> [] \<or> suLink u = LinkConnecting"
  using su_reach_alive [OF assms] by (simp add: su_alive_def)

theorem su_never_stuck_witness: "su_alive demo_engine"
  using su_never_stuck [OF demo_engine_reach] by (simp add: su_alive_def)


lemma demo_engine_pending: "suPending demo_engine = [PendingRead]"
  by (simp add: demo_engine_def su_onConnected_def su_new_def su_connectToServer_def su_getInitState_def)


text \<open>
  C26. A limit between zero and the maximum power of the inverter is written at once by a waiting engine:
  the register is at most the number of steps of the limiter and within 0.51 steps of the exact
  fraction, with the timeout and the enable flag behind it.
\<close>

theorem su_power_limit_written:
  assumes "limiting m s u" "rng 6 x" "x \<le> m"
  shows "\<exists>r. suOut (su_onPowerLimitRequested (Fin x) u) = suOut u @
      [WriteRegisters (of_int (networkId (su_info u))) (immediateControlOffset (su_info u) + 5) [of_int r, 0, 120, 0, 1]] \<and>
    0 \<le> r \<and> r \<le> s \<and> \<bar>of_int r - x * of_int s / m\<bar> \<le> 51 / 100"
proof -
  have l: "limiter m s (su_info u)" "maxPower (su_info u) = Fin m"
    using assms(1) by (auto simp: limiting_def limiter_def)
  note r = limit_register_lemma [OF l(1) assms(2,3)]
  have "qBound (Fin 0) (Fin x div Fin m) (Fin 100) < Fin 100" using r(4) by (simp only: l(2))
  from limiting_write [OF assms(1) this] show ?thesis
    using r(1-3) unfolding PowerLimitTimeout_def by (intro exI [of _ "limit_register (su_info u) (Fin x)"]) simp
qed

definition demo_limited :: sunspec_updater where
  "demo_limited = (su_new (inv_setPowerLimit (Fin 5000) (inverter_new BaseInverter ''dbus-fronius'' ''1.0''
       (new_device_info\<lparr> maxPower := Fin 5000, powerLimitScale := Fin 10000, networkId := 1,
          immediateControlOffset := 40227 \<rparr>) 20)) inverter_settings_new)\<lparr> suTimer := Some 1000 \<rparr>"

lemma demo_limited: "limiting 5000 10000 demo_limited"
  "networkId (su_info demo_limited) = 1" "immediateControlOffset (su_info demo_limited) = 40227"
  by (simp_all add: limiting_def limiter_def demo_limited_def su_info_def su_new_def su_connectToServer_def
      inverter_new_def inv_setPowerLimit_def inv_powerLimit_def)

theorem su_power_limit_written_witness:
  "\<exists>r. suOut (su_onPowerLimitRequested (Fin 1234) demo_limited) = suOut demo_limited @
      [WriteRegisters (of_int (networkId (su_info demo_limited)))
        (immediateControlOffset (su_info demo_limited) + 5) [of_int r, 0, 120, 0, 1]] \<and>
    0 \<le> r \<and> r \<le> 10000 \<and> \<bar>of_int r - 1234 * of_int 10000 / 5000\<bar> \<le> (51 / 100 :: rat)"
  by (rule su_power_limit_written [OF demo_limited(1)]) (simp_all add: rng_def)

text \<open>
  A request for twice the maximum power is not limited to the maximum but written as twice the
  number of steps, because the fraction is bounded by 100 instead of 1; the branch that switches
  limiting off is for requests of a hundred times the maximum power.
\<close>

theorem su_double_limit_written:
  assumes "limiting m s u" "m \<le> 10 ^ 5" "s \<le> 30000"
  shows "suOut (su_onPowerLimitRequested (Fin (2 * m)) u) = suOut u @
      [WriteRegisters (of_int (networkId (su_info u))) (immediateControlOffset (su_info u) + 5)
        [of_int (2 * s), 0, 120, 0, 1]]"
proof -
  have d: "maxPower (su_info u) = Fin m" "powerLimitScale (su_info u) = Fin (of_int s)" "0 < s" "0 < m"
    using assms(1) by (auto simp: limiting_def limiter_def)
  have "rnd (2 * m / m) = rnd (of_int 2)" using d(4) by simp
  also have "\<dots> = Fin 2" by (subst rnd_int) simp_all
  finally have b: "qBound (Fin 0) (Fin (2 * m) div Fin m) (Fin 100) = Fin 2"
    using d(4) by (simp add: qBound_def qMin_def qMax_def)
  have "Fin (of_int 2) * Fin (of_int s) = Fin (of_int (2 * s))" using assms(3) d(3) by (intro times_int) simp
  then have "Fin 2 * Fin (of_int s) = Fin (of_int (2 * s))" by (simp only: of_int_numeral)
  then have "limit_register (su_info u) (Fin (2 * m)) = qRound (Fin (of_int (2 * s)))"
    by (simp only: limit_register_def d b)
  also have "\<dots> = 2 * s" using assms(3) d(3) by (intro qRound_int) simp_all
  finally show ?thesis
    using limiting_write [OF assms(1), of "Fin (2 * m)"] b by (simp add: PowerLimitTimeout_def)
qed

theorem su_double_limit_written_witness:
  "suOut (su_onPowerLimitRequested (Fin (2 * 5000)) demo_limited) = suOut demo_limited @
      [WriteRegisters (of_int (networkId (su_info demo_limited)))
        (immediateControlOffset (su_info demo_limited) + 5) [of_int (2 * 10000), 0, 120, 0, 1]]"
  by (rule su_double_limit_written [OF demo_limited(1)]) simp_all

text \<open>
  A limit comes back as it was asked for: the limit that is published after reading back the
  registers that a request wrote differs from the request by at most 0.52 steps of the limiter.
\<close>

theorem su_limit_round_trip:
  assumes "limiter m s info" "rng 6 x" "x \<le> m"
  shows "\<exists>l. su_limit_read [of_int (limit_register info (Fin x)), 0, PowerLimitTimeout, 0, 1] info = Fin l \<and>
    \<bar>l - x\<bar> \<le> 52 / 100 * (m / of_int s)"
proof -
  let ?r = "limit_register info (Fin x)"
  note r = limit_register_lemma [OF assms] and l = limiter_rng [OF assms(1)]
  define step where "step = m / (of_int s :: rat)"
  have st: "0 < step" "x = (x * of_int s / m) * step" using l(3,4) by (simp_all add: step_def)
  obtain b where b: "su_limit_read [of_int ?r, 0, PowerLimitTimeout, 0, 1] info = Fin b"
    "\<bar>b - of_int ?r * step\<bar> \<le> 1 / 100 * step"
    using limit_read_register [OF assms(1) r(1,2)] unfolding step_def by blast
  have "of_int ?r * step - x = (of_int ?r - x * of_int s / m) * step"
    using st(2) by (simp only: left_diff_distrib)
  then have "\<bar>of_int ?r * step - x\<bar> = \<bar>of_int ?r - x * of_int s / m\<bar> * step"
    using st(1) by (simp only: abs_mult)
  also have "\<dots> \<le> 51 / 100 * step" using r(3) st(1) by (intro mult_right_mono) simp_all
  finally have "\<bar>b - x\<bar> \<le> 52 / 100 * step" using b(2) unfolding abs_le_iff by linarith
  then show ?thesis using b(1) by (simp add: step_def)
qed

theorem su_limit_round_trip_witness:
  "\<exists>l. su_limit_read [of_int (limit_register (su_info demo_limited) (Fin 1234)), 0, PowerLimitTimeout, 0, 1]
       (su_info demo_limited) = Fin l \<and> \<bar>l - 1234\<bar> \<le> 52 / 100 * (5000 / of_int 10000)"
proof (rule su_limit_round_trip)
  show "limiter 5000 10000 (su_info demo_limited)" using demo_limited(1) by (simp add: limiting_def)
qed (simp_all add: rng_def)

text \<open>
  C36. The updater reports a lost connection at every sixth consecutive error and at no other: after
  \<open>n\<close> errors in a row without an answer in between, \<open>n div 6\<close> reports were made, and every error
  restarts the timer.
\<close>

theorem su_reports_every_sixth_error:
  assumes "suRetryCount u = 0"
  shows "lost_count (suOut ((su_handleError ^^ n) u)) = lost_count (suOut u) + n div 6 \<and>
    suTimer ((su_handleError ^^ Suc n) u) \<noteq> None"
  using su_errors.fail_many [of u 0 n] assms by simp

theorem su_reports_every_sixth_error_witness:
  "lost_count (suOut ((su_handleError ^^ 13) demo_engine)) = lost_count (suOut demo_engine) + 13 div 6 \<and>
   suTimer ((su_handleError ^^ Suc 13) demo_engine) \<noteq> None"
  by (rule su_reports_every_sixth_error)
    (simp add: demo_engine_def su_onConnected_def su_startNextAction_def su_new_def su_connectToServer_def
      su_emit_def su_readHoldingRegisters_def Let_def split: su_mode.split)

end
