(* ===== verification/Sma_Inverter.thy ===== *)
theory Sma_Inverter
  imports Inverter
begin

text \<open>
  The SMA inverter (\<^verbatim>\<open>sma_inverter.cpp\<close>): items that are published only when their value changes.  The
  enumerations of the header are the integers of the registers.  \<^verbatim>\<open>mError\<close> is not initialised by the
  constructor: its first value is an argument.
\<close>

definition SMA_OS_Invalid :: int where "SMA_OS_Invalid = 0"
definition SMA_OS_MPP :: int where "SMA_OS_MPP = 295"
definition SMA_OS_Fault :: int where "SMA_OS_Fault = 1392"
definition SMA_OC_INVALID :: int where "SMA_OC_INVALID = 0"
definition SMA_OC_FAULT :: int where "SMA_OC_FAULT = 35"
definition SMA_OC_OK :: int where "SMA_OC_OK = 307"
definition SMA_OC_WARN :: int where "SMA_OC_WARN = 455"
definition SMA_OM_INVALID :: int where "SMA_OM_INVALID = 0"
definition SMA_OM_WATT :: int where "SMA_OM_WATT = 1077"
definition SMA_SC_START0 :: int where "SMA_SC_START0 = 0"
definition SMA_SC_STANDBY :: int where "SMA_SC_STANDBY = 8"
definition SMA_SC_ERROR :: int where "SMA_SC_ERROR = 10"
definition SMA_SC_MPPT :: int where "SMA_SC_MPPT = 11"
definition SMA_SC_THROTTLED :: int where "SMA_SC_THROTTLED = 12"

lemmas sma_codes = SMA_OS_Invalid_def SMA_OS_MPP_def SMA_OS_Fault_def SMA_OC_INVALID_def SMA_OC_FAULT_def
  SMA_OC_OK_def SMA_OC_WARN_def SMA_OM_INVALID_def SMA_OM_WATT_def SMA_SC_START0_def SMA_SC_STANDBY_def
  SMA_SC_ERROR_def SMA_SC_MPPT_def SMA_SC_THROTTLED_def

record sma_inverter = inverter +
  smGridCode :: u32
  smUnitId :: int
  smStatus :: int
  smOpMode :: int
  smOpCondition :: int
  smOpState :: int
  smError :: int
  smLoggedIn :: bool
  smFreqValue :: dbl

definition sma_inverter_new ::
    "int \<Rightarrow> string \<Rightarrow> string \<Rightarrow> device_info \<Rightarrow> int \<Rightarrow> int \<Rightarrow> u32 \<Rightarrow> sma_inverter" where
  "sma_inverter_new err process version info deviceInstance unit gridcode =
     (let iv = inverter_new SmaInverter process version info deviceInstance;
          m = fold createItem [''Temperature'', ''Ac/Frequency'', ''OperatingMode'', ''OperatingState'',
                ''OperatingCondition'', ''LoggedIn''] (pv_new ''Pv/1'' (pv_new ''Pv/0'' (invItems iv)))
      in \<lparr> invInfo = invInfo iv, invItems = produceValue ''SMADeviceType'' (VInt (deviceType info)) m,
           invClass = SmaInverter, invOut = invOut iv, smGridCode = gridcode, smUnitId = unit,
           smStatus = SMA_SC_START0, smOpMode = SMA_OM_INVALID, smOpCondition = SMA_OC_INVALID,
           smOpState = SMA_OS_Invalid, smError = err, smLoggedIn = False, smFreqValue = Fin 0 \<rparr>)"

definition sma_setStatus :: "int \<Rightarrow> sma_inverter \<Rightarrow> sma_inverter" where
  "sma_setStatus code iv =
     (if smStatus iv \<noteq> code then inv_setStatusCode code (iv\<lparr> smStatus := code \<rparr>) else iv)"

definition sma_setError :: "int \<Rightarrow> sma_inverter \<Rightarrow> sma_inverter" where
  "sma_setError e iv = (if smError iv \<noteq> e then inv_setErrorCode e (iv\<lparr> smError := e \<rparr>) else iv)"

definition sma_setTemperature :: "dbl \<Rightarrow> sma_inverter \<Rightarrow> sma_inverter" where
  "sma_setTemperature degC = inv_produce (produceDouble ''Temperature'' degC 1 ''deg C'')"

definition sma_setLoggedOn :: "bool \<Rightarrow> sma_inverter \<Rightarrow> sma_inverter" where
  "sma_setLoggedOn status iv =
     (if smLoggedIn iv \<noteq> status
      then (let iv = iv\<lparr> smLoggedIn := status \<rparr>
            in if status then inv_produce (produceText ''LoggedIn'' (VInt 1) (TextString ''LOGGED ON'')) iv
               else inv_produce (produceText ''LoggedIn'' (VInt 0) (TextString ''LOGGED OFF'')) iv)
      else iv)"

definition sma_setFrequency :: "dbl \<Rightarrow> sma_inverter \<Rightarrow> sma_inverter" where
  "sma_setFrequency v iv =
     (if \<not> deq v (smFreqValue iv)
      then inv_produce (produceDouble ''Ac/Frequency'' v 1 ''Hz'') (iv\<lparr> smFreqValue := v \<rparr>) else iv)"

definition operating_state_text :: "int \<Rightarrow> string" where
  "operating_state_text s =
     (if s = 295 then ''RUNNING (MPPT)'' else if s = 1467 then ''STARTED''
      else if s = 381 then ''STOPPED'' else if s = 2119 then ''DERATING''
      else if s = 1469 then ''SHUTDOWN'' else if s = 1392 then ''FAULT''
      else if s = 1480 then ''WAITING FOR AC'' else if s = 1393 then ''WAITING FOR PV''
      else if s = 443 then ''CONSTANT VOLTAGE'' else if s = 1855 then ''STANDBY ALONE OPERATION''
      else ''UNKNOWN ('' @ dec_int s @ '')'')"

definition sma_setOperatingState :: "int \<Rightarrow> sma_inverter \<Rightarrow> sma_inverter" where
  "sma_setOperatingState s iv =
     (if smOpState iv = s then iv
      else inv_produce (produceText ''OperatingState'' (VInt s) (TextString (operating_state_text s)))
             (iv\<lparr> smOpState := s \<rparr>))"

definition operating_condition_text :: "int \<Rightarrow> string" where
  "operating_condition_text c =
     (if c = 0 then ''INVALID'' else if c = 35 then ''FAULT'' else if c = 303 then ''OFF''
      else if c = 307 then ''OK'' else if c = 455 then ''WARNING''
      else ''UNKNOWN ('' @ dec_int c @ '')'')"

definition sma_setOperatingCondition :: "int \<Rightarrow> sma_inverter \<Rightarrow> sma_inverter" where
  "sma_setOperatingCondition c iv =
     (if smOpCondition iv = c then iv
      else inv_produce (produceText ''OperatingCondition'' (VInt c) (TextString (operating_condition_text c)))
             (iv\<lparr> smOpCondition := c \<rparr>))"

definition operating_mode_text :: "int \<Rightarrow> string" where
  "operating_mode_text m =
     (if m = 0 then ''INVALID'' else if m = 303 then ''OFF'' else if m = 1077 then ''WATT LIMITED''
      else if m = 1078 then ''PERCENTAGE LIMITED'' else if m = 1079 then ''SYSTEM CONTROL''
      else ''UNKNOWN ('' @ dec_int m @ '')'')"

definition sma_setOperatingMode :: "int \<Rightarrow> sma_inverter \<Rightarrow> sma_inverter" where
  "sma_setOperatingMode m iv =
     (if smOpMode iv = m then iv
      else inv_produce (produceText ''OperatingMode'' (VInt m) (TextString (operating_mode_text m)))
             (iv\<lparr> smOpMode := m \<rparr>))"

subsection \<open>What the setters touch\<close>

lemma sma_inv_produce_simps [simp]:
  "smGridCode (inv_produce f iv) = smGridCode iv" "smUnitId (inv_produce f iv) = smUnitId iv"
  "smStatus (inv_produce f iv) = smStatus iv" "smOpMode (inv_produce f iv) = smOpMode iv"
  "smOpCondition (inv_produce f iv) = smOpCondition iv" "smOpState (inv_produce f iv) = smOpState iv"
  "smError (inv_produce f iv) = smError iv" "smLoggedIn (inv_produce f iv) = smLoggedIn iv"
  "smFreqValue (inv_produce f iv) = smFreqValue iv"
  by (simp_all add: inv_produce_def)

lemmas sma_setters = sma_setStatus_def sma_setError_def sma_setTemperature_def sma_setLoggedOn_def
  sma_setFrequency_def sma_setOperatingState_def sma_setOperatingCondition_def sma_setOperatingMode_def

lemma sma_setters_info [simp]:
  "invInfo (sma_setStatus c iv) = invInfo iv" "invInfo (sma_setError e iv) = invInfo iv"
  "invInfo (sma_setTemperature t iv) = invInfo iv" "invInfo (sma_setLoggedOn b iv) = invInfo iv"
  "invInfo (sma_setFrequency f iv) = invInfo iv" "invInfo (sma_setOperatingState s iv) = invInfo iv"
  "invInfo (sma_setOperatingCondition c iv) = invInfo iv" "invInfo (sma_setOperatingMode m iv) = invInfo iv"
  by (simp_all add: sma_setters Let_def inv_setStatusCode_def inv_setErrorCode_def)

lemma sma_setters_fields [simp]:
  "smStatus (sma_setStatus c iv) = c" "smError (sma_setError e iv) = e" "smLoggedIn (sma_setLoggedOn b iv) = b"
  "smOpState (sma_setOperatingState s iv) = s" "smOpCondition (sma_setOperatingCondition c iv) = c"
  "smOpMode (sma_setOperatingMode m iv) = m"
  by (simp_all add: sma_setters Let_def inv_setStatusCode_def inv_setErrorCode_def)

end
