(* ===== verification/Sma_Updater.thy ===== *)
theory Sma_Updater
  imports Sma_Inverter Data_Processor Sunspec_Tools Polling
begin

text \<open>
  The polling engine of an SMA inverter (\<^verbatim>\<open>sma_updater.cpp\<close>): one register block per state, login with
  the grid code, operating mode, measurements, power limit.  \<^verbatim>\<open>mWriteCount\<close> and \<^verbatim>\<open>mInverterData\<close> have no
  initial value in the code; they are arguments of the constructor.  A step that dereferences a
  null pointer has no result.
\<close>

datatype sma_mode =
    CheckCondition | CheckState | CheckLogin | DoLogin | CheckOpMode | SetOpMode | ReadPowerYield
  | ReadACFrequency | ReadACCurrent | ReadACPowerAndVoltage | ReadTemperature | ReadPVData1 | ReadPVData2
  | ReadPowerLimit | WritePowerLimit | Error | Idle

record sma_updater =
  smInverter :: sma_inverter
  smSettings :: inverter_settings
  smTimer :: "int option"
  smState :: sma_mode
  smPowerLimitWatt :: dbl
  smRetryCount :: int
  smWriteCount :: int
  smData :: common_data
  smPending :: "request list"
  smLink :: link
  smOut :: "poll_out list"

definition sma_emit :: "poll_out \<Rightarrow> sma_updater \<Rightarrow> sma_updater" where
  "sma_emit x u = u\<lparr> smOut := smOut u @ [x] \<rparr>"

definition sma_info :: "sma_updater \<Rightarrow> device_info" where
  "sma_info u = invInfo (smInverter u)"

definition sma_connectToServer :: "sma_updater \<Rightarrow> sma_updater" where
  "sma_connectToServer u = sma_emit (ConnectToServer (hostName (sma_info u))) (u\<lparr> smLink := LinkConnecting \<rparr>)"

text \<open>\<^verbatim>\<open>(quint16)d\<close>\<close>

definition to_u16 :: "dbl \<Rightarrow> u16" where
  "to_u16 d = of_int (to_integer d)"

definition sma_new :: "int \<Rightarrow> common_data \<Rightarrow> sma_inverter \<Rightarrow> inverter_settings \<Rightarrow> sma_updater" where
  "sma_new wc cid iv st = sma_connectToServer
     \<lparr> smInverter = iv, smSettings = st, smTimer = None, smState = Idle,
       smPowerLimitWatt = of_integer (uint (to_u16 (powerLimitScale (invInfo iv)))), smRetryCount = 0,
       smWriteCount = wc, smData = cid, smPending = [], smLink = LinkDown, smOut = [] \<rparr>"

subsection \<open>Requests and timer\<close>

definition sma_readHoldingRegisters :: "u16 \<Rightarrow> u16 \<Rightarrow> sma_updater \<Rightarrow> sma_updater" where
  "sma_readHoldingRegisters startRegister count u =
     sma_emit (ReadRegisters (of_int (networkId (sma_info u))) startRegister count)
       (u\<lparr> smPending := smPending u @ [PendingRead] \<rparr>)"

definition sma_writeMultipleHoldingRegisters :: "u16 \<Rightarrow> u16 list \<Rightarrow> sma_updater \<Rightarrow> sma_updater" where
  "sma_writeMultipleHoldingRegisters startReg values u =
     sma_emit (WriteRegisters (of_int (networkId (sma_info u))) startReg values)
       (u\<lparr> smPending := smPending u @ [PendingWrite] \<rparr>)"

definition sma_startIdleTimer :: "sma_updater \<Rightarrow> sma_updater" where
  "sma_startIdleTimer u = u\<lparr> smTimer := Some (if smState u = Idle then 1000 else 5000) \<rparr>"

definition sma_invert :: "(sma_inverter \<Rightarrow> sma_inverter) \<Rightarrow> sma_updater \<Rightarrow> sma_updater" where
  "sma_invert f u = u\<lparr> smInverter := f (smInverter u) \<rparr>"

definition sma_startNextAction :: "sma_mode \<Rightarrow> sma_updater \<Rightarrow> sma_updater" where
  "sma_startNextAction state u0 =
     (let u = u0\<lparr> smState := state \<rparr>
      in case state of
           CheckCondition \<Rightarrow> sma_readHoldingRegisters 30201 2 u
         | CheckState \<Rightarrow> sma_readHoldingRegisters 40029 2 u
         | CheckLogin \<Rightarrow> sma_readHoldingRegisters 43090 2 u
         | DoLogin \<Rightarrow>
             (let gc = smGridCode (smInverter u);
                  gc0 = ucast (drop_bit 16 gc AND 0xFFFF);
                  gc1 = ucast (gc AND 0xFFFF)
              in sma_writeMultipleHoldingRegisters 43090 [gc0, gc1] u)
         | CheckOpMode \<Rightarrow> sma_readHoldingRegisters 40210 2 u
         | SetOpMode \<Rightarrow> sma_writeMultipleHoldingRegisters 40210 [0, of_int SMA_OM_WATT] u
         | ReadPowerLimit \<Rightarrow> sma_readHoldingRegisters 40212 2 u
         | WritePowerLimit \<Rightarrow> sma_writeMultipleHoldingRegisters 40212 [0, to_u16 (smPowerLimitWatt u)] u
         | ReadPowerYield \<Rightarrow> sma_readHoldingRegisters 30513 8 u
         | ReadACFrequency \<Rightarrow> sma_readHoldingRegisters 40135 2 u
         | ReadACCurrent \<Rightarrow> sma_readHoldingRegisters 30795 2 u
         | ReadACPowerAndVoltage \<Rightarrow> sma_readHoldingRegisters 30775 10 u
         | ReadTemperature \<Rightarrow> sma_readHoldingRegisters 34113 2 u
         | ReadPVData1 \<Rightarrow> sma_readHoldingRegisters 30769 6 u
         | ReadPVData2 \<Rightarrow> sma_readHoldingRegisters 30957 6 u
         | Idle \<Rightarrow> sma_startIdleTimer u
         | Error \<Rightarrow>
             sma_invert (\<lambda>iv. sma_setOperatingState SMA_OS_Fault
               (sma_setOperatingCondition SMA_OC_FAULT (sma_setStatus SMA_SC_ERROR iv))) u)"

definition sma_handleError :: "sma_updater \<Rightarrow> sma_updater" where
  "sma_handleError u =
     (let u = u\<lparr> smRetryCount := smRetryCount u + 1 \<rparr>;
          u = (if smRetryCount u > 5 then sma_emit ConnectionLost (u\<lparr> smRetryCount := 0 \<rparr>) else u)
      in sma_startIdleTimer u)"

subsection \<open>Answers\<close>

definition getULong :: "u16 list \<Rightarrow> nat \<Rightarrow> u32" where
  "getULong values offset = reg32 values offset"

definition getDoubleULong :: "u16 list \<Rightarrow> nat \<Rightarrow> u64" where
  "getDoubleULong values offset =
     push_bit 32 (ucast (reg32 values offset)) OR ucast (reg32 values (offset + 2))"

definition ulong :: "u16 list \<Rightarrow> nat \<Rightarrow> dbl" where
  "ulong values offset = of_integer (uint (getULong values offset))"

definition sma_checkCondition :: "u16 list \<Rightarrow> sma_updater \<Rightarrow> sma_mode \<times> sma_updater" where
  "sma_checkCondition values u0 =
     (let u = u0\<lparr> smData := (smData u0)\<lparr> cdAcFrequency := Fin 0, cdAcCurrent := Fin 0, cdAcPower := Fin 0,
                  cdAcVoltage := Fin 0 \<rparr> \<rparr>;
          condition = uint (values ! 1);
          u = sma_invert (sma_setOperatingCondition condition) u;
          opCondition = smOpCondition (smInverter u);
          (nextState, u) =
            (if opCondition \<noteq> SMA_OC_OK \<and> opCondition \<noteq> SMA_OC_WARN
             then (Idle, sma_invert (\<lambda>iv. sma_setError condition (sma_setStatus SMA_SC_ERROR iv)) u)
             else (CheckState, u))
      in (nextState, sma_invert (inv_setErrorCode 0) u))"

definition sma_checkState :: "u16 list \<Rightarrow> sma_updater \<Rightarrow> sma_mode \<times> sma_updater" where
  "sma_checkState values u =
     (let u = sma_invert (sma_setOperatingState (uint (values ! 1))) u;
          u = u\<lparr> smWriteCount := 0 \<rparr>;
          (nextState, u) =
            (if smGridCode (smInverter u) = 0
             then (ReadPowerYield, sma_invert (inv_setStatusCode SMA_SC_STANDBY) u)
             else (CheckLogin, u))
      in if smOpState (smInverter u) \<noteq> SMA_OS_MPP
         then (ReadPowerYield, sma_invert (sma_setStatus SMA_SC_STANDBY) u)
         else (nextState, u))"

definition sma_checkLogin :: "u16 list \<Rightarrow> sma_updater \<Rightarrow> sma_mode \<times> sma_updater" where
  "sma_checkLogin values u =
     (let u = sma_invert (sma_setLoggedOn (values ! 1 = 1)) u
      in if \<not> smLoggedIn (smInverter u) \<and> smWriteCount u < 3
         then (DoLogin, u\<lparr> smWriteCount := smWriteCount u + 1 \<rparr>)
         else if smWriteCount u \<ge> 3
         then (ReadPowerYield, sma_invert (sma_setStatus SMA_SC_STANDBY) u)
         else (CheckOpMode, u\<lparr> smWriteCount := 0 \<rparr>))"

definition sma_checkOpMode :: "u16 list \<Rightarrow> sma_updater \<Rightarrow> sma_mode \<times> sma_updater" where
  "sma_checkOpMode values u =
     (let u = sma_invert (sma_setOperatingMode (uint (values ! 1))) u
      in if smOpMode (smInverter u) \<noteq> SMA_OM_WATT \<and> smWriteCount u < 3
         then (SetOpMode, u\<lparr> smWriteCount := smWriteCount u + 1 \<rparr>)
         else if deq (smPowerLimitWatt u) (maxPower (sma_info u))
         then (ReadPowerYield, sma_invert (sma_setStatus SMA_SC_MPPT) u)
         else (ReadPowerYield, sma_invert (sma_setStatus SMA_SC_THROTTLED) u))"

definition sma_process :: "sma_updater \<Rightarrow> sma_updater option" where
  "sma_process u =
     map_option (\<lambda>iv. u\<lparr> smInverter := iv \<rparr>) (dp_process_common (smSettings u) (smData u) (smInverter u))"

definition sma_readPowerYield :: "u16 list \<Rightarrow> sma_updater \<Rightarrow> (sma_mode \<times> sma_updater) option" where
  "sma_readPowerYield values u0 =
     (let u = u0\<lparr> smData := (smData u0)\<lparr> cdTotalEnergy := of_integer (uint (getDoubleULong values 0)),
                                       cdDayEnergy := of_integer (uint (getDoubleULong values 4)) \<rparr> \<rparr>
      in if smOpState (smInverter u) \<noteq> SMA_OS_MPP
         then map_option (\<lambda>u. (Idle, u)) (sma_process (sma_invert (sma_setStatus SMA_SC_STANDBY) u))
         else Some (ReadACFrequency, u))"

definition sma_readACFrequency :: "u16 list \<Rightarrow> sma_updater \<Rightarrow> sma_mode \<times> sma_updater" where
  "sma_readACFrequency values u0 =
     (let f = ulong values 0 div Fin 100;
          u = u0\<lparr> smData := (smData u0)\<lparr> cdAcFrequency := f \<rparr> \<rparr>
      in (ReadACCurrent, sma_invert (sma_setFrequency f) u))"

definition sma_readACCurrent :: "u16 list \<Rightarrow> sma_updater \<Rightarrow> sma_mode \<times> sma_updater" where
  "sma_readACCurrent values u =
     (ReadACPowerAndVoltage, u\<lparr> smData := (smData u)\<lparr> cdAcCurrent := ulong values 0 div Fin 1000 \<rparr> \<rparr>)"

definition sma_readACPowerAndVoltage :: "u16 list \<Rightarrow> sma_updater \<Rightarrow> sma_mode \<times> sma_updater" where
  "sma_readACPowerAndVoltage values u =
     (ReadTemperature, u\<lparr> smData := (smData u)\<lparr> cdAcPower := ulong values 0,
                                             cdAcVoltage := ulong values 8 div Fin 100 \<rparr> \<rparr>)"

definition sma_readTemperature :: "u16 list \<Rightarrow> sma_updater \<Rightarrow> sma_mode \<times> sma_updater" where
  "sma_readTemperature values u =
     (ReadPVData1, sma_invert (sma_setTemperature (ulong values 0 div Fin 10)) u)"

text \<open>The values of one of the two PV inputs.\<close>

definition sma_pv :: "string \<Rightarrow> u16 list \<Rightarrow> sma_updater \<Rightarrow> sma_updater" where
  "sma_pv pre values = sma_invert (\<lambda>iv.
     inv_produce (pv_setPower pre (ulong values 4))
       (inv_produce (pv_setVoltage pre (ulong values 2 div Fin 100))
         (inv_produce (pv_setCurrent pre (ulong values 0 div Fin 1000)) iv)))"

definition sma_readPVData1 :: "u16 list \<Rightarrow> sma_updater \<Rightarrow> sma_mode \<times> sma_updater" where
  "sma_readPVData1 values u0 =
     (let u = sma_pv ''Pv/0'' values u0
      in (ReadPVData2, u\<lparr> smData := (smData u)\<lparr> cdDcCurrent := ulong values 0 div Fin 1000,
                                              cdDcVoltage := ulong values 2 div Fin 100 \<rparr> \<rparr>))"

definition sma_readPVData2 :: "u16 list \<Rightarrow> sma_updater \<Rightarrow> sma_mode \<times> sma_updater" where
  "sma_readPVData2 values u0 =
     (let u = sma_pv ''Pv/1'' values u0; d = smData u
      in (ReadPowerLimit,
          u\<lparr> smData := d\<lparr> cdDcCurrent := cdDcCurrent d + ulong values 0 div Fin 1000,
                          cdDcVoltage := (cdDcVoltage d + ulong values 2 div Fin 100) div Fin 2 \<rparr> \<rparr>))"

definition sma_readPowerLimit :: "u16 list \<Rightarrow> sma_updater \<Rightarrow> (sma_mode \<times> sma_updater) option" where
  "sma_readPowerLimit values u =
     map_option (\<lambda>u. (if smLoggedIn (smInverter u) \<and> smOpMode (smInverter u) = SMA_OM_WATT
                      then WritePowerLimit else Idle, u))
       (sma_process (sma_invert (inv_setPowerLimit (of_integer (uint (values ! 1)))) u))"

text \<open>The number of registers that the answer of a state must have.\<close>

definition sma_expected :: "sma_mode \<Rightarrow> nat" where
  "sma_expected s =
     (case s of ReadPowerYield \<Rightarrow> 8 | ReadACPowerAndVoltage \<Rightarrow> 10 | ReadPVData1 \<Rightarrow> 6 | ReadPVData2 \<Rightarrow> 6 | _ \<Rightarrow> 2)"

fun sma_handle :: "sma_mode \<Rightarrow> u16 list \<Rightarrow> sma_updater \<Rightarrow> (sma_mode \<times> sma_updater) option" where
  "sma_handle CheckCondition values u = Some (sma_checkCondition values u)"
| "sma_handle CheckState values u = Some (sma_checkState values u)"
| "sma_handle CheckLogin values u = Some (sma_checkLogin values u)"
| "sma_handle CheckOpMode values u = Some (sma_checkOpMode values u)"
| "sma_handle ReadPowerYield values u = sma_readPowerYield values u"
| "sma_handle ReadACFrequency values u = Some (sma_readACFrequency values u)"
| "sma_handle ReadACCurrent values u = Some (sma_readACCurrent values u)"
| "sma_handle ReadACPowerAndVoltage values u = Some (sma_readACPowerAndVoltage values u)"
| "sma_handle ReadTemperature values u = Some (sma_readTemperature values u)"
| "sma_handle ReadPVData1 values u = Some (sma_readPVData1 values u)"
| "sma_handle ReadPVData2 values u = Some (sma_readPVData2 values u)"
| "sma_handle ReadPowerLimit values u = sma_readPowerLimit values u"
| "sma_handle _ values u = Some (CheckCondition, u)"

definition sma_reads :: "sma_mode \<Rightarrow> bool" where
  "sma_reads s \<longleftrightarrow> s \<notin> {DoLogin, SetOpMode, WritePowerLimit, Error, Idle}"

definition sma_onReadCompleted :: "u16 list option \<Rightarrow> sma_updater \<Rightarrow> sma_updater option" where
  "sma_onReadCompleted reply u =
     (case reply of
        None \<Rightarrow> Some (sma_handleError u)
      | Some values \<Rightarrow>
          (let u = u\<lparr> smRetryCount := 0 \<rparr>
           in map_option (\<lambda>(nextState, u). sma_startNextAction nextState u)
                (if sma_reads (smState u) \<and> length values \<noteq> sma_expected (smState u) then Some (Error, u)
                 else sma_handle (smState u) values u)))"

definition sma_onWriteCompleted :: "sma_updater \<Rightarrow> sma_updater" where
  "sma_onWriteCompleted u =
     sma_startNextAction
       (case smState u of
          DoLogin \<Rightarrow> CheckLogin
        | SetOpMode \<Rightarrow> CheckOpMode
        | WritePowerLimit \<Rightarrow> Idle
        | _ \<Rightarrow> CheckCondition) u"

definition sma_onPowerLimitRequested :: "dbl \<Rightarrow> sma_updater \<Rightarrow> sma_updater" where
  "sma_onPowerLimitRequested v u =
     (let maxpower = maxPower (sma_info u)
      in u\<lparr> smPowerLimitWatt := (if maxpower < v then maxpower else v) \<rparr>)"

definition sma_onConnected :: "sma_updater \<Rightarrow> sma_updater" where
  "sma_onConnected u = sma_startNextAction CheckCondition u"

definition sma_onDisconnected :: "sma_updater \<Rightarrow> sma_updater" where
  "sma_onDisconnected u = sma_handleError (u\<lparr> smState := CheckCondition \<rparr>)"

definition sma_onTimer :: "sma_updater \<Rightarrow> sma_updater" where
  "sma_onTimer u =
     (if smLink u = LinkUp
      then sma_startNextAction (if smState u = Idle then CheckCondition else smState u) u
      else sma_connectToServer u)"

definition sma_onPhaseChanged :: "sma_updater \<Rightarrow> sma_updater" where
  "sma_onPhaseChanged = sma_invert (\<lambda>iv. inv_produce (pi_resetValues ''Ac/L3'')
     (inv_produce (pi_resetValues ''Ac/L2'') (inv_produce (pi_resetValues ''Ac/L1'') iv)))"

subsection \<open>Events\<close>

datatype sma_event =
    SmaReadReply "u16 list option"
  | SmaWriteReply
  | SmaTimeout
  | SmaConnected
  | SmaDisconnected
  | SmaPowerLimit dbl
  | SmaPhase inverter_phase

fun sma_enabled :: "sma_updater \<Rightarrow> sma_event \<Rightarrow> bool" where
  "sma_enabled u (SmaReadReply _) = (\<exists>rs. smPending u = PendingRead # rs)"
| "sma_enabled u SmaWriteReply = (\<exists>rs. smPending u = PendingWrite # rs)"
| "sma_enabled u SmaTimeout = (smTimer u \<noteq> None)"
| "sma_enabled u SmaConnected = (smLink u = LinkConnecting)"
| "sma_enabled u SmaDisconnected = (smLink u \<noteq> LinkDown)"
| "sma_enabled u _ = True"

fun sma_step :: "sma_updater \<Rightarrow> sma_event \<Rightarrow> sma_updater option" where
  "sma_step u (SmaReadReply r) = sma_onReadCompleted r (u\<lparr> smPending := tl (smPending u) \<rparr>)"
| "sma_step u SmaWriteReply = Some (sma_onWriteCompleted (u\<lparr> smPending := tl (smPending u) \<rparr>))"
| "sma_step u SmaTimeout = Some (sma_onTimer (u\<lparr> smTimer := None \<rparr>))"
| "sma_step u SmaConnected = Some (sma_onConnected (u\<lparr> smLink := LinkUp \<rparr>))"
| "sma_step u SmaDisconnected = Some (sma_onDisconnected (u\<lparr> smLink := LinkDown \<rparr>))"
| "sma_step u (SmaPowerLimit v) = Some (sma_onPowerLimitRequested v u)"
| "sma_step u (SmaPhase p) =
     Some (sma_onPhaseChanged (u\<lparr> smSettings := (smSettings u)(''Phase'' := VInt p) \<rparr>))"

text \<open>As for the Sunspec engine: with \<open>clean\<close> the connection breaks only when no request is pending.\<close>

inductive sma_reach ::
    "bool \<Rightarrow> int \<Rightarrow> common_data \<Rightarrow> sma_inverter \<Rightarrow> inverter_settings \<Rightarrow> sma_updater \<Rightarrow> bool"
  for clean wc cid iv st where
  sma_init: "sma_reach clean wc cid iv st (sma_new wc cid iv st)"
| sma_next: "sma_reach clean wc cid iv st u \<Longrightarrow> sma_enabled u e \<Longrightarrow>
    (clean \<and> e = SmaDisconnected \<longrightarrow> smPending u = []) \<Longrightarrow> sma_step u e = Some u' \<Longrightarrow>
    sma_reach clean wc cid iv st u'"

subsection \<open>What the operations touch\<close>

lemma sma_emit_simps [simp]:
  "smInverter (sma_emit x u) = smInverter u" "smSettings (sma_emit x u) = smSettings u"
  "smTimer (sma_emit x u) = smTimer u" "smState (sma_emit x u) = smState u"
  "smPowerLimitWatt (sma_emit x u) = smPowerLimitWatt u" "smRetryCount (sma_emit x u) = smRetryCount u"
  "smWriteCount (sma_emit x u) = smWriteCount u" "smData (sma_emit x u) = smData u"
  "smPending (sma_emit x u) = smPending u" "smLink (sma_emit x u) = smLink u" "smOut (sma_emit x u) = smOut u @ [x]"
  by (simp_all add: sma_emit_def)

lemma sma_invert_simps [simp]:
  "smInverter (sma_invert f u) = f (smInverter u)" "smSettings (sma_invert f u) = smSettings u"
  "smTimer (sma_invert f u) = smTimer u" "smState (sma_invert f u) = smState u"
  "smWriteCount (sma_invert f u) = smWriteCount u" "smRetryCount (sma_invert f u) = smRetryCount u"
  "smPending (sma_invert f u) = smPending u" "smLink (sma_invert f u) = smLink u" "smOut (sma_invert f u) = smOut u"
  by (simp_all add: sma_invert_def)

lemma sma_request_simps [simp]:
  "smTimer (sma_readHoldingRegisters r n u) = smTimer u" "smState (sma_readHoldingRegisters r n u) = smState u"
  "smPending (sma_readHoldingRegisters r n u) = smPending u @ [PendingRead]"
  "smLink (sma_readHoldingRegisters r n u) = smLink u" "smInverter (sma_readHoldingRegisters r n u) = smInverter u"
  "smSettings (sma_readHoldingRegisters r n u) = smSettings u"
  "smWriteCount (sma_readHoldingRegisters r n u) = smWriteCount u"
  "smTimer (sma_writeMultipleHoldingRegisters r vs u) = smTimer u"
  "smState (sma_writeMultipleHoldingRegisters r vs u) = smState u"
  "smPending (sma_writeMultipleHoldingRegisters r vs u) = smPending u @ [PendingWrite]"
  "smLink (sma_writeMultipleHoldingRegisters r vs u) = smLink u"
  "smInverter (sma_writeMultipleHoldingRegisters r vs u) = smInverter u"
  "smSettings (sma_writeMultipleHoldingRegisters r vs u) = smSettings u"
  "smWriteCount (sma_writeMultipleHoldingRegisters r vs u) = smWriteCount u"
  by (simp_all add: sma_readHoldingRegisters_def sma_writeMultipleHoldingRegisters_def)

definition sma_request :: "sma_mode \<Rightarrow> request list" where
  "sma_request s = (if s = Error \<or> s = Idle then [] else if sma_reads s then [PendingRead] else [PendingWrite])"

lemma sma_startNextAction_simps [simp]:
  "smState (sma_startNextAction s u) = s" "smLink (sma_startNextAction s u) = smLink u"
  "smSettings (sma_startNextAction s u) = smSettings u" "smWriteCount (sma_startNextAction s u) = smWriteCount u"
  "smTimer (sma_startNextAction s u) = (if s = Idle then Some 1000 else smTimer u)"
  "smPending (sma_startNextAction s u) = smPending u @ sma_request s"
  by (cases s; simp add: sma_startNextAction_def sma_startIdleTimer_def Let_def sma_request_def sma_reads_def)+

lemma sma_startNextAction_inverter:
  "invInfo (smInverter (sma_startNextAction s u)) = invInfo (smInverter u)"
  by (cases s) (simp_all add: sma_startNextAction_def sma_startIdleTimer_def Let_def)

lemma sma_handleError_simps [simp]:
  "smState (sma_handleError u) = smState u" "smLink (sma_handleError u) = smLink u"
  "smInverter (sma_handleError u) = smInverter u" "smPending (sma_handleError u) = smPending u"
  "smSettings (sma_handleError u) = smSettings u"
  "smTimer (sma_handleError u) = Some (if smState u = Idle then 1000 else 5000)"
  by (simp_all add: sma_handleError_def sma_startIdleTimer_def Let_def)

lemma sma_connect_simps [simp]:
  "smState (sma_connectToServer u) = smState u" "smLink (sma_connectToServer u) = LinkConnecting"
  "smPending (sma_connectToServer u) = smPending u" "smTimer (sma_connectToServer u) = smTimer u"
  by (simp_all add: sma_connectToServer_def)

definition sma_same :: "sma_updater \<Rightarrow> sma_updater \<Rightarrow> bool" where
  "sma_same u u' \<longleftrightarrow> smTimer u' = smTimer u \<and> smPending u' = smPending u \<and> smLink u' = smLink u \<and>
     smSettings u' = smSettings u \<and> invInfo (smInverter u') = invInfo (smInverter u)"

lemma sma_process_frame:
  "sma_process u = Some u' \<Longrightarrow> sma_same u u' \<and> smWriteCount u' = smWriteCount u"
  by (auto simp: sma_process_def sma_same_def dp_process_common_info)

lemma sma_handle_frame:
  assumes "sma_handle s vs u = Some (s', u')"
  shows "sma_same u u'"
proof -
  have produce: "invInfo (inv_setErrorCode e iv) = invInfo iv" "invInfo (inv_setStatusCode e iv) = invInfo iv"
    "invInfo (inv_setPowerLimit p iv) = invInfo iv" for e p and iv :: sma_inverter
    by (simp_all add: inv_setErrorCode_def inv_setStatusCode_def inv_setPowerLimit_def)
  show ?thesis
    using assms
    by (cases s) (auto simp: sma_same_def produce sma_checkCondition_def sma_checkState_def sma_checkLogin_def
        sma_checkOpMode_def sma_readPowerYield_def sma_readACFrequency_def sma_readACCurrent_def
        sma_readACPowerAndVoltage_def sma_readTemperature_def sma_readPVData1_def sma_readPVData2_def
        sma_readPowerLimit_def sma_pv_def Let_def split: if_splits dest!: sma_process_frame)
qed

lemma sma_onReadCompleted_cases:
  assumes "sma_onReadCompleted r u = Some u'"
  obtains "u' = sma_handleError u" "r = None"
  | s u1 where "u' = sma_startNextAction s u1" "r \<noteq> None" "sma_same u u1"
proof (cases r)
  case None
  then show thesis using assms that(1) by (simp add: sma_onReadCompleted_def)
next
  case (Some vs)
  let ?u = "u\<lparr> smRetryCount := 0 \<rparr>"
  have same: "sma_same u u1" if "sma_same ?u u1" for u1 using that by (simp add: sma_same_def)
  obtain s u1 where "u' = sma_startNextAction s u1" "sma_same ?u u1"
    using assms Some
    by (auto simp: sma_onReadCompleted_def Let_def sma_same_def [of _ "u\<lparr> smRetryCount := 0 \<rparr>"]
        split: if_splits dest: sma_handle_frame)
  then show thesis using that(2) same Some by blast
qed

lemmas sma_handlers = sma_checkCondition_def sma_checkState_def sma_checkLogin_def sma_checkOpMode_def
  sma_readPowerYield_def sma_readACFrequency_def sma_readACCurrent_def sma_readACPowerAndVoltage_def
  sma_readTemperature_def sma_readPVData1_def sma_readPVData2_def sma_readPowerLimit_def sma_pv_def

subsection \<open>A polling cycle ends\<close>

text \<open>The device answers the outstanding request, a read with the registers \<open>vs\<close>.\<close>

definition sma_answer :: "u16 list \<Rightarrow> sma_updater \<Rightarrow> sma_updater option" where
  "sma_answer vs u =
     (if sma_reads (smState u) then sma_onReadCompleted (Some vs) u else Some (sma_onWriteCompleted u))"

fun sma_answers :: "u16 list list \<Rightarrow> sma_updater \<Rightarrow> sma_updater option" where
  "sma_answers [] u = Some u"
| "sma_answers (vs # vss) u =
     (if smState u \<in> {Idle, Error} then Some u
      else case sma_answer vs u of None \<Rightarrow> None | Some u' \<Rightarrow> sma_answers vss u')"

definition sma_rank :: "sma_mode \<Rightarrow> int \<Rightarrow> nat" where
  "sma_rank s wc =
     (case s of
        CheckCondition \<Rightarrow> 40 | CheckState \<Rightarrow> 39
      | CheckLogin \<Rightarrow> 30 + 2 * nat (3 - wc) | DoLogin \<Rightarrow> 31 + 2 * nat (3 - wc)
      | CheckOpMode \<Rightarrow> 20 + 2 * nat (3 - wc) | SetOpMode \<Rightarrow> 21 + 2 * nat (3 - wc)
      | ReadPowerYield \<Rightarrow> 15 | ReadACFrequency \<Rightarrow> 14 | ReadACCurrent \<Rightarrow> 13 | ReadACPowerAndVoltage \<Rightarrow> 12
      | ReadTemperature \<Rightarrow> 11 | ReadPVData1 \<Rightarrow> 10 | ReadPVData2 \<Rightarrow> 9 | ReadPowerLimit \<Rightarrow> 8
      | WritePowerLimit \<Rightarrow> 7 | Idle \<Rightarrow> 0 | Error \<Rightarrow> 0)"

lemma sma_handle_rank:
  assumes "sma_reads s" "sma_handle s vs u = Some (s', u')"
  shows "sma_rank s' (smWriteCount u') < sma_rank s (smWriteCount u)"
  using assms
  by (cases s) (auto simp: sma_reads_def sma_rank_def sma_handlers Let_def split: if_splits
      dest!: sma_process_frame)

lemma sma_answer_rank:
  assumes "sma_answer vs u = Some u'" "smState u \<notin> {Idle, Error}"
  shows "sma_rank (smState u') (smWriteCount u') < sma_rank (smState u) (smWriteCount u)"
proof (cases "sma_reads (smState u)")
  case True
  let ?u = "u\<lparr> smRetryCount := 0 \<rparr>"
  have pos: "0 < sma_rank (smState u) (smWriteCount u)"
    using assms(2) by (cases "smState u") (simp_all add: sma_rank_def)
  consider "u' = sma_startNextAction Error ?u"
    | s u1 where "sma_handle (smState u) vs ?u = Some (s, u1)" "u' = sma_startNextAction s u1"
    using True assms(1) by (auto simp: sma_answer_def sma_onReadCompleted_def Let_def split: if_splits)
  then show ?thesis
  proof cases
    case 1
    then show ?thesis using pos by (simp add: sma_rank_def)
  next
    case 2
    then show ?thesis using sma_handle_rank [OF True, of vs ?u] by simp
  qed
next
  case False
  then have "smState u \<in> {DoLogin, SetOpMode, WritePowerLimit}" using assms(2) by (auto simp: sma_reads_def)
  then show ?thesis
    using False assms(1) by (auto simp: sma_answer_def sma_onWriteCompleted_def sma_rank_def)
qed

lemma sma_process_ok:
  assumes "phaseCount (sma_info u) > 1 \<or> phase (smSettings u) \<in> {MultiPhase, PhaseL1, PhaseL2, PhaseL3}"
  shows "sma_process u \<noteq> None"
  using assms
  by (auto simp: sma_process_def dp_process_common_def Let_def dp_getPhase_def inv_getPowerInfo_def sma_info_def)

lemma sma_answer_ok:
  assumes "phaseCount (sma_info u) > 1 \<or> phase (smSettings u) \<in> {MultiPhase, PhaseL1, PhaseL2, PhaseL3}"
  obtains u' where "sma_answer vs u = Some u'" "sma_info u' = sma_info u" "smSettings u' = smSettings u"
proof -
  have limit: "sma_process (sma_invert (inv_setPowerLimit p) (u\<lparr> smRetryCount := 0 \<rparr>)) \<noteq> None" for p
    using assms by (intro sma_process_ok) (auto simp: sma_info_def inv_setPowerLimit_def)
  have yield: "sma_process (sma_invert (sma_setStatus c) (u\<lparr> smRetryCount := 0, smData := d \<rparr>)) \<noteq> None" for c d
    using assms by (intro sma_process_ok) (auto simp: sma_info_def)
  have "sma_handle s vs (u\<lparr> smRetryCount := 0 \<rparr>) \<noteq> None" for s
    using limit yield by (cases s) (auto simp: sma_readPowerLimit_def sma_readPowerYield_def Let_def)
  from this [of "smState u"] have "sma_answer vs u \<noteq> None"
    by (auto simp: sma_answer_def sma_onReadCompleted_def Let_def)
  then obtain u' where u': "sma_answer vs u = Some u'" by blast
  moreover have "sma_info u' = sma_info u \<and> smSettings u' = smSettings u"
    using u' unfolding sma_answer_def
    by (auto simp: sma_info_def sma_onWriteCompleted_def sma_startNextAction_inverter sma_same_def
        split: if_splits elim!: sma_onReadCompleted_cases)
  ultimately show thesis using that by blast
qed

lemma sma_answers_end:
  assumes "sma_rank (smState u) (smWriteCount u) \<le> length vss"
    and "phaseCount (sma_info u) > 1 \<or> phase (smSettings u) \<in> {MultiPhase, PhaseL1, PhaseL2, PhaseL3}"
  shows "\<exists>u'. sma_answers vss u = Some u' \<and> smState u' \<in> {Idle, Error}"
  using assms
proof (induction vss arbitrary: u)
  case Nil
  then show ?case by (cases "smState u") (simp_all add: sma_rank_def)
next
  case (Cons vs vss)
  show ?case
  proof (cases "smState u \<in> {Idle, Error}")
    case False
    obtain u' where u': "sma_answer vs u = Some u'" "sma_info u' = sma_info u" "smSettings u' = smSettings u"
      using sma_answer_ok [OF Cons.prems(2)] .
    have "sma_rank (smState u') (smWriteCount u') \<le> length vss"
      using sma_answer_rank [OF u'(1) False] Cons.prems(1) by simp
    with Cons.IH [of u'] Cons.prems(2) u' False show ?thesis by simp
  qed auto
qed

subsection \<open>Waiting and the error state\<close>

definition sma_one :: "sma_updater \<Rightarrow> bool" where
  "sma_one u \<longleftrightarrow>
     (if smLink u = LinkConnecting then smTimer u = None \<and> smPending u = [] \<and> smState u \<noteq> Error
      else if smTimer u \<noteq> None then smPending u = [] \<and> smState u \<noteq> Error
      else smState u \<noteq> Idle \<and> smPending u = sma_request (smState u))"

lemma sma_one_start:
  "smTimer u = None \<Longrightarrow> smPending u = [] \<Longrightarrow> smLink u \<noteq> LinkConnecting \<Longrightarrow> sma_one (sma_startNextAction s u)"
  by (cases s) (simp_all add: sma_one_def sma_request_def sma_reads_def)

lemma sma_one_error:
  "smPending u = [] \<Longrightarrow> smLink u \<noteq> LinkConnecting \<Longrightarrow> smState u \<noteq> Error \<Longrightarrow> sma_one (sma_handleError u)"
  by (simp add: sma_one_def)

lemma sma_one_connect:
  "smTimer u = None \<Longrightarrow> smPending u = [] \<Longrightarrow> smState u \<noteq> Error \<Longrightarrow> sma_one (sma_connectToServer u)"
  by (simp add: sma_one_def)

lemma sma_one_frame [simp]:
  "sma_one (u\<lparr> smPowerLimitWatt := p \<rparr>) = sma_one u" "sma_one (u\<lparr> smSettings := st \<rparr>) = sma_one u"
  "sma_one (sma_invert f u) = sma_one u"
  by (simp_all add: sma_one_def)

lemma sma_one_pending:
  assumes "sma_one u" "smPending u = r # rs"
  shows "rs = []" "smTimer u = None" "smLink u \<noteq> LinkConnecting" "smState u \<noteq> Error"
  using assms by (auto simp: sma_one_def sma_request_def split: if_splits)

lemma sma_step_one:
  assumes "sma_one u" "sma_enabled u e" "e = SmaDisconnected \<longrightarrow> smPending u = []" "sma_step u e = Some u'"
  shows "sma_one u'"
proof (cases e)
  case (SmaReadReply r)
  then obtain rs where "smPending u = PendingRead # rs" using assms(2) by auto
  note p = this sma_one_pending [OF assms(1) this]
  show ?thesis
    using assms(4) p unfolding SmaReadReply sma_step.simps
    by (elim sma_onReadCompleted_cases) (auto simp: sma_same_def intro!: sma_one_start sma_one_error)
next
  case SmaWriteReply
  then obtain rs where "smPending u = PendingWrite # rs" using assms(2) by auto
  note p = this sma_one_pending [OF assms(1) this]
  then show ?thesis
    using assms(4) SmaWriteReply by (auto simp: sma_onWriteCompleted_def intro!: sma_one_start)
next
  case SmaTimeout
  then have "smPending u = []" "smLink u \<noteq> LinkConnecting" "smState u \<noteq> Error"
    using assms(1,2) by (auto simp: sma_one_def split: if_splits)
  then show ?thesis
    using assms(4) SmaTimeout by (auto simp: sma_onTimer_def intro!: sma_one_start sma_one_connect)
next
  case SmaConnected
  then show ?thesis
    using assms(1,2,4) by (auto simp: sma_onConnected_def sma_one_def [of u] intro!: sma_one_start)
next
  case SmaDisconnected
  then show ?thesis
    using assms(3,4) by (auto simp: sma_onDisconnected_def intro!: sma_one_error)
qed (use assms in \<open>auto simp: sma_onPowerLimitRequested_def Let_def sma_onPhaseChanged_def\<close>)

lemma sma_reach_one: "sma_reach True wc cid iv st u \<Longrightarrow> sma_one u"
proof (induction rule: sma_reach.induct)
  case sma_init
  show ?case by (simp add: sma_new_def sma_one_def)
qed (auto intro: sma_step_one)

interpretation sma_errors: error_counter 6 sma_handleError smRetryCount "\<lambda>u. lost_count (smOut u)"
  by unfold_locales (simp_all add: sma_handleError_def sma_startIdleTimer_def Let_def)

subsection \<open>Properties\<close>

text \<open>
  C25. A polling cycle of the SMA engine ends: from the first state on, 40 answers of the device are
  enough to get back to waiting or into the error state, whatever the answers are; the retries of
  login and operating mode cannot go on for ever.  The phase setting is one of the enumeration or the
  inverter has more than one phase (else the cycle may end with a null pointer).
\<close>

theorem sma_cycle_ends:
  assumes "smState u = CheckCondition" "40 \<le> length vss"
    and "phaseCount (sma_info u) > 1 \<or> phase (smSettings u) \<in> {MultiPhase, PhaseL1, PhaseL2, PhaseL3}"
  shows "\<exists>u'. sma_answers vss u = Some u' \<and> (smState u' = Idle \<or> smState u' = Error)"
  using sma_answers_end [of u vss] assms by (simp add: sma_rank_def)

definition demo_sma :: sma_updater where
  "demo_sma = sma_onConnected ((sma_new 0 demo_common (sma_inverter_new 0 ''dbus-fronius'' ''1.0''
     (new_device_info\<lparr> maxPower := Fin 5000, networkId := 3 \<rparr>) 20 3 0x12345678) inverter_settings_new)
       \<lparr> smLink := LinkUp \<rparr>)"

lemma demo_sma_state:
  "smState demo_sma = CheckCondition" "phase (smSettings demo_sma) = PhaseL1"
  by (simp_all add: demo_sma_def sma_onConnected_def sma_new_def sma_connectToServer_def
      phase_def inverter_settings_new_def)

theorem sma_cycle_ends_witness:
  "\<exists>u'. sma_answers (replicate 40 [0, 307]) demo_sma = Some u' \<and> (smState u' = Idle \<or> smState u' = Error)"
  by (rule sma_cycle_ends) (simp_all add: demo_sma_state)

text \<open>
  C37. An answer of the wrong length stops the engine for good: in the error state nothing is pending and
  no timer runs, and no event but a broken connection makes it ask the device again or report
  anything; in every other state it has something to wait for (the client finishes its requests
  before it reports a broken connection).
\<close>

theorem sma_error_state_is_final:
  assumes "sma_reach True wc cid iv st u" "sma_enabled u e" "sma_step u e = Some u'"
  shows "(smState u \<noteq> Error \<longrightarrow> smTimer u \<noteq> None \<or> smPending u \<noteq> [] \<or> smLink u = LinkConnecting) \<and>
    (smState u = Error \<and> e \<noteq> SmaDisconnected \<longrightarrow>
      smState u' = Error \<and> smOut u' = smOut u \<and> smPending u' = [] \<and> smTimer u' = None)"
proof (intro conjI impI)
  have one: "sma_one u" using assms(1) by (rule sma_reach_one)
  assume "smState u \<noteq> Error"
  then show "smTimer u \<noteq> None \<or> smPending u \<noteq> [] \<or> smLink u = LinkConnecting"
    using one by (auto simp: sma_one_def sma_request_def split: if_splits)
next
  have one: "sma_one u" using assms(1) by (rule sma_reach_one)
  assume e: "smState u = Error \<and> e \<noteq> SmaDisconnected"
  then have "smTimer u = None" "smPending u = []" "smLink u \<noteq> LinkConnecting"
    using one by (auto simp: sma_one_def sma_request_def split: if_splits)
  then show "smState u' = Error" "smOut u' = smOut u" "smPending u' = []" "smTimer u' = None"
    using e assms(2,3) by (cases e; auto simp: sma_onPowerLimitRequested_def Let_def sma_onPhaseChanged_def)+
qed

definition demo_error :: sma_updater where
  "demo_error = sma_startNextAction Error (demo_sma\<lparr> smPending := [], smRetryCount := 0 \<rparr>)"

lemma demo_error_reach:
  "sma_reach True 0 demo_common (sma_inverter_new 0 ''dbus-fronius'' ''1.0''
     (new_device_info\<lparr> maxPower := Fin 5000, networkId := 3 \<rparr>) 20 3 0x12345678) inverter_settings_new demo_error"
proof (rule sma_reach.sma_next)
  show "sma_reach True 0 demo_common (sma_inverter_new 0 ''dbus-fronius'' ''1.0''
     (new_device_info\<lparr> maxPower := Fin 5000, networkId := 3 \<rparr>) 20 3 0x12345678) inverter_settings_new demo_sma"
    by (rule sma_reach.sma_next [OF sma_reach.sma_init, where e = SmaConnected])
      (simp_all add: demo_sma_def sma_new_def)
  show "sma_enabled demo_sma (SmaReadReply (Some []))" "sma_step demo_sma (SmaReadReply (Some [])) = Some demo_error"
    by (simp_all add: demo_sma_def demo_error_def sma_onConnected_def sma_new_def sma_request_def sma_reads_def
        sma_onReadCompleted_def sma_expected_def)
qed simp

theorem sma_error_state_is_final_witness:
  "smState (sma_onPowerLimitRequested (Fin 0) demo_error) = Error \<and>
   smOut (sma_onPowerLimitRequested (Fin 0) demo_error) = smOut demo_error \<and>
   smPending (sma_onPowerLimitRequested (Fin 0) demo_error) = [] \<and>
   smTimer (sma_onPowerLimitRequested (Fin 0) demo_error) = None"
proof -
  have "smState demo_error = Error" by (simp add: demo_error_def)
  moreover have "sma_enabled demo_error (SmaPowerLimit (Fin 0))" by simp
  moreover have "sma_step demo_error (SmaPowerLimit (Fin 0)) = Some (sma_onPowerLimitRequested (Fin 0) demo_error)"
    by simp
  ultimately show ?thesis using sma_error_state_is_final [OF demo_error_reach] by blast
qed

text \<open>
  The error code of a faulty SMA inverter is never visible: whatever condition the device reports,
  the error code that is published after the answer is 0, because \<^verbatim>\<open>onReadCompleted\<close> clears it right
  after it has set it.
\<close>

theorem sma_error_code_always_cleared:
  shows "item_value ''ErrorCode'' (invItems (smInverter (snd (sma_checkCondition [hi, condition] u)))) = VInt 0"
  by (simp add: sma_checkCondition_def Let_def inv_setErrorCode_def split: prod.split if_splits)

text \<open>
  A login that succeeds at the third attempt is taken for a failed one: the answer says that the
  client is logged in, but the engine goes on without power control and publishes standby.
\<close>

theorem sma_third_login_ignored:
  assumes "smWriteCount u = 3"
  defines "res \<equiv> sma_checkLogin [0, 1] u"
  shows "fst res = ReadPowerYield \<and> smLoggedIn (smInverter (snd res)) \<and>
    smStatus (smInverter (snd res)) = SMA_SC_STANDBY"
  using assms by (simp add: sma_checkLogin_def Let_def sma_setStatus_def sma_setLoggedOn_def inv_setStatusCode_def)

theorem sma_third_login_ignored_witness:
  "fst (sma_checkLogin [0, 1] (demo_sma\<lparr> smWriteCount := 3 \<rparr>)) = ReadPowerYield \<and>
   smLoggedIn (smInverter (snd (sma_checkLogin [0, 1] (demo_sma\<lparr> smWriteCount := 3 \<rparr>)))) \<and>
   smStatus (smInverter (snd (sma_checkLogin [0, 1] (demo_sma\<lparr> smWriteCount := 3 \<rparr>)))) = SMA_SC_STANDBY"
  by (rule sma_third_login_ignored) simp

end
