(* ===== verification/Detection.thy ===== *)
theory Detection
  imports Sunspec_Tools Polling
begin

text \<open>
  What the two detectors over Modbus TCP (\<^verbatim>\<open>sunspec_detector.cpp\<close>, \<^verbatim>\<open>sma_detector.cpp\<close>) have in
  common.  Both keep one reply object per call of \<^verbatim>\<open>start\<close>, with a client of its own; the two hashes
  of a detector only lead from the sender of a signal to that reply, so a detection is modelled by
  its reply: the information collected so far, the state and the current register, whether the
  client is still registered (\<open>dClient\<close>), the state of the connection and the number of requests
  without an answer, the signals emitted and the requests sent.

  The locale \<open>detector\<close> is the contract that \<^verbatim>\<open>abstract_detector.h\<close> documents: devices are found
  before the detection is finished, and it finishes once.
\<close>

datatype detect_out = DeviceFound device_info | DetectionFinished

record 's detection =
  dDi :: device_info
  dState :: 's
  dRegister :: u16
  dClient :: bool
  dLink :: link
  dPending :: nat
  dOut :: "detect_out list"
  dLog :: "poll_out list"

text \<open>\<^verbatim>\<open>start\<close>, for the initial state of the reply and the unit id of the detector.\<close>

definition det_start :: "'s \<Rightarrow> int \<Rightarrow> string \<Rightarrow> 's detection" where
  "det_start state unitId host =
     \<lparr> dDi = new_device_info\<lparr> networkId := unitId, hostName := host \<rparr>, dState = state, dRegister = 0,
       dClient = True, dLink = LinkConnecting, dPending = 0, dOut = [], dLog = [ConnectToServer host] \<rparr>"

definition det_setDone :: "'s detection \<Rightarrow> 's detection" where
  "det_setDone d = (if \<not> dClient d then d else d\<lparr> dOut := dOut d @ [DetectionFinished], dClient := False \<rparr>)"

definition det_setResult :: "'s detection \<Rightarrow> 's detection" where
  "det_setResult d = d\<lparr> dOut := dOut d @ [DeviceFound (dDi d)] \<rparr>"

definition det_startNextRequest :: "u16 \<Rightarrow> 's detection \<Rightarrow> 's detection" where
  "det_startNextRequest regCount d =
     d\<lparr> dPending := dPending d + 1,
        dLog := dLog d @ [ReadRegisters (of_int (networkId (dDi d))) (dRegister d) regCount] \<rparr>"

definition det_onDisconnected :: "'s detection \<Rightarrow> 's detection" where
  "det_onDisconnected d = (if dClient d then det_setDone d else d)"

lemma det_simps [simp]:
  "dDi (det_setDone d) = dDi d" "dState (det_setDone d) = dState d" "dRegister (det_setDone d) = dRegister d"
  "dClient (det_setDone d) = False" "dLink (det_setDone d) = dLink d" "dPending (det_setDone d) = dPending d"
  "dLog (det_setDone d) = dLog d"
  "dOut (det_setDone d) = (if dClient d then dOut d @ [DetectionFinished] else dOut d)"
  "dDi (det_setResult d) = dDi d" "dState (det_setResult d) = dState d" "dRegister (det_setResult d) = dRegister d"
  "dClient (det_setResult d) = dClient d" "dLink (det_setResult d) = dLink d"
  "dPending (det_setResult d) = dPending d" "dLog (det_setResult d) = dLog d"
  "dOut (det_setResult d) = dOut d @ [DeviceFound (dDi d)]"
  "dDi (det_startNextRequest n d) = dDi d" "dState (det_startNextRequest n d) = dState d"
  "dRegister (det_startNextRequest n d) = dRegister d" "dClient (det_startNextRequest n d) = dClient d"
  "dLink (det_startNextRequest n d) = dLink d" "dPending (det_startNextRequest n d) = Suc (dPending d)"
  "dOut (det_startNextRequest n d) = dOut d"
  "dLog (det_startNextRequest n d) = dLog d @ [ReadRegisters (of_int (networkId (dDi d))) (dRegister d) n]"
  by (simp_all add: det_setDone_def det_setResult_def det_startNextRequest_def)

subsection \<open>Events\<close>

text \<open>
  The client of a detection: it connects once, it answers a request (no registers stand for an
  error), and it signals that it is disconnected once every pending request is finished.  A client
  whose detection is done is deleted, with its requests.
\<close>

datatype det_event = DetConnected | DetDisconnected | DetAnswer "u16 list"

fun det_enabled :: "'s detection \<Rightarrow> det_event \<Rightarrow> bool" where
  "det_enabled d DetConnected = (dClient d \<and> dLink d = LinkConnecting)"
| "det_enabled d DetDisconnected = (dPending d = 0)"
| "det_enabled d (DetAnswer _) = (dClient d \<and> 0 < dPending d)"

fun det_step ::
    "('s detection \<Rightarrow> 's detection) \<Rightarrow> (u16 list \<Rightarrow> 's detection \<Rightarrow> 's detection option) \<Rightarrow>
     's detection \<Rightarrow> det_event \<Rightarrow> 's detection option" where
  "det_step conn answer d DetConnected = Some (conn (d\<lparr> dLink := LinkUp \<rparr>))"
| "det_step conn answer d DetDisconnected = Some (det_onDisconnected (d\<lparr> dLink := LinkDown \<rparr>))"
| "det_step conn answer d (DetAnswer values) = answer values (d\<lparr> dPending := dPending d - 1 \<rparr>)"

inductive det_reach ::
    "('s detection \<Rightarrow> 's detection) \<Rightarrow> (u16 list \<Rightarrow> 's detection \<Rightarrow> 's detection option) \<Rightarrow>
     's detection \<Rightarrow> 's detection \<Rightarrow> bool"
  for conn answer d\<^sub>0 where
  det_init: "det_reach conn answer d\<^sub>0 d\<^sub>0"
| det_next: "det_reach conn answer d\<^sub>0 d \<Longrightarrow> det_enabled d e \<Longrightarrow>
    det_step conn answer d e = Some d' \<Longrightarrow> det_reach conn answer d\<^sub>0 d'"

text \<open>Answers that arrive one after the other, until the detection is done.\<close>

fun det_answers ::
    "(u16 list \<Rightarrow> 's detection \<Rightarrow> 's detection option) \<Rightarrow> u16 list list \<Rightarrow> 's detection \<Rightarrow> 's detection option" where
  "det_answers answer [] d = Some d"
| "det_answers answer (values # rest) d =
     (if \<not> dClient d then Some d
      else case det_step id answer d (DetAnswer values) of
        None \<Rightarrow> None
      | Some d' \<Rightarrow> det_answers answer rest d')"

text \<open>
  A detection against a device that answers every read with its registers: the last request of the
  log is answered, at most \<open>n\<close> times.
\<close>

fun det_dialog ::
    "(u16 list \<Rightarrow> 's detection \<Rightarrow> 's detection option) \<Rightarrow> (u16 \<Rightarrow> u16 \<Rightarrow> u16 list) \<Rightarrow> nat \<Rightarrow>
     's detection \<Rightarrow> 's detection option" where
  "det_dialog answer device 0 d = Some d"
| "det_dialog answer device (Suc n) d =
     (if \<not> dClient d then Some d
      else case last (dLog d) of
        ReadRegisters u reg count \<Rightarrow>
          (case det_step id answer d (DetAnswer (device reg count)) of
             None \<Rightarrow> None
           | Some d' \<Rightarrow> det_dialog answer device n d')
      | _ \<Rightarrow> Some d)"

lemma det_dialog_done: "\<not> dClient d \<Longrightarrow> det_dialog answer device n d = Some d"
  by (cases n) simp_all

lemma det_dialog_step:
  assumes "dClient d" "last (dLog d) = ReadRegisters u reg count"
    "answer (device reg count) (d\<lparr> dPending := dPending d - 1 \<rparr>) = Some d'"
  shows "det_dialog answer device (Suc n) d = det_dialog answer device n d'"
  using assms by simp

lemma det_dialog_more:
  "det_dialog answer device n d = Some d' \<Longrightarrow> \<not> dClient d' \<Longrightarrow> det_dialog answer device (n + k) d = Some d'"
  by (induction n arbitrary: d) (auto simp: det_dialog_done split: poll_out.splits option.splits if_splits)

subsection \<open>The contract\<close>

text \<open>Nothing is emitted and one thing is awaited, or the detection ended with or without a device.\<close>

definition det_ok :: "'s detection \<Rightarrow> bool" where
  "det_ok d \<longleftrightarrow>
     (if dClient d then dOut d = [] \<and> dPending d = (if dLink d = LinkUp then 1 else 0) \<and> dLink d \<noteq> LinkDown
      else dPending d = 0 \<and> (dOut d = [DetectionFinished] \<or> (\<exists>i. dOut d = [DeviceFound i, DetectionFinished])))"

text \<open>What an answer may do: ask for more, or end the detection with at most one device.\<close>

definition det_progress :: "'s detection \<Rightarrow> 's detection \<Rightarrow> bool" where
  "det_progress d d' \<longleftrightarrow> dLink d' = dLink d \<and>
     (dClient d' \<and> dPending d' = dPending d + 1 \<and> dOut d' = dOut d \<or>
      \<not> dClient d' \<and> dPending d' = dPending d \<and>
        (dOut d' = dOut d @ [DetectionFinished] \<or>
         (\<exists>i. dOut d' = dOut d @ [DeviceFound i, DetectionFinished])))"

lemma det_progress_intros [intro!]:
  assumes "dClient d" "dLink d' = dLink d" "dClient d'" "dPending d' = dPending d" "dOut d' = dOut d"
  shows "det_progress d (det_startNextRequest n d')" "det_progress d (det_setDone d')"
    "det_progress d (det_setDone (det_setResult d'))"
  using assms by (auto simp: det_progress_def)

lemma det_ok_start [simp]: "det_ok (det_start state unitId host)"
  by (simp add: det_ok_def det_start_def)

locale detector =
  fixes conn :: "'s detection \<Rightarrow> 's detection"
    and answer :: "u16 list \<Rightarrow> 's detection \<Rightarrow> 's detection option"
  assumes connected_asks: "dClient (conn d) = dClient d" "dLink (conn d) = dLink d"
      "dPending (conn d) = dPending d + 1" "dOut (conn d) = dOut d"
    and answer_progress: "answer values d = Some d' \<Longrightarrow> dClient d \<Longrightarrow> det_progress d d'"
begin

lemma step_ok:
  assumes "det_ok d" "det_enabled d e" "det_step conn answer d e = Some d'"
  shows "det_ok d'"
proof (cases e)
  case DetConnected
  then show ?thesis using assms by (auto simp: det_ok_def connected_asks)
next
  case DetDisconnected
  then show ?thesis using assms by (auto simp: det_ok_def det_onDisconnected_def split: if_splits)
next
  case (DetAnswer vs)
  then have "det_progress (d\<lparr> dPending := dPending d - 1 \<rparr>) d'" "dClient d"
    using assms answer_progress [of vs "d\<lparr> dPending := dPending d - 1 \<rparr>" d'] by simp_all
  then show ?thesis using assms(1,2) DetAnswer by (auto simp: det_ok_def det_progress_def split: if_splits)
qed

lemma reach_ok: "det_reach conn answer (det_start state unitId host) d \<Longrightarrow> det_ok d"
  by (induction rule: det_reach.induct) (auto intro: step_ok)

lemma reach_out:
  assumes "det_reach conn answer (det_start state unitId host) d"
  shows "dOut d \<in> {[], [DetectionFinished]} \<union> range (\<lambda>i. [DeviceFound i, DetectionFinished])"
  using reach_ok [OF assms] by (auto simp: det_ok_def split: if_splits)

lemma reach_waiting:
  assumes "det_reach conn answer (det_start state unitId host) d" "DetectionFinished \<notin> set (dOut d)"
  shows "dClient d \<and> (dLink d = LinkConnecting \<and> dPending d = 0 \<or> dLink d = LinkUp \<and> dPending d = 1)"
  using reach_ok [OF assms(1)] assms(2) by (cases "dLink d") (auto simp: det_ok_def split: if_splits)

end

end
