(* ===== verification/Sunspec_Detector.thy ===== *)
theory Sunspec_Detector
  imports Detection
begin

text \<open>
  Detection of a Sunspec inverter (\<^verbatim>\<open>sunspec_detector.cpp\<close>): after the identification at register
  40000 the detector walks along the chain of models, each with its id and its size in front, reads
  the models it needs and reports the device at the end of the chain.  An answer whose handling
  reads past the end of the registers has no result.
\<close>

datatype sd_state = SunSpecHeader | ModuleHeader | ModuleContent

type_synonym sunspec_detection = "sd_state detection"

definition sd_start :: "u8 \<Rightarrow> string \<Rightarrow> sunspec_detection" where
  "sd_start unitId host = det_start SunSpecHeader (uint unitId) host"

definition sd_onConnected :: "sunspec_detection \<Rightarrow> sunspec_detection" where
  "sd_onConnected d = det_startNextRequest 2 (d\<lparr> dState := SunSpecHeader, dRegister := 40000 \<rparr>)"

definition sd_onHeader :: "u16 list \<Rightarrow> sunspec_detection \<Rightarrow> sunspec_detection" where
  "sd_onHeader values d =
     (let sunspecId = (if length values = 2 then getString values 0 2 else [])
      in if sunspecId \<noteq> ''SunS'' then det_setDone d
         else det_startNextRequest 66 (d\<lparr> dRegister := dRegister d + 2, dState := ModuleContent \<rparr>))"

text \<open>The models whose id is all that is needed, and the models to read.\<close>

definition sd_model_id :: "u16 \<Rightarrow> u16 \<Rightarrow> device_info \<Rightarrow> device_info" where
  "sd_model_id modelId reg di =
     (if modelId \<in> {101, 102, 103, 111, 112, 113}
      then di\<lparr> retrievalMode := (if modelId > 103 then ProtocolSunSpecFloat else ProtocolSunSpecIntSf),
               phaseCount := uint (modelId mod 10), inverterModelOffset := reg \<rparr>
      else if modelId = 120 then di\<lparr> namePlateModelOffset := reg \<rparr>
      else if modelId = 123 then di\<lparr> immediateControlOffset := reg \<rparr>
      else di)"

definition sd_complete :: "device_info \<Rightarrow> bool" where
  "sd_complete di \<longleftrightarrow> productName di \<noteq> [] \<and> phaseCount di > 0 \<and> networkId di > 0"

definition sd_onModuleHeader :: "u16 list \<Rightarrow> sunspec_detection \<Rightarrow> sunspec_detection" where
  "sd_onModuleHeader values d =
     (if length values < 2 then det_setDone d
      else
        let modelId = values ! 0; modelSize = values ! 1
        in if modelId = 0xFFFF then det_setDone (if sd_complete (dDi d) then det_setResult d else d)
           else
             let d = d\<lparr> dState := (if modelId = 120 \<or> modelId = 123 then ModuleContent else ModuleHeader),
                        dDi := sd_model_id modelId (dRegister d) (dDi d) \<rparr>
             in if dState d = ModuleHeader
                then det_startNextRequest 2 (d\<lparr> dRegister := dRegister d + (2 + modelSize) \<rparr>)
                else det_startNextRequest (modelSize + 2) d)"

definition sd_manufacturer :: "products \<Rightarrow> string \<Rightarrow> int" where
  "sd_manufacturer pr manufacturer =
     (if manufacturer = ''Fronius'' then VE_PROD_ID_PV_INVERTER_FRONIUS pr
      else if manufacturer = ''SMA'' then VE_PROD_ID_PV_INVERTER_SMA pr
      else if manufacturer = ''ABB'' then VE_PROD_ID_PV_INVERTER_ABB pr
      else VE_PROD_ID_PV_INVERTER_SUNSPEC pr)"

text \<open>The rest of the common model, behind the manufacturer.\<close>

definition sd_common :: "products \<Rightarrow> u16 list \<Rightarrow> device_info \<Rightarrow> device_info" where
  "sd_common pr values di =
     (let di = di\<lparr> productName := qarg (qarg ''%1 %2'' (getString values 2 16)) (getString values 18 16) \<rparr>;
          di = (if productId di = VE_PROD_ID_PV_INVERTER_FRONIUS pr
                then di\<lparr> dataManagerVersion := getString values 34 8 \<rparr> else di)
      in di\<lparr> firmwareVersion := getString values 42 8, uniqueId := getString values 50 16,
             serialNumber := getString values 50 16 \<rparr>)"

definition sd_nameplate :: "u16 list \<Rightarrow> device_info \<Rightarrow> device_info" where
  "sd_nameplate values di =
     (let di = (if length values > 4 then di\<lparr> maxPower := getScaledValue values 3 1 4 False \<rparr> else di)
      in if length values > 22 then di\<lparr> storageCapacity := getScaledValue values 21 1 22 False \<rparr> else di)"

definition sd_controls :: "u16 list \<Rightarrow> device_info \<Rightarrow> device_info" where
  "sd_controls values di =
     (if length values > 23 then di\<lparr> powerLimitScale := Fin 100 div getScale values 23 \<rparr> else di)"

text \<open>The model behind the one just read; \<^verbatim>\<open>values[1]\<close> of a single register is out of bounds.\<close>

definition sd_next_model :: "u16 list \<Rightarrow> sunspec_detection \<Rightarrow> sunspec_detection option" where
  "sd_next_model values d =
     (if length values < 2 then None
      else Some (det_startNextRequest 2 (d\<lparr> dRegister := dRegister d + (2 + values ! 1) \<rparr>)))"

definition sd_onModuleContent :: "products \<Rightarrow> u16 list \<Rightarrow> sunspec_detection \<Rightarrow> sunspec_detection option" where
  "sd_onModuleContent pr values d =
     (if length values < 1 then Some (det_setDone d)
      else
        let d = d\<lparr> dState := ModuleHeader \<rparr>; modelId = values ! 0
        in if modelId = 1 \<and> length values = 66 then
             (let manufacturer = getString values 2 16;
                  d = d\<lparr> dDi := (dDi d)\<lparr> productId := sd_manufacturer pr manufacturer \<rparr> \<rparr>
              in if manufacturer = ''SMA'' then Some (det_setDone d)
                 else sd_next_model values (d\<lparr> dDi := sd_common pr values (dDi d) \<rparr>))
           else if modelId = 120 then sd_next_model values (d\<lparr> dDi := sd_nameplate values (dDi d) \<rparr>)
           else if modelId = 123 then sd_next_model values (d\<lparr> dDi := sd_controls values (dDi d) \<rparr>)
           else sd_next_model values d)"

definition sd_onFinished :: "products \<Rightarrow> u16 list \<Rightarrow> sunspec_detection \<Rightarrow> sunspec_detection option" where
  "sd_onFinished pr values d =
     (case dState d of
        SunSpecHeader \<Rightarrow> Some (sd_onHeader values d)
      | ModuleHeader \<Rightarrow> Some (sd_onModuleHeader values d)
      | ModuleContent \<Rightarrow> sd_onModuleContent pr values d)"

subsection \<open>The detector keeps the contract\<close>

lemma sd_next_model_progress:
  assumes "sd_next_model values d' = Some d''" "dClient d" "dLink d' = dLink d" "dClient d' = dClient d"
    "dPending d' = dPending d" "dOut d' = dOut d"
  shows "det_progress d d''"
  using assms by (auto simp: sd_next_model_def split: if_splits)

lemma sd_onFinished_progress:
  assumes "sd_onFinished pr values d = Some d'" "dClient d"
  shows "det_progress d d'"
proof (cases "dState d")
  case SunSpecHeader
  then show ?thesis using assms by (auto simp: sd_onFinished_def sd_onHeader_def Let_def)
next
  case ModuleHeader
  then show ?thesis using assms by (auto simp: sd_onFinished_def sd_onModuleHeader_def Let_def)
next
  case ModuleContent
  then show ?thesis using assms
    by (auto simp: sd_onFinished_def sd_onModuleContent_def Let_def sd_next_model_progress split: if_splits)
qed

interpretation sunspec: detector sd_onConnected "sd_onFinished pr" for pr
  by unfold_locales (simp_all add: sd_onConnected_def sd_onFinished_progress)

subsection \<open>The devices that can be found\<close>

text \<open>
  A Sunspec device: the common model and the models behind it, each an id and its registers, laid
  out in a row between the identification and the end model.
\<close>

type_synonym sunspec_model = "u16 \<times> u16 list"

fun model_regs :: "sunspec_model \<Rightarrow> u16 list" where
  "model_regs (i, body) = i # of_nat (length body) # body"

definition sunspec_chain :: "sunspec_model list \<Rightarrow> u16 list" where
  "sunspec_chain ms = concat (map model_regs ms) @ [0xFFFF, 0]"

definition sunspec_image :: "sunspec_model list \<Rightarrow> u16 list" where
  "sunspec_image ms = [0x5375, 0x6E53] @ sunspec_chain ms"

text \<open>A device answers a read of up to 125 of its registers, and refuses any other.\<close>

definition sunspec_device :: "u16 list \<Rightarrow> u16 \<Rightarrow> u16 \<Rightarrow> u16 list" where
  "sunspec_device img reg count =
     (let off = unat reg - 40000
      in if 40000 \<le> unat reg \<and> unat count \<le> 125 \<and> off + unat count \<le> length img
         then take (unat count) (drop off img) else [])"

text \<open>What a model says about the device, when it starts at register \<open>a\<close>, and what all of them say.\<close>

fun sunspec_learn :: "nat \<Rightarrow> sunspec_model \<Rightarrow> device_info \<Rightarrow> device_info" where
  "sunspec_learn a (i, body) di =
     (let di = sd_model_id i (of_nat a) di
      in if i = 120 then sd_nameplate (model_regs (i, body)) di
         else if i = 123 then sd_controls (model_regs (i, body)) di
         else di)"

fun sunspec_learn_all :: "nat \<Rightarrow> sunspec_model list \<Rightarrow> device_info \<Rightarrow> device_info" where
  "sunspec_learn_all a [] di = di"
| "sunspec_learn_all a (m # ms) di =
     sunspec_learn_all (a + length (model_regs m)) ms (sunspec_learn a m di)"

definition sunspec_info :: "products \<Rightarrow> u8 \<Rightarrow> string \<Rightarrow> sunspec_model \<Rightarrow> sunspec_model list \<Rightarrow> device_info" where
  "sunspec_info pr unitId host common ms =
     (let regs = take 66 (model_regs common);
          di = new_device_info\<lparr> networkId := uint unitId, hostName := host,
                 productId := sd_manufacturer pr (getString regs 2 16) \<rparr>
      in sunspec_learn_all (40002 + length (model_regs common)) ms (sd_common pr regs di))"

text \<open>A well-formed chain behind the common model: no end model, and the models to read fit in a read.\<close>

fun sunspec_model_ok :: "sunspec_model \<Rightarrow> bool" where
  "sunspec_model_ok (i, body) \<longleftrightarrow> i \<noteq> 0xFFFF \<and> (i = 120 \<or> i = 123 \<longrightarrow> length body \<le> 123)"

subsection \<open>Walking along the chain\<close>

lemma sunspec_device_read:
  assumes "40000 \<le> a" "drop (a - 40000) img = xs @ ys" "length img \<le> 25536" "length xs \<le> 125" "xs \<noteq> []"
  shows "sunspec_device img (of_nat a) (of_nat (length xs)) = xs"
proof -
  have "length img - (a - 40000) = length xs + length ys" using arg_cong [OF assms(2), of length] by simp
  moreover have "0 < length xs" using assms(5) by simp
  ultimately have le: "a - 40000 + length xs \<le> length img" and lt: "a < 65536"
    using assms(1,3) by linarith+
  have "unat (of_nat a :: u16) = a" "unat (of_nat (length xs) :: u16) = length xs"
    using lt assms(4) by (auto intro: unat_of_nat_u16)
  then show ?thesis using assms le by (simp add: sunspec_device_def)
qed

definition sd_at :: "nat \<Rightarrow> device_info \<Rightarrow> sunspec_detection \<Rightarrow> bool" where
  "sd_at a di d \<longleftrightarrow> dState d = ModuleHeader \<and> dClient d \<and> dPending d = 1 \<and> dOut d = [] \<and>
     dRegister d = of_nat a \<and> dDi d = di \<and> (\<exists>u. last (dLog d) = ReadRegisters u (of_nat a) 2)"

lemma sd_skip_model:
  assumes at: "sd_at a di d" and m: "sunspec_model_ok (i, body)" "i \<noteq> 120" "i \<noteq> 123"
    and a: "40000 \<le> a" "drop (a - 40000) img = model_regs (i, body) @ ys" "length img \<le> 25536"
  shows "\<exists>d'. sd_at (a + length (model_regs (i, body))) (sunspec_learn a (i, body) di) d' \<and>
    (\<forall>n. det_dialog (sd_onFinished pr) (sunspec_device img) (Suc n) d =
         det_dialog (sd_onFinished pr) (sunspec_device img) n d')"
proof -
  let ?len = "of_nat (length body) :: u16"
  obtain u where u: "last (dLog d) = ReadRegisters u (of_nat a) 2" using at by (auto simp: sd_at_def)
  have r: "sunspec_device img (of_nat a) 2 = [i, ?len]"
    using sunspec_device_read [of a img "[i, ?len]" "body @ ys"] a by simp
  define d' where "d' = det_startNextRequest 2 (d\<lparr> dPending := 0, dState := ModuleHeader,
    dDi := sd_model_id i (of_nat a) di, dRegister := of_nat a + (2 + ?len) \<rparr>)"
  have "sd_onFinished pr [i, ?len] (d\<lparr> dPending := dPending d - 1 \<rparr>) = Some d'"
    using at m by (simp add: sd_onFinished_def sd_onModuleHeader_def sd_at_def d'_def)
  then have "det_dialog (sd_onFinished pr) (sunspec_device img) (Suc n) d =
      det_dialog (sd_onFinished pr) (sunspec_device img) n d'" for n
    using at u r by (intro det_dialog_step [where u = u]) (auto simp: sd_at_def)
  moreover have "sd_at (a + length (model_regs (i, body))) (sunspec_learn a (i, body) di) d'"
    using at m by (simp add: sd_at_def d'_def ac_simps)
  ultimately show ?thesis by blast
qed

lemma sd_read_model:
  assumes at: "sd_at a di d" and m: "sunspec_model_ok (i, body)" "i = 120 \<or> i = 123"
    and a: "40000 \<le> a" "drop (a - 40000) img = model_regs (i, body) @ ys" "length img \<le> 25536"
  shows "\<exists>d'. sd_at (a + length (model_regs (i, body))) (sunspec_learn a (i, body) di) d' \<and>
    (\<forall>n. det_dialog (sd_onFinished pr) (sunspec_device img) (Suc (Suc n)) d =
         det_dialog (sd_onFinished pr) (sunspec_device img) n d')"
proof -
  let ?len = "of_nat (length body) :: u16" and ?regs = "model_regs (i, body)"
  obtain u where u: "last (dLog d) = ReadRegisters u (of_nat a) 2" using at by (auto simp: sd_at_def)
  have r: "sunspec_device img (of_nat a) 2 = [i, ?len]"
    using sunspec_device_read [of a img "[i, ?len]" "body @ ys"] a by simp
  have "length ?regs \<le> 125" using m by auto
  then have r': "sunspec_device img (of_nat a) (?len + 2) = ?regs"
    using sunspec_device_read [of a img ?regs ys] a by (simp add: ac_simps)
  define d1 where "d1 = det_startNextRequest (?len + 2) (d\<lparr> dPending := 0, dState := ModuleContent,
    dDi := sd_model_id i (of_nat a) di \<rparr>)"
  define d' where "d' = det_startNextRequest 2 (d1\<lparr> dPending := 0, dState := ModuleHeader,
    dDi := sunspec_learn a (i, body) di, dRegister := of_nat a + (2 + ?len) \<rparr>)"
  have "sd_onFinished pr [i, ?len] (d\<lparr> dPending := dPending d - 1 \<rparr>) = Some d1"
    using at m by (auto simp: sd_onFinished_def sd_onModuleHeader_def sd_at_def d1_def)
  then have 1: "det_dialog (sd_onFinished pr) (sunspec_device img) (Suc n) d =
      det_dialog (sd_onFinished pr) (sunspec_device img) n d1" for n
    using at u r by (intro det_dialog_step [where u = u]) (auto simp: sd_at_def)
  have "sd_onFinished pr ?regs (d1\<lparr> dPending := dPending d1 - 1 \<rparr>) = Some d'"
    using at m by (auto simp: sd_onFinished_def sd_onModuleContent_def sd_next_model_def sd_at_def d1_def d'_def
        det_startNextRequest_def Let_def)
  then have 2: "det_dialog (sd_onFinished pr) (sunspec_device img) (Suc n) d1 =
      det_dialog (sd_onFinished pr) (sunspec_device img) n d'" for n
    using at r' by (intro det_dialog_step) (auto simp: sd_at_def d1_def)
  have "sd_at (a + length ?regs) (sunspec_learn a (i, body) di) d'"
    using at by (simp add: sd_at_def d'_def d1_def ac_simps)
  then show ?thesis using 1 2 by auto
qed

definition sd_outcome :: "device_info \<Rightarrow> detect_out list" where
  "sd_outcome di = (if sd_complete di then [DeviceFound di] else []) @ [DetectionFinished]"

lemma sd_end_model:
  assumes at: "sd_at a di d" and a: "40000 \<le> a" "drop (a - 40000) img = [0xFFFF, 0]" "length img \<le> 25536"
  shows "\<exists>d'. det_dialog (sd_onFinished pr) (sunspec_device img) (Suc n) d = Some d' \<and> \<not> dClient d' \<and>
    dOut d' = sd_outcome di"
proof -
  obtain u where u: "last (dLog d) = ReadRegisters u (of_nat a) 2" using at by (auto simp: sd_at_def)
  have r: "sunspec_device img (of_nat a) 2 = [0xFFFF, 0]"
    using sunspec_device_read [of a img "[0xFFFF, 0]" "[]"] a by simp
  define d' where "d' = det_setDone ((if sd_complete di then det_setResult else id) (d\<lparr> dPending := 0 \<rparr>))"
  have "sd_onFinished pr [0xFFFF, 0] (d\<lparr> dPending := dPending d - 1 \<rparr>) = Some d'"
    using at by (simp add: sd_onFinished_def sd_onModuleHeader_def sd_at_def d'_def)
  then have "det_dialog (sd_onFinished pr) (sunspec_device img) (Suc n) d =
      det_dialog (sd_onFinished pr) (sunspec_device img) n d'"
    using at u r by (intro det_dialog_step [where u = u]) (auto simp: sd_at_def)
  moreover have "\<not> dClient d'" "dOut d' = sd_outcome di"
    using at by (auto simp: d'_def sd_outcome_def sd_at_def)
  ultimately show ?thesis by (simp add: det_dialog_done)
qed

lemma sd_chain:
  assumes "sd_at a di d" "list_all sunspec_model_ok ms"
    "40000 \<le> a" "drop (a - 40000) img = sunspec_chain ms" "length img \<le> 25536"
  shows "\<exists>d'. det_dialog (sd_onFinished pr) (sunspec_device img) (2 * length ms + 1) d = Some d' \<and>
    \<not> dClient d' \<and> dOut d' = sd_outcome (sunspec_learn_all a ms di)"
  using assms
proof (induction ms arbitrary: a di d)
  case Nil
  then show ?case using sd_end_model [where n = 0] by (simp add: sunspec_chain_def)
next
  case (Cons m ms)
  obtain i body where m: "m = (i, body)" by (cases m)
  let ?len = "length (model_regs (i, body))"
  have img: "drop (a - 40000) img = model_regs (i, body) @ sunspec_chain ms"
    using Cons.prems(4) m by (simp add: sunspec_chain_def)
  have shift: "a + ?len - 40000 = ?len + (a - 40000)" using Cons.prems(3) by linarith
  have rest: "drop (a + ?len - 40000) img = sunspec_chain ms"
    unfolding shift drop_drop [symmetric] img by simp
  have "\<exists>d' k. sd_at (a + ?len) (sunspec_learn a (i, body) di) d' \<and> k \<le> 2 \<and>
      (\<forall>n. det_dialog (sd_onFinished pr) (sunspec_device img) (k + n) d =
           det_dialog (sd_onFinished pr) (sunspec_device img) n d')"
  proof (cases "i = 120 \<or> i = 123")
    case True
    from sd_read_model [OF Cons.prems(1) _ this Cons.prems(3) img Cons.prems(5), of pr] show ?thesis
      using Cons.prems(2) m by (auto intro!: exI [of _ 2])
  next
    case False
    with sd_skip_model [OF Cons.prems(1) _ _ _ Cons.prems(3) img Cons.prems(5), of pr] show ?thesis
      using Cons.prems(2) m by (auto intro!: exI [of _ 1])
  qed
  then obtain d1 k where d1: "sd_at (a + ?len) (sunspec_learn a (i, body) di) d1" "k \<le> 2"
      "\<And>n. det_dialog (sd_onFinished pr) (sunspec_device img) (k + n) d =
           det_dialog (sd_onFinished pr) (sunspec_device img) n d1" by blast
  obtain d' where d': "det_dialog (sd_onFinished pr) (sunspec_device img) (2 * length ms + 1) d1 = Some d'"
      "\<not> dClient d'" "dOut d' = sd_outcome (sunspec_learn_all a (m # ms) di)"
    using Cons.IH [OF d1(1) _ _ rest Cons.prems(5)] Cons.prems(2,3) m by auto
  have "det_dialog (sd_onFinished pr) (sunspec_device img) (k + (2 * length ms + 1)) d = Some d'"
    using d'(1) by (simp only: d1(3))
  from det_dialog_more [OF this d'(2), of "2 - k"]
  have "det_dialog (sd_onFinished pr) (sunspec_device img) (k + (2 * length ms + 1) + (2 - k)) d = Some d'" .
  then show ?case using d' d1(2) by auto
qed

text \<open>The first two answers, up to the first model behind the common one.\<close>

definition sd_first_info :: "products \<Rightarrow> u8 \<Rightarrow> string \<Rightarrow> u16 list \<Rightarrow> device_info" where
  "sd_first_info pr unitId host regs =
     sd_common pr regs (new_device_info\<lparr> networkId := uint unitId, hostName := host,
       productId := sd_manufacturer pr (getString regs 2 16) \<rparr>)"

lemma sunspec_id_string: "getString [0x5375, 0x6E53] 0 2 = ''SunS''"
  by code_simp

lemma sd_first_models:
  assumes img: "img = sunspec_image ((1, body) # ms)" "length img \<le> 25536" "64 \<le> length body"
    and m: "getString (take 66 (model_regs (1, body))) 2 16 \<noteq> ''SMA''"
  shows "\<exists>d'. sd_at (40002 + length (model_regs (1, body)))
      (sd_first_info pr unitId host (take 66 (model_regs (1, body)))) d' \<and>
    (\<forall>n. det_dialog (sd_onFinished pr) (sunspec_device img) (Suc (Suc n))
           (sd_onConnected ((sd_start unitId host)\<lparr> dLink := LinkUp \<rparr>)) =
         det_dialog (sd_onFinished pr) (sunspec_device img) n d')"
proof -
  let ?regs = "take 66 (model_regs (1, body))" and ?len = "of_nat (length body) :: u16"
  define d0 where "d0 = sd_onConnected ((sd_start unitId host)\<lparr> dLink := LinkUp \<rparr>)"
  define d1 where "d1 = det_startNextRequest 66 (d0\<lparr> dPending := 0, dRegister := 40002, dState := ModuleContent \<rparr>)"
  define d2 where "d2 = det_startNextRequest 2 (d1\<lparr> dPending := 0, dState := ModuleHeader,
    dDi := sd_first_info pr unitId host ?regs, dRegister := 40002 + (2 + ?len) \<rparr>)"
  have r: "sunspec_device img 40000 2 = [0x5375, 0x6E53]"
    using sunspec_device_read [of 40000 img "[0x5375, 0x6E53]" "sunspec_chain ((1, body) # ms)"] img
    by (simp add: sunspec_image_def)
  have len: "length ?regs = 66" using img(3) by simp
  have "drop 2 img = ?regs @ drop 66 (model_regs (1, body)) @ sunspec_chain ms"
    using img(1) by (simp add: sunspec_image_def sunspec_chain_def numeral_2_eq_2)
  then have r': "sunspec_device img 40002 66 = ?regs"
    using sunspec_device_read [of 40002 img ?regs "drop 66 (model_regs (1, body)) @ sunspec_chain ms"] img(2) len
    by auto
  have "sd_onFinished pr [0x5375, 0x6E53] (d0\<lparr> dPending := dPending d0 - 1 \<rparr>) = Some d1"
    by (simp add: d0_def d1_def sd_onFinished_def sd_onHeader_def sd_onConnected_def sunspec_id_string
        sd_start_def det_start_def)
  then have 1: "det_dialog (sd_onFinished pr) (sunspec_device img) (Suc n) d0 =
      det_dialog (sd_onFinished pr) (sunspec_device img) n d1" for n
    using r by (intro det_dialog_step) (auto simp: d0_def sd_onConnected_def sd_start_def det_start_def)
  have nth: "?regs ! 0 = 1" "?regs ! 1 = ?len" by simp_all
  have "sd_onFinished pr ?regs (d1\<lparr> dPending := dPending d1 - 1 \<rparr>) = Some d2"
    using m len nth
    by (simp add: d0_def d1_def d2_def sd_onFinished_def sd_onModuleContent_def sd_next_model_def
        sd_first_info_def sd_onConnected_def sd_start_def det_start_def Let_def det_startNextRequest_def
        del: model_regs.simps)
  then have 2: "det_dialog (sd_onFinished pr) (sunspec_device img) (Suc n) d1 =
      det_dialog (sd_onFinished pr) (sunspec_device img) n d2" for n
    using r' by (intro det_dialog_step) (auto simp: d0_def d1_def sd_onConnected_def sd_start_def det_start_def)
  have "sd_at (40002 + length (model_regs (1, body))) (sd_first_info pr unitId host ?regs) d2"
    by (simp add: sd_at_def d0_def d1_def d2_def sd_onConnected_def sd_start_def det_start_def ac_simps)
  then show ?thesis using 1 2 unfolding d0_def by auto
qed


text \<open>A device with a three-phase inverter and a limiter.\<close>

definition demo_common_body :: "u16 list" where
  "demo_common_body = string_regs ''Fronius'' @ replicate 12 0 @ string_regs ''Symo 8.2'' @ replicate 12 0 @
     string_regs ''3.7.3-2'' @ replicate 4 0 @ string_regs ''0.3.9.2'' @ replicate 4 0 @
     string_regs ''29301000'' @ replicate 12 0 @ [1, 0]"

definition demo_models :: "sunspec_model list" where
  "demo_models = [(113, replicate 60 0), (120, 4 # 8200 # 0 # replicate 23 0), (123, replicate 21 0 @ [0xFFFE, 0, 0])]"


subsection \<open>The outcome of a detection\<close>

text \<open>
  A Sunspec detection keeps the promise of \<^verbatim>\<open>AbstractDetector\<close>: whatever the device answers and
  whenever the connection breaks, at most one device is reported, before the end of the detection
  is signalled, which happens at most once; and as long as it is not signalled exactly one thing is
  awaited, the connection or one answer.
\<close>

theorem sunspec_detection_contract:
  assumes "det_reach sd_onConnected (sd_onFinished pr) (sd_start unitId host) d"
  shows "dOut d \<in> {[], [DetectionFinished]} \<union> range (\<lambda>i. [DeviceFound i, DetectionFinished]) \<and>
    (DetectionFinished \<notin> set (dOut d) \<longrightarrow>
      dClient d \<and> (dLink d = LinkConnecting \<and> dPending d = 0 \<or> dLink d = LinkUp \<and> dPending d = 1))"
  using sunspec.reach_out [OF assms [unfolded sd_start_def]] sunspec.reach_waiting [OF assms [unfolded sd_start_def]]
  by blast

lemma demo_detection_reach:
  "det_reach sd_onConnected (sd_onFinished pr) (sd_start unitId host)
     (sd_onConnected ((sd_start unitId host)\<lparr> dLink := LinkUp \<rparr>))"
  by (rule det_next [OF det_init, where e = DetConnected]) (simp_all add: sd_start_def det_start_def)

theorem sunspec_detection_contract_witness:
  "dPending (sd_onConnected ((sd_start 126 ''10.0.0.1'')\<lparr> dLink := LinkUp \<rparr>)) = 1"
  using sunspec_detection_contract [OF demo_detection_reach [of demo_products 126 "''10.0.0.1''"]]
  by (simp add: sd_onConnected_def sd_start_def det_start_def)

text \<open>
  The walk along the chain need not end: the register is a \<^verbatim>\<open>quint16\<close> and wraps around, so a device
  whose model claims to have 0xFFFE registers is asked for the same header again and again, and the
  detection of that host never finishes.
\<close>

theorem sunspec_endless_chain:
  assumes "dState d = ModuleHeader" "dClient d" "dRegister d = reg" "last (dLog d) = ReadRegisters u reg 2"
    and "device reg 2 = [i, 0xFFFE]" "i \<notin> {120, 123, 0xFFFF}"
  shows "\<exists>d'. det_dialog (sd_onFinished pr) device n d = Some d' \<and> dClient d' \<and> dOut d' = dOut d \<and>
    length (dLog d') = length (dLog d) + n"
  using assms(1-4)
proof (induction n arbitrary: d u)
  case 0
  then show ?case by simp
next
  case (Suc n)
  define d1 where "d1 = det_startNextRequest 2 (d\<lparr> dPending := dPending d - 1, dState := ModuleHeader,
    dDi := sd_model_id i (dRegister d) (dDi d), dRegister := dRegister d \<rparr>)"
  have "sd_onFinished pr (device reg 2) (d\<lparr> dPending := dPending d - 1 \<rparr>) = Some d1"
    using Suc.prems assms(5,6) by (simp add: sd_onFinished_def sd_onModuleHeader_def d1_def)
  then have "det_dialog (sd_onFinished pr) device (Suc n) d = det_dialog (sd_onFinished pr) device n d1"
    using Suc.prems by (intro det_dialog_step) simp_all
  moreover obtain d' where "det_dialog (sd_onFinished pr) device n d1 = Some d'" "dClient d'"
      "dOut d' = dOut d1" "length (dLog d') = length (dLog d1) + n"
    using Suc.IH [of d1] Suc.prems by (auto simp: d1_def)
  ultimately show ?case by (simp add: d1_def)
qed

theorem sunspec_endless_chain_witness:
  "\<exists>d'. det_dialog (sd_onFinished demo_products) (\<lambda>reg n. [200, 0xFFFE]) 1000
      \<lparr> dDi = new_device_info, dState = ModuleHeader, dRegister = 40070, dClient = True, dLink = LinkUp,
        dPending = 1, dOut = [], dLog = [ReadRegisters 126 40070 2] \<rparr> = Some d' \<and>
    dClient d' \<and> dOut d' = [] \<and> length (dLog d') = 1001"
  using sunspec_endless_chain [of "\<lparr> dDi = new_device_info, dState = ModuleHeader, dRegister = 40070,
      dClient = True, dLink = LinkUp, dPending = 1, dOut = [], dLog = [ReadRegisters 126 40070 2] \<rparr>" 40070 126
      "\<lambda>reg n. [200, 0xFFFE]" 200 demo_products 1000]
  by simp

text \<open>An answer of a single register for the content of a model is read out of bounds.\<close>

lemma sunspec_short_content:
  "dState d = ModuleContent \<Longrightarrow> sd_onFinished pr [v] d = None"
  by (simp add: sd_onFinished_def sd_onModuleContent_def sd_next_model_def Let_def)

end
