(* ===== verification/Sma_Detector.thy ===== *)
theory Sma_Detector
  imports Detection
begin

text \<open>
  Detection of an SMA inverter (\<^verbatim>\<open>sma_detector.cpp\<close>): six reads, one after the other, of the device
  class, the model, the serial number, the software version, the maximum power and the power limit.
  The shift \<^verbatim>\<open>(values[0] << 16) | values[1]\<close> is done on a 32-bit int; the serial number is then
  converted to \<^verbatim>\<open>unsigned long\<close>, whose width (32 bits on the ARM targets, 64 bits on others) is the
  parameter \<open>wide\<close>.
\<close>

datatype smd_state =
    ReadDeviceClass | ReadDeviceType | ReadSerialNumber | ReadSoftwareVersion | ReadMaxPower | SmaReadPowerLimit

type_synonym sma_detection = "smd_state detection"

definition smd_start :: "int \<Rightarrow> string \<Rightarrow> sma_detection" where
  "smd_start unitId host = det_start ReadDeviceClass unitId host"

text \<open>\<^verbatim>\<open>startNextReadRequest\<close> after the assignments of the register and the state.\<close>

definition smd_request :: "u16 \<Rightarrow> smd_state \<Rightarrow> sma_detection \<Rightarrow> sma_detection" where
  "smd_request reg state d = det_startNextRequest 2 (d\<lparr> dRegister := reg, dState := state \<rparr>)"

definition smd_onConnected :: "sma_detection \<Rightarrow> sma_detection" where
  "smd_onConnected d = smd_request 30051 ReadDeviceClass d"

definition BCDtoByte :: "u8 \<Rightarrow> u8" where
  "BCDtoByte bcd = (bcd AND 0x0f) + drop_bit 4 bcd * 10"

definition smd_model_name :: "u32 \<Rightarrow> string option" where
  "smd_model_name modelId =
     (if modelId = 9074 then Some ''SMA SunnyBoy 3000TL-21''
      else if modelId = 9075 then Some ''SMA SunnyBoy 4000TL-21''
      else if modelId = 9076 then Some ''SMA SunnyBoy 5000TL-21''
      else if modelId = 9165 then Some ''SMA SunnyBoy 3600TL-21''
      else None)"

definition smd_onDeviceClass :: "u16 list \<Rightarrow> sma_detection \<Rightarrow> sma_detection" where
  "smd_onDeviceClass values d =
     (if reg32 values 0 \<noteq> 8001 then det_setDone d else smd_request 30053 ReadDeviceType d)"

definition smd_onDeviceType :: "products \<Rightarrow> u16 list \<Rightarrow> sma_detection \<Rightarrow> sma_detection" where
  "smd_onDeviceType pr values d =
     (let modelId = reg32 values 0;
          d = d\<lparr> dDi := (dDi d)\<lparr> deviceType := sint modelId, phaseCount := 1, retrievalMode := ProtocolSMA,
                                 productId := VE_PROD_ID_PV_INVERTER_SMA pr \<rparr> \<rparr>
      in case smd_model_name modelId of
           Some n \<Rightarrow> smd_request 30057 ReadSerialNumber (d\<lparr> dDi := (dDi d)\<lparr> productName := n \<rparr> \<rparr>)
         | None \<Rightarrow> det_setDone (d\<lparr> dDi := (dDi d)\<lparr> phaseCount := 0, deviceType := -1, productId := 0 \<rparr> \<rparr>))"

definition smd_serial :: "bool \<Rightarrow> u16 list \<Rightarrow> string" where
  "smd_serial wide values =
     (let sn = reg32 values 0 in dec (if wide then unat (scast sn :: u64) else unat sn))"

definition smd_onSerialNumber :: "bool \<Rightarrow> u16 list \<Rightarrow> sma_detection \<Rightarrow> sma_detection" where
  "smd_onSerialNumber wide values d =
     smd_request 30059 ReadSoftwareVersion
       (d\<lparr> dDi := (dDi d)\<lparr> serialNumber := smd_serial wide values, uniqueId := smd_serial wide values,
                            firmwareVersion := ''1.0.4'', storageCapacity := Fin 0 \<rparr> \<rparr>)"

definition smd_version :: "u16 list \<Rightarrow> string" where
  "smd_version values =
     (let major = BCDtoByte (msb (reg_at values 0)); minor = BCDtoByte (lsb (reg_at values 0));
          build = BCDtoByte (msb (reg_at values 1)); extra = BCDtoByte (lsb (reg_at values 1))
      in dec (unat major) @ ''.'' @ dec (unat minor) @ ''.'' @ dec (unat build) @ ''.'' @
         (if extra < 6 then [''NEABRS'' ! unat extra] else dec (unat extra)))"

definition smd_onSoftwareVersion :: "u16 list \<Rightarrow> sma_detection \<Rightarrow> sma_detection" where
  "smd_onSoftwareVersion values d =
     smd_request 30231 ReadMaxPower (d\<lparr> dDi := (dDi d)\<lparr> firmwareVersion := smd_version values \<rparr> \<rparr>)"

definition smd_onMaxPower :: "u16 list \<Rightarrow> sma_detection \<Rightarrow> sma_detection" where
  "smd_onMaxPower values d =
     smd_request 30837 SmaReadPowerLimit
       (d\<lparr> dDi := (dDi d)\<lparr> maxPower := of_integer (uint (reg_at values 1)) \<rparr> \<rparr>)"

definition smd_onPowerLimit :: "u16 list \<Rightarrow> sma_detection \<Rightarrow> sma_detection" where
  "smd_onPowerLimit values d =
     det_setDone (det_setResult
       (d\<lparr> dDi := (dDi d)\<lparr> powerLimitScale := of_integer (uint (reg_at values 1)) \<rparr> \<rparr>))"

definition smd_onFinished :: "products \<Rightarrow> bool \<Rightarrow> u16 list \<Rightarrow> sma_detection \<Rightarrow> sma_detection option" where
  "smd_onFinished pr wide values d = Some
     (if length values < 2 then det_setDone d
      else case dState d of
        ReadDeviceClass \<Rightarrow> smd_onDeviceClass values d
      | ReadDeviceType \<Rightarrow> smd_onDeviceType pr values d
      | ReadSerialNumber \<Rightarrow> smd_onSerialNumber wide values d
      | ReadSoftwareVersion \<Rightarrow> smd_onSoftwareVersion values d
      | ReadMaxPower \<Rightarrow> smd_onMaxPower values d
      | SmaReadPowerLimit \<Rightarrow> smd_onPowerLimit values d)"

lemmas smd_handlers = smd_onDeviceClass_def smd_onDeviceType_def smd_onSerialNumber_def
  smd_onSoftwareVersion_def smd_onMaxPower_def smd_onPowerLimit_def

subsection \<open>The detector keeps the contract\<close>

lemma smd_onFinished_progress:
  assumes "smd_onFinished pr wide values d = Some d'" "dClient d"
  shows "det_progress d d'"
proof (cases "dState d")
  case ReadDeviceType
  then show ?thesis using assms
    by (auto simp: smd_onFinished_def smd_handlers smd_request_def Let_def split: if_splits option.split)
qed (use assms in \<open>auto simp: smd_onFinished_def smd_handlers smd_request_def split: if_splits\<close>)

interpretation sma: detector smd_onConnected "smd_onFinished pr wide" for pr wide
  by unfold_locales (simp_all add: smd_onConnected_def smd_request_def smd_onFinished_progress)

text \<open>How many answers a detection still needs.\<close>

fun smd_rank :: "smd_state \<Rightarrow> nat" where
  "smd_rank ReadDeviceClass = 6" | "smd_rank ReadDeviceType = 5" | "smd_rank ReadSerialNumber = 4"
| "smd_rank ReadSoftwareVersion = 3" | "smd_rank ReadMaxPower = 2" | "smd_rank SmaReadPowerLimit = 1"

lemma smd_answer_rank:
  assumes "smd_onFinished pr wide values d = Some d'" "dClient d'"
  shows "Suc (smd_rank (dState d')) = smd_rank (dState d) \<and> length (dLog d') = Suc (length (dLog d))"
  using assms by (cases "dState d")
    (auto simp: smd_onFinished_def smd_handlers smd_request_def Let_def split: if_splits option.splits)

lemma smd_done_log:
  assumes "smd_onFinished pr wide values d = Some d'" "dClient d" "\<not> dClient d'"
  shows "length (dLog d') = length (dLog d)"
  using assms by (cases "dState d")
    (auto simp: smd_onFinished_def smd_handlers smd_request_def Let_def det_startNextRequest_def
       split: if_splits option.splits)

text \<open>Questions asked and to be asked: seven log entries at most, the first of them the connection.\<close>

definition smd_bounded :: "sma_detection \<Rightarrow> bool" where
  "smd_bounded d \<longleftrightarrow> length (dLog d) \<le> 7 \<and> (dClient d \<longrightarrow>
     (if dLink d = LinkUp then length (dLog d) + smd_rank (dState d) = 8 else length (dLog d) = 1))"

lemma smd_rank_pos: "0 < smd_rank s"
  by (cases s) simp_all

lemma smd_bounded_step:
  assumes "smd_bounded d" "det_ok d" "det_enabled d e" "det_step smd_onConnected (smd_onFinished pr wide) d e = Some d'"
  shows "smd_bounded d'"
proof (cases e)
  case DetConnected
  then show ?thesis using assms by (auto simp: smd_bounded_def smd_onConnected_def smd_request_def split: if_splits)
next
  case DetDisconnected
  then show ?thesis using assms by (auto simp: smd_bounded_def det_onDisconnected_def split: if_splits)
next
  case (DetAnswer vs)
  then have s: "smd_onFinished pr wide vs (d\<lparr> dPending := dPending d - 1 \<rparr>) = Some d'" "dClient d" "dLink d = LinkUp"
    using assms by (auto simp: det_ok_def split: if_splits)
  then have "dLink d' = LinkUp" using smd_onFinished_progress [OF s(1)] by (simp add: det_progress_def)
  then show ?thesis
    using smd_answer_rank [OF s(1)] smd_done_log [OF s(1)] assms(1) s(2,3) smd_rank_pos [of "dState d'"]
    by (cases "dClient d'") (auto simp: smd_bounded_def)
qed

lemma smd_reach_bounded:
  assumes "det_reach smd_onConnected (smd_onFinished pr wide) (smd_start unitId host) d"
  shows "smd_bounded d"
  using assms
proof (induction rule: det_reach.induct)
  case det_init
  then show ?case by (simp add: smd_bounded_def smd_start_def det_start_def)
next
  case (det_next d e d')
  then show ?case using sma.reach_ok smd_bounded_step unfolding smd_start_def by blast
qed

text \<open>A byte of two decimal digits.\<close>

lemma BCDtoByte_digits: "unat (BCDtoByte b) = 10 * (unat b div 16) + unat b mod 16"
proof -
  have m: "b AND 0x0f = take_bit 4 b" by (simp add: take_bit_eq_mask mask_eq_exp_minus_1)
  have l: "unat (b AND 0x0f) = unat b mod 16" unfolding m unsigned_take_bit_eq by (simp add: take_bit_eq_mod)
  have h: "unat (drop_bit 4 b) = unat b div 16" unfolding unsigned_drop_bit_eq by (simp add: drop_bit_eq_div take_bit_nat_eq_self)
  have "unat b div 16 < 16" using unat_u8_less [of b] by (simp add: less_mult_imp_div_less)
  then have "10 * (unat b div 16) + unat b mod 16 < 256"
    using mod_less_divisor [of 16 "unat b"] by linarith
  moreover have "BCDtoByte b = of_nat (10 * unat (drop_bit 4 b) + unat (b AND 0x0f))"
    by (simp add: BCDtoByte_def)
  ultimately show ?thesis unfolding l h by (simp only: unat_of_nat_u8)
qed

subsection \<open>The outcome of a detection\<close>

text \<open>
  C28. An SMA detection asks at most six questions and keeps the promise of \<^verbatim>\<open>AbstractDetector\<close>: at
  most one device, then the end of the detection, once; and as long as the end is not signalled
  exactly one thing is awaited, the connection or one answer.
\<close>

theorem sma_detection_terminates:
  assumes "det_reach smd_onConnected (smd_onFinished pr wide) (smd_start unitId host) d"
  shows "length (dLog d) \<le> 1 + 6 \<and>
    dOut d \<in> {[], [DetectionFinished]} \<union> range (\<lambda>i. [DeviceFound i, DetectionFinished]) \<and>
    (DetectionFinished \<notin> set (dOut d) \<longrightarrow>
      dClient d \<and> (dLink d = LinkConnecting \<and> dPending d = 0 \<or> dLink d = LinkUp \<and> dPending d = 1))"
  using smd_reach_bounded [OF assms] sma.reach_out [OF assms [unfolded smd_start_def]]
    sma.reach_waiting [OF assms [unfolded smd_start_def]]
  unfolding smd_bounded_def by simp

lemma demo_sma_detection_reach:
  "det_reach smd_onConnected (smd_onFinished pr wide) (smd_start unitId host)
     (smd_onConnected ((smd_start unitId host)\<lparr> dLink := LinkUp \<rparr>))"
  by (rule det_next [OF det_init, where e = DetConnected]) (simp_all add: smd_start_def det_start_def)

theorem sma_detection_terminates_witness:
  "length (dLog (smd_onConnected ((smd_start 3 ''10.0.0.1'')\<lparr> dLink := LinkUp \<rparr>))) \<le> 7 \<and>
   dPending (smd_onConnected ((smd_start 3 ''10.0.0.1'')\<lparr> dLink := LinkUp \<rparr>)) = 1"
  using sma_detection_terminates [OF demo_sma_detection_reach [of demo_products False 3 "''10.0.0.1''"]]
  by (simp add: smd_onConnected_def smd_request_def smd_start_def det_start_def)

definition smd_info :: "products \<Rightarrow> bool \<Rightarrow> int \<Rightarrow> string \<Rightarrow> u16 list list \<Rightarrow> string \<Rightarrow> device_info" where
  "smd_info pr wide unitId host answers model =
     new_device_info\<lparr> networkId := unitId, hostName := host, deviceType := sint (reg32 (answers ! 1) 0),
       phaseCount := 1, retrievalMode := ProtocolSMA, productId := VE_PROD_ID_PV_INVERTER_SMA pr,
       productName := model, serialNumber := smd_serial wide (answers ! 2),
       uniqueId := smd_serial wide (answers ! 2), firmwareVersion := smd_version (answers ! 3),
       storageCapacity := Fin 0, maxPower := Fin (of_int (uint (answers ! 4 ! 1))),
       powerLimitScale := Fin (of_int (uint (answers ! 5 ! 1))) \<rparr>"

definition smd_outcome :: "products \<Rightarrow> bool \<Rightarrow> int \<Rightarrow> string \<Rightarrow> u16 list list \<Rightarrow> detect_out list" where
  "smd_outcome pr wide unitId host answers =
     (if reg32 (answers ! 0) 0 \<noteq> 8001 then [DetectionFinished]
      else case smd_model_name (reg32 (answers ! 1) 0) of
        None \<Rightarrow> [DetectionFinished]
      | Some model \<Rightarrow> [DeviceFound (smd_info pr wide unitId host answers model), DetectionFinished])"

text \<open>A detection that waits for an answer, in a state and with the information so far.\<close>

definition smd_at :: "smd_state \<Rightarrow> device_info \<Rightarrow> sma_detection \<Rightarrow> bool" where
  "smd_at s di d \<longleftrightarrow> dClient d \<and> dState d = s \<and> dOut d = [] \<and> dDi d = di"

definition smd_answer :: "products \<Rightarrow> bool \<Rightarrow> u16 list \<Rightarrow> sma_detection \<Rightarrow> sma_detection" where
  "smd_answer pr wide a d = the (smd_onFinished pr wide a (d\<lparr> dPending := dPending d - 1 \<rparr>))"

lemma smd_answers_step:
  "dClient d \<Longrightarrow> det_answers (smd_onFinished pr wide) (a # rest) d =
     det_answers (smd_onFinished pr wide) rest (smd_answer pr wide a d)"
  by (simp add: smd_answer_def smd_onFinished_def)

lemma smd_answers_done: "\<not> dClient d \<Longrightarrow> det_answers answer rest d = Some d"
  by (cases rest) simp_all

lemma smd_at_answer:
  assumes "\<not> length a < 2"
  shows "smd_at ReadDeviceClass di d \<Longrightarrow> reg32 a 0 = 8001 \<Longrightarrow> smd_at ReadDeviceType di (smd_answer pr wide a d)"
    and "smd_at ReadDeviceType di d \<Longrightarrow> smd_model_name (reg32 a 0) = Some n \<Longrightarrow>
      smd_at ReadSerialNumber (di\<lparr> deviceType := sint (reg32 a 0), phaseCount := 1, retrievalMode := ProtocolSMA,
        productId := VE_PROD_ID_PV_INVERTER_SMA pr, productName := n \<rparr>) (smd_answer pr wide a d)"
    and "smd_at ReadSerialNumber di d \<Longrightarrow> smd_at ReadSoftwareVersion
      (di\<lparr> serialNumber := smd_serial wide a, uniqueId := smd_serial wide a, firmwareVersion := ''1.0.4'',
           storageCapacity := Fin 0 \<rparr>) (smd_answer pr wide a d)"
    and "smd_at ReadSoftwareVersion di d \<Longrightarrow>
      smd_at ReadMaxPower (di\<lparr> firmwareVersion := smd_version a \<rparr>) (smd_answer pr wide a d)"
    and "smd_at ReadMaxPower di d \<Longrightarrow>
      smd_at SmaReadPowerLimit (di\<lparr> maxPower := of_integer (uint (reg_at a 1)) \<rparr>) (smd_answer pr wide a d)"
  using assms
  by (simp_all add: smd_at_def smd_answer_def smd_onFinished_def smd_handlers smd_request_def Let_def)

lemma smd_at_end:
  assumes "\<not> length a < 2"
  shows "smd_at ReadDeviceClass di d \<Longrightarrow> reg32 a 0 \<noteq> 8001 \<Longrightarrow>
      \<not> dClient (smd_answer pr wide a d) \<and> dOut (smd_answer pr wide a d) = [DetectionFinished]"
    and "smd_at ReadDeviceType di d \<Longrightarrow> smd_model_name (reg32 a 0) = None \<Longrightarrow>
      \<not> dClient (smd_answer pr wide a d) \<and> dOut (smd_answer pr wide a d) = [DetectionFinished]"
    and "smd_at SmaReadPowerLimit di d \<Longrightarrow> \<not> dClient (smd_answer pr wide a d) \<and>
      dOut (smd_answer pr wide a d) =
        [DeviceFound (di\<lparr> powerLimitScale := of_integer (uint (reg_at a 1)) \<rparr>), DetectionFinished]"
  using assms
  by (simp_all add: smd_at_def smd_answer_def smd_onFinished_def smd_handlers Let_def)

lemma smd_at_client: "smd_at s di d \<Longrightarrow> dClient d"
  by (simp add: smd_at_def)

text \<open>
  C9. A device that answers all six reads is reported exactly when its class is 8001 (a solar inverter)
  and its model is one of the four that are known, with the serial number and version decoded from
  the registers, and the maximum power and the power limit as exact numbers.
\<close>

theorem sma_detection_outcome:
  assumes "length answers = 6" "list_all (\<lambda>a. 2 \<le> length a) answers"
  shows "map_option dOut (det_answers (smd_onFinished pr wide) answers
      (smd_onConnected ((smd_start unitId host)\<lparr> dLink := LinkUp \<rparr>))) =
    Some (smd_outcome pr wide unitId host answers)"
proof -
  obtain a b c d e f where a: "answers = [a, b, c, d, e, f]"
    using assms(1) by (auto simp: numeral_eq_Suc length_Suc_conv)
  have len: "\<not> length a < 2" "\<not> length b < 2" "\<not> length c < 2" "\<not> length d < 2" "\<not> length e < 2" "\<not> length f < 2"
    using assms(2) a by auto
  have reg: "reg_at e 1 = e ! 1" "reg_at f 1 = f ! 1" using len by (auto simp: reg_at_def)
  define d0 where "d0 = smd_onConnected ((smd_start unitId host)\<lparr> dLink := LinkUp \<rparr>)"
  define d1 where "d1 = smd_answer pr wide a d0"
  define d2 where "d2 = smd_answer pr wide b d1"
  let ?di = "new_device_info\<lparr> networkId := unitId, hostName := host \<rparr>"
  have at0: "smd_at ReadDeviceClass ?di d0"
    by (simp add: d0_def smd_at_def smd_onConnected_def smd_request_def smd_start_def det_start_def)
  note run = smd_answers_step [OF smd_at_client]
  show ?thesis
  proof (cases "reg32 a 0 = 8001")
    case False
    then show ?thesis using smd_at_end(1) [OF len(1) at0] at0
      by (simp add: a d0_def [symmetric] run [OF at0] smd_answers_done smd_outcome_def del: det_answers.simps(2))
  next
    case known: True
    have at1: "smd_at ReadDeviceType ?di d1" using smd_at_answer(1) [OF len(1) at0 known] by (simp add: d1_def)
    show ?thesis
    proof (cases "smd_model_name (reg32 b 0)")
      case None
      then show ?thesis using smd_at_end(2) [OF len(2) at1 None] known
        by (simp add: a d0_def [symmetric] run [OF at0] d1_def [symmetric] run [OF at1] smd_answers_done
            smd_outcome_def del: det_answers.simps(2))
    next
      case (Some n)
      note at2 = smd_at_answer(2) [OF len(2) at1 Some]
      note at3 = smd_at_answer(3) [OF len(3) at2]
      note at4 = smd_at_answer(4) [OF len(4) at3]
      note at5 = smd_at_answer(5) [OF len(5) at4]
      show ?thesis using smd_at_end(3) [OF len(6) at5] known Some reg
        by (simp add: a d0_def [symmetric] run [OF at0] d1_def [symmetric] run [OF at1] run [OF at2] run [OF at3]
            run [OF at4] run [OF at5] smd_outcome_def smd_info_def of_integer_word smd_answers_done
            del: det_answers.simps(2))
    qed
  qed
qed

theorem sma_detection_outcome_witness:
  "map_option dOut (det_answers (smd_onFinished demo_products False)
      [[0, 8001], [0, 9076], [0x7D3C, 0x1A2B], [0x0203, 0x0104], [0, 4600], [0, 4600]]
      (smd_onConnected ((smd_start 3 ''10.0.0.1'')\<lparr> dLink := LinkUp \<rparr>))) =
    Some (smd_outcome demo_products False 3 ''10.0.0.1''
      [[0, 8001], [0, 9076], [0x7D3C, 0x1A2B], [0x0203, 0x0104], [0, 4600], [0, 4600]])"
  by (rule sma_detection_outcome) simp_all

end
