(* ===== verification/Solar_Api.thy ===== *)
theory Solar_Api
  imports Data_Processor
begin

text \<open>
  The client of the Fronius solar API (\<^verbatim>\<open>froniussolar_api.cpp\<close>): HTTP requests with a JSON reply.  The
  HTTP client is the log of the requests and the error or the body that it ends a request with; a
  client that is deleted with a request pending ends it with an error.  The JSON engine and the
  conversions between text and doubles are the environment \<open>json_env\<close>; a map holds its entries in the
  order of their keys, as \<^verbatim>\<open>QVariantMap\<close> does.
\<close>

datatype json =
    JInvalid
  | JBool bool
  | JNumber dbl
  | JString string
  | JList "json list"
  | JMap "(string \<times> json) list"

record json_env =
  jeParse :: "string \<Rightarrow> json"
  jeToDouble :: "string \<Rightarrow> dbl"
  jeNumber :: "dbl \<Rightarrow> string"

subsection \<open>Values\<close>

fun json_map :: "json \<Rightarrow> (string \<times> json) list" where
  "json_map (JMap m) = m"
| "json_map _ = []"

fun json_toDouble :: "json_env \<Rightarrow> json \<Rightarrow> dbl" where
  "json_toDouble env (JNumber d) = d"
| "json_toDouble env (JBool b) = (if b then Fin 1 else Fin 0)"
| "json_toDouble env (JString s) = jeToDouble env s"
| "json_toDouble env _ = Fin 0"

definition text_toInt :: "string \<Rightarrow> int" where
  "text_toInt s = (case to_int s of None \<Rightarrow> 0 | Some i \<Rightarrow> i)"

fun json_toInt :: "json \<Rightarrow> int" where
  "json_toInt (JNumber d) = qRound d"
| "json_toInt (JBool b) = (if b then 1 else 0)"
| "json_toInt (JString s) = text_toInt s"
| "json_toInt _ = 0"

fun json_toString :: "json_env \<Rightarrow> json \<Rightarrow> string" where
  "json_toString env (JString s) = s"
| "json_toString env (JNumber d) = jeNumber env d"
| "json_toString env (JBool b) = (if b then ''true'' else ''false'')"
| "json_toString env _ = []"

definition json_get :: "string \<Rightarrow> json \<Rightarrow> json" where
  "json_get k j = (case map_of (json_map j) k of None \<Rightarrow> JInvalid | Some v \<Rightarrow> v)"

definition getByPath :: "json \<Rightarrow> string \<Rightarrow> json" where
  "getByPath variant path = foldl (\<lambda>m k. json_get k m) variant (split_on (CHR ''/'') path)"

subsection \<open>Replies\<close>

record inverter_info =
  iiId :: int
  iiUniqueId :: string
  iiCustomName :: string
  iiDeviceType :: int
  iiErrorCode :: int
  iiStatusCode :: int

record inverter_list_data = solar_api_reply +
  ilInverters :: "inverter_info list"

record device_info_data = solar_api_reply +
  didSerialInfo :: "int \<rightharpoonup> string"

datatype api_signal =
    ConverterInfoFound inverter_list_data
  | CommonDataFound common_data
  | ThreePhasesDataFound three_phases_data
  | DeviceInfoFound device_info_data

definition NoStatusMessage :: string where
  "NoStatusMessage = ''Reply message has no status (we'' @ [CHR 0x27] @
     ''re probably talking to a device that does not support the Fronius Solar API)''"

text \<open>\<^verbatim>\<open>processReply\<close>: the error, its message and the parsed map.\<close>

definition sap_processReply :: "json_env \<Rightarrow> string \<Rightarrow> string \<Rightarrow> api_error \<times> string \<times> json" where
  "sap_processReply env networkError result =
     (if networkError \<noteq> [] then (NetworkError, networkError, JMap [])
      else
        let m = JMap (if result \<noteq> [] then json_map (jeParse env result) else []);
            status = getByPath m ''Head/Status''
        in case map_of (json_map status) ''Code'' of
             None \<Rightarrow> (NetworkError, NoStatusMessage, m)
           | Some code \<Rightarrow>
               if json_toInt code \<noteq> 0 then (ApiError, json_toString env (json_get ''Reason'' status), m)
               else (NoError, [], m))"

definition sap_inverter :: "json_env \<Rightarrow> string \<times> json \<Rightarrow> inverter_info" where
  "sap_inverter env entry =
     (let di = snd entry
      in \<lparr> iiId = text_toInt (fst entry), iiUniqueId = json_toString env (json_get ''UniqueID'' di),
           iiCustomName = json_toString env (json_get ''CustomName'' di),
           iiDeviceType = json_toInt (json_get ''DT'' di), iiErrorCode = json_toInt (json_get ''ErrorCode'' di),
           iiStatusCode = json_toInt (json_get ''StatusCode'' di) \<rparr>)"

definition sap_processConverterInfo :: "json_env \<Rightarrow> string \<Rightarrow> string \<Rightarrow> inverter_list_data" where
  "sap_processConverterInfo env networkError result =
     (let (err, msg, m) = sap_processReply env networkError result;
          devices = json_map (getByPath m ''Body/Data'')
      in \<lparr> raError = err, raErrorMessage = msg, ilInverters = map (sap_inverter env) devices \<rparr>)"

definition sap_processCommonData :: "json_env \<Rightarrow> string \<Rightarrow> string \<Rightarrow> common_data" where
  "sap_processCommonData env networkError result =
     (let (err, msg, m) = sap_processReply env networkError result;
          d = getByPath m ''Body/Data'';
          num = (\<lambda>path. json_toDouble env (getByPath d path))
      in \<lparr> raError = err, raErrorMessage = msg,
           cdDeviceId = json_toString env (getByPath m ''Head/RequestArguments/DeviceId''),
           cdAcPower = num ''PAC/Value'', cdAcCurrent = num ''IAC/Value'', cdAcVoltage = num ''UAC/Value'',
           cdAcFrequency = num ''FAC/Value'', cdDcCurrent = num ''IDC/Value'', cdDcVoltage = num ''UDC/Value'',
           cdDayEnergy = num ''DAY_ENERGY/Value'', cdYearEnergy = num ''YEAR_ENERGY/Value'',
           cdTotalEnergy = num ''TOTAL_ENERGY/Value'',
           cdStatusCode = json_toInt (getByPath d ''DeviceStatus/StatusCode''),
           cdErrorCode = json_toInt (getByPath d ''DeviceStatus/ErrorCode'') \<rparr>)"

definition sap_processThreePhasesData :: "json_env \<Rightarrow> string \<Rightarrow> string \<Rightarrow> three_phases_data" where
  "sap_processThreePhasesData env networkError result =
     (let (err, msg, m) = sap_processReply env networkError result;
          d = getByPath m ''Body/Data'';
          num = (\<lambda>path. json_toDouble env (getByPath d path))
      in \<lparr> raError = err, raErrorMessage = msg,
           tpDeviceId = json_toString env (getByPath m ''Head/RequestArguments/DeviceId''),
           tpAcCurrent1 = num ''IAC_L1/Value'', tpAcVoltage1 = num ''UAC_L1/Value'',
           tpAcCurrent2 = num ''IAC_L2/Value'', tpAcVoltage2 = num ''UAC_L2/Value'',
           tpAcCurrent3 = num ''IAC_L3/Value'', tpAcVoltage3 = num ''UAC_L3/Value'' \<rparr>)"

definition sap_processDeviceInfo :: "json_env \<Rightarrow> string \<Rightarrow> string \<Rightarrow> device_info_data" where
  "sap_processDeviceInfo env networkError result =
     (let (err, msg, m) = sap_processReply env networkError result;
          devices = json_map (getByPath m ''Body/Data'')
      in \<lparr> raError = err, raErrorMessage = msg,
           didSerialInfo = foldl (\<lambda>info (k, di). info(text_toInt k \<mapsto> json_toString env (json_get ''Serial'' di)))
             Map.empty devices \<rparr>)"

subsection \<open>Requests\<close>

datatype api_request = GetInverterInfo | GetCommonData | GetThreePhasesInverterData | GetDeviceInfo

record solar_api =
  sapHost :: string
  sapPort :: int
  sapRequest :: "api_request option"
  sapTimer :: bool
  sapLog :: "(string \<times> int \<times> string) list"

definition sap_new :: "string \<Rightarrow> int \<Rightarrow> solar_api" where
  "sap_new host port = \<lparr> sapHost = host, sapPort = port, sapRequest = None, sapTimer = False, sapLog = [] \<rparr>"

definition sap_sendGetRequest :: "string \<Rightarrow> api_request \<Rightarrow> solar_api \<Rightarrow> solar_api" where
  "sap_sendGetRequest request i s =
     s\<lparr> sapLog := sapLog s @ [(sapHost s, sapPort s, request)], sapRequest := Some i, sapTimer := True \<rparr>"

definition realtime_url :: "int \<Rightarrow> string \<Rightarrow> string" where
  "realtime_url deviceId collection =
     ''/solar_api/v1/GetInverterRealtimeData.cgi?Scope=Device&DeviceId='' @ dec_int deviceId @
     ''&DataCollection='' @ collection"

definition sap_getConverterInfoAsync :: "solar_api \<Rightarrow> solar_api" where
  "sap_getConverterInfoAsync = sap_sendGetRequest ''/solar_api/v1/GetInverterInfo.cgi'' GetInverterInfo"

definition sap_getCommonDataAsync :: "int \<Rightarrow> solar_api \<Rightarrow> solar_api" where
  "sap_getCommonDataAsync deviceId =
     sap_sendGetRequest (realtime_url deviceId ''CommonInverterData'') GetCommonData"

definition sap_getThreePhasesInverterDataAsync :: "int \<Rightarrow> solar_api \<Rightarrow> solar_api" where
  "sap_getThreePhasesInverterDataAsync deviceId =
     sap_sendGetRequest (realtime_url deviceId ''3PInverterData'') GetThreePhasesInverterData"

definition sap_getDeviceInfoAsync :: "solar_api \<Rightarrow> solar_api" where
  "sap_getDeviceInfoAsync =
     sap_sendGetRequest ''/solar_api/v1/GetActiveDeviceInfo.cgi?DeviceClass=Inverter'' GetDeviceInfo"

text \<open>
  \<^verbatim>\<open>onDone\<close>: the error of the client, if any, and the body; the result is the signal that is emitted.
  Every branch calls \<^verbatim>\<open>processReply\<close> first, which ends the request.
\<close>

definition sap_onDone :: "json_env \<Rightarrow> string option \<Rightarrow> string \<Rightarrow> solar_api \<Rightarrow> solar_api \<times> api_signal option" where
  "sap_onDone env err body s =
     (let networkError = (case err of None \<Rightarrow> [] | Some e \<Rightarrow> e);
          done = s\<lparr> sapRequest := None, sapTimer := False \<rparr>
      in case sapRequest s of
           None \<Rightarrow> (s, None)
         | Some GetInverterInfo \<Rightarrow> (done, Some (ConverterInfoFound (sap_processConverterInfo env networkError body)))
         | Some GetCommonData \<Rightarrow> (done, Some (CommonDataFound (sap_processCommonData env networkError body)))
         | Some GetThreePhasesInverterData \<Rightarrow>
             (done, Some (ThreePhasesDataFound (sap_processThreePhasesData env networkError body)))
         | Some GetDeviceInfo \<Rightarrow> (done, Some (DeviceInfoFound (sap_processDeviceInfo env networkError body))))"

text \<open>Deleting the client ends its request; a new one is made for the host and port.\<close>

definition sap_updateHttpClient :: "json_env \<Rightarrow> solar_api \<Rightarrow> solar_api \<times> api_signal option" where
  "sap_updateHttpClient env s = sap_onDone env (Some ''Request aborted'') [] s"

definition sap_setHostName :: "json_env \<Rightarrow> string \<Rightarrow> solar_api \<Rightarrow> solar_api \<times> api_signal option" where
  "sap_setHostName env h s = (if sapHost s = h then (s, None) else sap_updateHttpClient env (s\<lparr> sapHost := h \<rparr>))"

definition sap_setPort :: "json_env \<Rightarrow> int \<Rightarrow> solar_api \<Rightarrow> solar_api \<times> api_signal option" where
  "sap_setPort env p s = (if sapPort s = p then (s, None) else sap_updateHttpClient env (s\<lparr> sapPort := p \<rparr>))"

text \<open>The timer runs with a request: the request is aborted.\<close>

definition sap_onTimeout :: "json_env \<Rightarrow> solar_api \<Rightarrow> solar_api \<times> api_signal option" where
  "sap_onTimeout env s = sap_onDone env (Some ''Request aborted'') [] s"

subsection \<open>Reading a reply\<close>

text \<open>A value with its unit, and the reply that a data manager makes of a measurement.\<close>

definition json_value :: "dbl \<Rightarrow> json" where
  "json_value d = JMap [(''Unit'', JString []), (''Value'', JNumber d)]"

definition json_int :: "int \<Rightarrow> json" where
  "json_int i = JNumber (of_integer i)"

definition common_json :: "common_data \<Rightarrow> json" where
  "common_json c = JMap
     [(''DAY_ENERGY'', json_value (cdDayEnergy c)),
      (''DeviceStatus'', JMap [(''ErrorCode'', json_int (cdErrorCode c)), (''StatusCode'', json_int (cdStatusCode c))]),
      (''FAC'', json_value (cdAcFrequency c)), (''IAC'', json_value (cdAcCurrent c)),
      (''IDC'', json_value (cdDcCurrent c)), (''PAC'', json_value (cdAcPower c)),
      (''TOTAL_ENERGY'', json_value (cdTotalEnergy c)), (''UAC'', json_value (cdAcVoltage c)),
      (''UDC'', json_value (cdDcVoltage c)), (''YEAR_ENERGY'', json_value (cdYearEnergy c))]"

definition three_phases_json :: "three_phases_data \<Rightarrow> json" where
  "three_phases_json c = JMap
     [(''IAC_L1'', json_value (tpAcCurrent1 c)), (''IAC_L2'', json_value (tpAcCurrent2 c)),
      (''IAC_L3'', json_value (tpAcCurrent3 c)), (''UAC_L1'', json_value (tpAcVoltage1 c)),
      (''UAC_L2'', json_value (tpAcVoltage2 c)), (''UAC_L3'', json_value (tpAcVoltage3 c))]"

definition reply_json :: "string \<Rightarrow> int \<Rightarrow> string \<Rightarrow> json \<Rightarrow> json" where
  "reply_json deviceId code reason data = JMap
     [(''Body'', JMap [(''Data'', data)]),
      (''Head'', JMap [(''RequestArguments'', JMap [(''DeviceId'', JString deviceId)]),
                       (''Status'', JMap [(''Code'', json_int code), (''Reason'', JString reason)])])]"

lemma json_get_simps [simp]:
  "json_get k (JMap m) = (case map_of m k of None \<Rightarrow> JInvalid | Some v \<Rightarrow> v)"
  "json_get k JInvalid = JInvalid"
  by (simp_all add: json_get_def)

lemma getByPath_simps:
  "getByPath j ''Head/Status'' = json_get ''Status'' (json_get ''Head'' j)"
  "getByPath j ''Body/Data'' = json_get ''Data'' (json_get ''Body'' j)"
  "getByPath j ''Head/RequestArguments/DeviceId'' =
     json_get ''DeviceId'' (json_get ''RequestArguments'' (json_get ''Head'' j))"
  by (simp_all add: getByPath_def)

lemma json_toInt_int: "\<bar>i\<bar> < 2 ^ 31 \<Longrightarrow> json_toInt (json_int i) = i"
  using qRound_int [of i] qRound_neg_int [of i] by (cases "0 \<le> i") (simp_all add: json_int_def of_integer_small)

lemma processReply_ok:
  assumes "jeParse env result = reply_json deviceId 0 reason data" "result \<noteq> []"
  shows "sap_processReply env [] result = (NoError, [], reply_json deviceId 0 reason data)"
  using assms json_toInt_int [of 0] by (simp add: sap_processReply_def getByPath_simps reply_json_def)

text \<open>A reply with an error code is an error of the API, with its reason; one without a status is none of it.\<close>

lemma processReply_error:
  assumes "jeParse env result = reply_json deviceId code reason data" "result \<noteq> []" "code \<noteq> 0" "\<bar>code\<bar> < 2 ^ 31"
  shows "sap_processReply env [] result = (ApiError, reason, reply_json deviceId code reason data)"
  using assms json_toInt_int [of code] by (simp add: sap_processReply_def getByPath_simps reply_json_def)

lemma processReply_no_status:
  assumes "json_map (getByPath (JMap (json_map (jeParse env result))) ''Head/Status'') = []" "result \<noteq> []"
  shows "fst (sap_processReply env [] result) = NetworkError"
  using assms by (simp add: sap_processReply_def)

lemma json_value_get [simp]: "json_get ''Value'' (json_value d) = JNumber d"
  by (simp add: json_value_def)

lemma getByPath_value:
  "CHR ''/'' \<notin> set k \<Longrightarrow> getByPath j (k @ ''/Value'') = json_get ''Value'' (json_get k j)"
  by (simp add: getByPath_def split_on_append split_on_no_sep)

lemmas value_paths = getByPath_value [of "''PAC''", simplified] getByPath_value [of "''IAC''", simplified]
  getByPath_value [of "''UAC''", simplified] getByPath_value [of "''FAC''", simplified]
  getByPath_value [of "''IDC''", simplified] getByPath_value [of "''UDC''", simplified]
  getByPath_value [of "''DAY_ENERGY''", simplified] getByPath_value [of "''YEAR_ENERGY''", simplified]
  getByPath_value [of "''TOTAL_ENERGY''", simplified]
  getByPath_value [of "''IAC_L1''", simplified] getByPath_value [of "''IAC_L2''", simplified]
  getByPath_value [of "''IAC_L3''", simplified] getByPath_value [of "''UAC_L1''", simplified]
  getByPath_value [of "''UAC_L2''", simplified] getByPath_value [of "''UAC_L3''", simplified]

lemma status_paths:
  "getByPath j ''DeviceStatus/StatusCode'' = json_get ''StatusCode'' (json_get ''DeviceStatus'' j)"
  "getByPath j ''DeviceStatus/ErrorCode'' = json_get ''ErrorCode'' (json_get ''DeviceStatus'' j)"
  by (simp_all add: getByPath_def)

lemma common_read_back:
  assumes "jeParse env body = reply_json deviceId 0 reason (common_json c)" "body \<noteq> []"
    and "\<bar>cdStatusCode c\<bar> < 2 ^ 31" "\<bar>cdErrorCode c\<bar> < 2 ^ 31"
  shows "sap_processCommonData env [] body = c\<lparr> raError := NoError, raErrorMessage := [], cdDeviceId := deviceId \<rparr>"
proof -
  let ?j = "reply_json deviceId 0 reason (common_json c)"
  have d: "getByPath ?j ''Body/Data'' = common_json c"
    and i: "getByPath ?j ''Head/RequestArguments/DeviceId'' = JString deviceId"
    unfolding getByPath_simps by (simp_all add: reply_json_def)
  show ?thesis
    unfolding sap_processCommonData_def processReply_ok [OF assms(1,2)] Let_def prod.case d i value_paths status_paths
    by (simp add: common_json_def json_toInt_int [OF assms(3)] json_toInt_int [OF assms(4)])
qed

lemma three_phases_read_back:
  assumes "jeParse env body = reply_json deviceId 0 reason (three_phases_json tp)" "body \<noteq> []"
  shows "sap_processThreePhasesData env [] body = tp\<lparr> raError := NoError, raErrorMessage := [], tpDeviceId := deviceId \<rparr>"
proof -
  let ?j = "reply_json deviceId 0 reason (three_phases_json tp)"
  have d: "getByPath ?j ''Body/Data'' = three_phases_json tp"
    and i: "getByPath ?j ''Head/RequestArguments/DeviceId'' = JString deviceId"
    unfolding getByPath_simps by (simp_all add: reply_json_def)
  show ?thesis
    unfolding sap_processThreePhasesData_def processReply_ok [OF assms] Let_def prod.case d i value_paths
    by (simp add: three_phases_json_def)
qed

text \<open>
  C24. Measurements survive the JSON reply: from a reply without an error, whatever its text is, the
  client reads every value of both kinds of measurement into its own field, with the id of the
  device of the request.
\<close>

theorem solar_measurements_read_back:
  assumes "jeParse env body = reply_json deviceId 0 reason (common_json c)" "body \<noteq> []"
    and "jeParse env body3 = reply_json deviceId 0 reason (three_phases_json tp)" "body3 \<noteq> []"
    and "\<bar>cdStatusCode c\<bar> < 2 ^ 31" "\<bar>cdErrorCode c\<bar> < 2 ^ 31"
  shows "sap_processCommonData env [] body = c\<lparr> raError := NoError, raErrorMessage := [], cdDeviceId := deviceId \<rparr> \<and>
    sap_processThreePhasesData env [] body3 = tp\<lparr> raError := NoError, raErrorMessage := [], tpDeviceId := deviceId \<rparr>"
  using common_read_back [OF assms(1,2,5,6)] three_phases_read_back [OF assms(3,4)] by blast

text \<open>A JSON engine that knows two replies.\<close>

definition demo_json_env :: json_env where
  "demo_json_env = \<lparr> jeParse = (\<lambda>s. if s = ''c'' then reply_json ''1'' 0 [] (common_json demo_common)
       else reply_json ''1'' 0 [] (three_phases_json demo_data)),
     jeToDouble = (\<lambda>_. Fin 0), jeNumber = (\<lambda>_. []) \<rparr>"

theorem solar_measurements_read_back_witness:
  "sap_processCommonData demo_json_env [] ''c'' = demo_common \<and>
   sap_processThreePhasesData demo_json_env [] ''3'' = demo_data"
  using solar_measurements_read_back [of demo_json_env "''c''" "''1''" "[]" demo_common "''3''" demo_data]
  by (simp add: demo_json_env_def demo_common_def demo_data_def)

end
