(* ===== verification/Fronius_Device_Info.thy ===== *)
theory Fronius_Device_Info
  imports Main
begin

text \<open>
  The table of Fronius device types (\<^verbatim>\<open>fronius_device_info.cpp\<close>) and the binary search in it.
\<close>

record fronius_device_info =
  fdType :: int
  fdPhaseCount :: int
  fdMultiString :: bool
  fdName :: string

definition fdi :: "int \<Rightarrow> int \<Rightarrow> bool \<Rightarrow> string \<Rightarrow> fronius_device_info" where
  "fdi t n multi name = \<lparr> fdType = t, fdPhaseCount = n, fdMultiString = multi, fdName = name \<rparr>"

definition Devices :: "fronius_device_info list" where
  "Devices = [
     fdi 71 3 False ''FRONIUS Symo 15.0-3 208'',
     fdi 72 3 False ''FRONIUS Eco 27.0-3-S'',
     fdi 73 3 False ''FRONIUS Eco 25.0-3-S'',
     fdi 74 1 False ''Remote Plant'',
     fdi 75 1 False ''Fronius Primo 6.0-1'',
     fdi 76 1 False ''Fronius Primo 5.0-1'',
     fdi 77 1 False ''Fronius Primo 4.6-1'',
     fdi 78 1 False ''Fronius Primo 4.0-1'',
     fdi 79 1 False ''Fronius Primo 3.6-1'',
     fdi 80 1 False ''Fronius Primo 3.5-1'',
     fdi 81 1 False ''Fronius Primo 3.0-1'',
     fdi 82 3 False ''Fronius Symo Hybrid 4.0-3-S'',
     fdi 83 3 False ''Fronius Symo Hybrid 3.0-3-S'',
     fdi 84 1 False ''Fronius IG Plus 120 V-1'',
     fdi 85 1 False ''Fronius Primo 3.8-1 208-240'',
     fdi 86 1 False ''Fronius Primo 5.0-1 208-240'',
     fdi 87 1 False ''Fronius Primo 6.0-1 208-240'',
     fdi 88 1 False ''Fronius Primo 7.6-1 208-240'',
     fdi 89 3 True ''Fronius Symo 24.0-3 USA Dummy'',
     fdi 90 3 True ''Fronius Symo 24.0-3 480'',
     fdi 91 3 True ''Fronius Symo 22.7-3 480'',
     fdi 92 3 True ''Fronius Symo 20.0-3 480'',
     fdi 93 3 True ''Fronius Symo 17.5-3 480'',
     fdi 94 3 True ''Fronius Symo 15.0-3 480'',
     fdi 95 3 True ''Fronius Symo 12.5-3 480'',
     fdi 96 3 True ''Fronius Symo 10.0-3 480'',
     fdi 97 3 True ''Fronius Symo 12.0-3 208-240'',
     fdi 98 3 True ''Fronius Symo 10.0-3 208-240'',
     fdi 99 3 False ''Fronius Symo Hybrid 5.0-3-S'',
     fdi 100 1 False ''Fronius Primo 8.2-1 Dummy'',
     fdi 101 1 False ''Fronius Primo 8.2-1 208-240'',
     fdi 102 1 False ''Fronius Primo 8.2-1'',
     fdi 103 3 False ''Fronius Agilo TL 360.0-3'',
     fdi 104 3 False ''Fronius Agilo TL 460.0-3'',
     fdi 105 3 True ''Fronius Symo 7.0-3-M'',
     fdi 106 1 False ''Fronius Galvo 3.1-1 208-240'',
     fdi 107 1 False ''Fronius Galvo 2.5-1 208-240'',
     fdi 108 1 False ''Fronius Galvo 2.0-1 208-240'',
     fdi 109 1 False ''Fronius Galvo 1.5-1 208-240'',
     fdi 110 3 True ''Fronius Symo 6.0-3-M'',
     fdi 111 3 True ''Fronius Symo 4.5-3-M'',
     fdi 112 3 True ''Fronius Symo 3.7-3-M'',
     fdi 113 3 True ''Fronius Symo 3.0-3-M'',
     fdi 114 3 True ''Fronius Symo 17.5-3-M'',
     fdi 115 3 True ''Fronius Symo 15.0-3-M'',
     fdi 116 3 False ''Fronius Agilo 75.0-3 Outdoor'',
     fdi 117 3 False ''Fronius Agilo 100.0-3 Outdoor'',
     fdi 118 1 False ''Fronius IG Plus 55 V-1'',
     fdi 119 2 False ''Fronius IG Plus 55 V-2'',
     fdi 120 3 True ''Fronius Symo 20.0-3 Dummy'',
     fdi 121 3 True ''Fronius Symo 20.0-3-M'',
     fdi 122 3 True ''Fronius Symo 5.0-3-M'',
     fdi 123 3 True ''Fronius Symo 8.2-3-M'',
     fdi 124 3 True ''Fronius Symo 6.7-3-M'',
     fdi 125 3 True ''Fronius Symo 5.5-3-M'',
     fdi 126 3 False ''Fronius Symo 4.5-3-S'',
     fdi 127 3 False ''Fronius Symo 3.7-3-S'',
     fdi 128 2 False ''Fronius IG Plus 60 V-2'',
     fdi 129 1 False ''Fronius IG Plus 60 V-1'',
     fdi 130 3 False ''SPR 8001F-3 EU'',
     fdi 131 1 False ''Fronius IG Plus 25 V-1'',
     fdi 132 3 False ''Fronius IG Plus 100 V-3'',
     fdi 133 3 False ''Fronius Agilo 100.0-3'',
     fdi 134 1 False ''SPR 3001F-1 EU'',
     fdi 135 3 False ''Fronius IG Plus V/A 10.0-3 Delta'',
     fdi 136 1 False ''Fronius IG 50'',
     fdi 137 1 False ''Fronius IG Plus 30 V-1'',
     fdi 138 1 False ''SPR-11401f-1 UNI'',
     fdi 139 3 False ''SPR-12001f-3 WYE277'',
     fdi 140 3 False ''SPR-11401f-3 Delta'',
     fdi 141 1 False ''SPR-10001f-1 UNI'',
     fdi 142 1 False ''SPR-7501f-1 UNI'',
     fdi 143 1 False ''SPR-6501f-1 UNI'',
     fdi 144 1 False ''SPR-3801f-1 UNI'',
     fdi 145 1 False ''SPR-3301f-1 UNI'',
     fdi 146 3 False ''SPR 12001F-3 EU'',
     fdi 147 3 False ''SPR 10001F-3 EU'',
     fdi 148 2 False ''SPR 8001F-2 EU'',
     fdi 149 2 False ''SPR 6501F-2 EU'',
     fdi 150 1 False ''SPR 4001F-1 EU'',
     fdi 151 1 False ''SPR 3501F-1 EU'',
     fdi 152 1 False ''Fronius CL 60.0 WYE277 Dummy'',
     fdi 153 1 False ''Fronius CL 55.5 Delta Dummy'',
     fdi 154 1 False ''Fronius CL 60.0 Dummy'',
     fdi 155 3 False ''Fronius IG Plus V 12.0-3 Dummy'',
     fdi 156 1 False ''Fronius IG Plus V 7.5-1 Dummy'',
     fdi 157 1 False ''Fronius IG Plus V 3.8-1 Dummy'',
     fdi 158 3 False ''Fronius IG Plus 150 V-3 Dummy'',
     fdi 159 2 False ''Fronius IG Plus 100 V-2 Dummy'',
     fdi 160 1 False ''Fronius IG Plus 50 V-1 Dummy'',
     fdi 161 3 False ''Fronius IG Plus V/A 12.0-3 WYE'',
     fdi 162 3 False ''Fronius IG Plus V/A 11.4-3 Delta'',
     fdi 163 1 False ''Fronius IG Plus V/A 11.4-1 UNI'',
     fdi 164 1 False ''Fronius IG Plus V/A 10.0-1 UNI'',
     fdi 165 1 False ''Fronius IG Plus V/A 7.5-1 UNI'',
     fdi 166 1 False ''Fronius IG Plus V/A 6.0-1 UNI'',
     fdi 167 1 False ''Fronius IG Plus V/A 5.0-1 UNI'',
     fdi 168 1 False ''Fronius IG Plus V/A 3.8-1 UNI'',
     fdi 169 1 False ''Fronius IG Plus V/A 3.0-1 UNI'',
     fdi 170 3 False ''Fronius IG Plus 150 V-3'',
     fdi 171 3 False ''Fronius IG Plus 120 V-3'',
     fdi 172 2 False ''Fronius IG Plus 100 V-2'',
     fdi 173 1 False ''Fronius IG Plus 100 V-1'',
     fdi 174 2 False ''Fronius IG Plus 70 V-2'',
     fdi 175 1 False ''Fronius IG Plus 70 V-1'',
     fdi 176 1 False ''Fronius IG Plus 50 V-1'',
     fdi 177 1 False ''Fronius IG Plus 35 V-1'',
     fdi 178 3 False ''SPR 11400f-3 208/240'',
     fdi 179 1 False ''SPR 12000f-277'',
     fdi 180 1 False ''SPR 10000f'',
     fdi 181 1 False ''SPR 10000F EU'',
     fdi 182 1 False ''Fronius CL 33.3 Delta'',
     fdi 183 1 False ''Fronius CL 44.4 Delta'',
     fdi 184 1 False ''Fronius CL 55.5 Delta'',
     fdi 185 1 False ''Fronius CL 36.0 WYE277'',
     fdi 186 1 False ''Fronius CL 48.0 WYE277'',
     fdi 187 1 False ''Fronius CL 60.0 WYE277'',
     fdi 188 1 False ''Fronius CL 36.0'',
     fdi 189 1 False ''Fronius CL 48.0'',
     fdi 190 1 False ''Fronius IG TL 3.0'',
     fdi 191 1 False ''Fronius IG TL 4.0'',
     fdi 192 1 False ''Fronius IG TL 5.0'',
     fdi 193 1 False ''Fronius IG TL 3.6'',
     fdi 194 1 False ''Fronius IG TL Dummy'',
     fdi 195 1 False ''Fronius IG TL 4.6'',
     fdi 196 1 False ''SPR 12000F EU'',
     fdi 197 1 False ''SPR 8000F EU'',
     fdi 198 1 False ''SPR 6500F EU'',
     fdi 199 1 False ''SPR 4000F EU'',
     fdi 200 1 False ''SPR 3300F EU'',
     fdi 201 1 False ''Fronius CL 60.0'',
     fdi 202 1 False ''SPR 12000f'',
     fdi 203 1 False ''SPR 8000f'',
     fdi 204 1 False ''SPR 6500f'',
     fdi 205 1 False ''SPR 4000f'',
     fdi 206 1 False ''SPR 3300f'',
     fdi 207 3 False ''Fronius IG Plus 12.0-3 WYE277'',
     fdi 208 1 False ''Fronius IG Plus 50'',
     fdi 209 1 False ''Fronius IG Plus 100'',
     fdi 210 1 False ''Fronius IG Plus 100'',
     fdi 211 1 False ''Fronius IG Plus 150'',
     fdi 212 1 False ''Fronius IG Plus 35'',
     fdi 213 1 False ''Fronius IG Plus 70'',
     fdi 214 1 False ''Fronius IG Plus 70'',
     fdi 215 1 False ''Fronius IG Plus 120'',
     fdi 216 1 False ''Fronius IG Plus 3.0-1 UNI'',
     fdi 217 1 False ''Fronius IG Plus 3.8-1 UNI'',
     fdi 218 1 False ''Fronius IG Plus 5.0-1 UNI'',
     fdi 219 1 False ''Fronius IG Plus 6.0-1 UNI'',
     fdi 220 1 False ''Fronius IG Plus 7.5-1 UNI'',
     fdi 221 1 False ''Fronius IG Plus 10.0-1 UNI'',
     fdi 222 1 False ''Fronius IG Plus 11.4-1 UNI'',
     fdi 223 3 False ''Fronius IG Plus 11.4-3 Delta'',
     fdi 224 1 False ''Fronius Galvo 3.0-1'',
     fdi 225 1 False ''Fronius Galvo 2.5-1'',
     fdi 226 1 False ''Fronius Galvo 2.0-1'',
     fdi 227 1 False ''Fronius IG 4500-LV'',
     fdi 228 1 False ''Fronius Galvo 1.5-1'',
     fdi 229 1 False ''Fronius IG 2500-LV'',
     fdi 230 3 False ''Fronius Agilo 75.0-3'',
     fdi 231 3 False ''Fronius Agilo 100.0-3 Dummy'',
     fdi 232 3 True ''Fronius Symo 10.0-3-M'',
     fdi 233 3 True ''Fronius Symo 12.5-3-M'',
     fdi 234 1 False ''Fronius IG 5100'',
     fdi 235 1 False ''Fronius IG 4000'',
     fdi 236 3 True ''Fronius Symo 8.2-3-M Dummy'',
     fdi 237 1 False ''Fronius IG 3000'',
     fdi 238 1 False ''Fronius IG 2000'',
     fdi 239 1 False ''Fronius Galvo 3.1-1 Dummy'',
     fdi 240 3 False ''Fronius IG Plus 80 V-3'',
     fdi 241 3 False ''Fronius IG Plus 60 V-3'',
     fdi 242 3 False ''Fronius IG Plus 55 V-3'',
     fdi 243 1 False ''Fronius IG 60 ADV'',
     fdi 244 1 False ''Fronius IG 500'',
     fdi 245 1 False ''Fronius IG 400'',
     fdi 246 1 False ''Fronius IG 300'',
     fdi 247 3 False ''Fronius Symo 3.0-3-S'',
     fdi 248 1 False ''Fronius Galvo 3.1-1'',
     fdi 249 1 False ''Fronius IG 60 HV'',
     fdi 250 1 False ''Fronius IG 40'',
     fdi 251 1 False ''Fronius IG 30 Dummy'',
     fdi 252 1 False ''Fronius IG 30'',
     fdi 253 1 False ''Fronius IG 20'',
     fdi 254 1 False ''Fronius IG 15'']"

text \<open>\<^verbatim>\<open>std::lower_bound\<close>: halve the range until it is empty.\<close>

function lower_bound :: "('a \<Rightarrow> bool) \<Rightarrow> 'a list \<Rightarrow> nat \<Rightarrow> nat \<Rightarrow> nat" where
  "lower_bound below xs first len =
     (if len = 0 then first
      else let half = len div 2; mid = first + half
           in if below (xs ! mid) then lower_bound below xs (mid + 1) (len - half - 1)
              else lower_bound below xs first half)"
  by pat_completeness auto
termination by (relation "measure (\<lambda>(_, _, _, len). len)") auto

declare lower_bound.simps [simp del]

definition fd_below :: "int \<Rightarrow> fronius_device_info \<Rightarrow> bool" where
  "fd_below dt i1 \<longleftrightarrow> fdType i1 < dt"

definition fd_find :: "int \<Rightarrow> fronius_device_info option" where
  "fd_find t =
     (let it = lower_bound (fd_below t) Devices 0 (length Devices)
      in if it = length Devices \<or> fdType (Devices ! it) \<noteq> t then None else Some (Devices ! it))"

subsection \<open>Binary search\<close>

text \<open>The first position of a partitioned list whose element is not below the value.\<close>

lemma lower_bound_partition:
  assumes "first + len \<le> length xs" "\<forall>i < first. below (xs ! i)"
    and "\<forall>i. first + len \<le> i \<and> i < length xs \<longrightarrow> \<not> below (xs ! i)"
    and "\<forall>i j. i < j \<and> j < length xs \<and> below (xs ! j) \<longrightarrow> below (xs ! i)"
  shows "lower_bound below xs first len \<le> length xs \<and>
    (\<forall>i < lower_bound below xs first len. below (xs ! i)) \<and>
    (\<forall>i. lower_bound below xs first len \<le> i \<and> i < length xs \<longrightarrow> \<not> below (xs ! i))"
  using assms
proof (induction below xs first len rule: lower_bound.induct)
  case (1 below xs first len)
  let ?mid = "first + len div 2"
  show ?case
  proof (cases "len = 0")
    case True
    then show ?thesis using "1.prems" by (simp add: lower_bound.simps)
  next
    case False
    then have mid: "?mid < first + len" by simp
    show ?thesis
    proof (cases "below (xs ! ?mid)")
      case True
      then have e: "lower_bound below xs first len = lower_bound below xs (?mid + 1) (len - len div 2 - 1)"
        using False by (subst lower_bound.simps) (simp add: Let_def)
      have lower: "\<forall>i < ?mid + 1. below (xs ! i)"
        using True "1.prems"(1,4) mid by (metis add.commute less_Suc_eq less_le_trans plus_1_eq_Suc)
      have range: "?mid + 1 + (len - len div 2 - 1) = first + len" using mid by simp
      show ?thesis unfolding e
        by (rule "1.IH"(1) [OF False refl refl True, unfolded range, OF "1.prems"(1) lower "1.prems"(3,4)])
    next
      case below: False
      then have e: "lower_bound below xs first len = lower_bound below xs first (len div 2)"
        using False by (subst lower_bound.simps) (simp add: Let_def)
      have upper: "\<forall>i. ?mid \<le> i \<and> i < length xs \<longrightarrow> \<not> below (xs ! i)"
        using below "1.prems"(4) by (metis le_neq_implies_less)
      have range: "?mid \<le> length xs" using "1.prems"(1) mid by linarith
      show ?thesis unfolding e
        by (rule "1.IH"(2) [OF False refl refl below, OF range "1.prems"(2) upper "1.prems"(4)])
    qed
  qed
qed

lemma lower_bound_find:
  assumes "sorted_wrt (<) (map key xs)"
  shows "(let it = lower_bound (\<lambda>x. key x < t) xs 0 (length xs)
          in if it = length xs \<or> key (xs ! it) \<noteq> t then None else Some (xs ! it)) =
    find (\<lambda>x. key x = (t :: int)) xs"
proof -
  let ?below = "\<lambda>x. key x < t" and ?r = "lower_bound (\<lambda>x. key x < t) xs 0 (length xs)"
  have mono: "key (xs ! i) < key (xs ! j)" if "i < j" "j < length xs" for i j
    using sorted_wrt_nth_less [OF assms, of i j] that by simp
  have below: "\<forall>i j. i < j \<and> j < length xs \<and> ?below (xs ! j) \<longrightarrow> ?below (xs ! i)"
    using mono by (metis order.strict_trans)
  have part: "?r \<le> length xs \<and> (\<forall>i < ?r. ?below (xs ! i)) \<and> (\<forall>i. ?r \<le> i \<and> i < length xs \<longrightarrow> \<not> ?below (xs ! i))"
    by (rule lower_bound_partition [OF _ _ _ below]) simp_all
  show ?thesis
  proof (cases "?r < length xs \<and> key (xs ! ?r) = t")
    case True
    moreover have "find (\<lambda>x. key x = t) xs = Some (xs ! ?r)"
      using True part by (auto simp: find_Some_iff)
    ultimately show ?thesis by (simp add: Let_def)
  next
    case False
    have "key (xs ! i) \<noteq> t" if i: "i < length xs" for i
    proof (cases "i < ?r")
      case True
      then have "?below (xs ! i)" using part by blast
      then show ?thesis by simp
    next
      case ri: False
      then have "\<not> ?below (xs ! ?r)" using part i by (metis not_less order.refl le_less_trans)
      then show ?thesis using False i ri mono [of ?r i] by (cases "i = ?r") auto
    qed
    then have "find (\<lambda>x. key x = t) xs = None"
      by (auto simp: find_None_iff in_set_conv_nth)
    then show ?thesis using False part by (auto simp: Let_def)
  qed
qed

subsection \<open>The table\<close>

lemma fdType_fdi: "fdType (fdi t n multi name) = t"
  by (simp add: fdi_def)

lemma sorted_Devices: "sorted_wrt (<) (map fdType Devices)"
proof -
  have "successively (<) (map fdType Devices)"
    by (simp only: Devices_def list.map fdType_fdi successively.simps) simp
  then show ?thesis by (simp add: successively_conv_sorted_wrt)
qed

text \<open>
  C20. The binary search is a faithful lookup in the table: for every device type it gives the entry
  that a search from the front finds, in particular an entry for exactly the types of the table;
  this rests on the table being strictly sorted by type.
\<close>

theorem fd_find_is_lookup:
  "fd_find t = find (\<lambda>d. fdType d = t) Devices"
  unfolding fd_find_def fd_below_def by (rule lower_bound_find [OF sorted_Devices])

end
