(* ===== verification/Solar_Detector.thy ===== *)
theory Solar_Detector
  imports Solar_Api Sunspec_Detector Fronius_Device_Info Settings
begin

text \<open>
  Detection over the Fronius solar API (\<^verbatim>\<open>solar_api_detector.cpp\<close>): a data manager lists its inverters,
  and each of them is tried with a Sunspec detection of its own; what does not speak Sunspec is
  reported with the solar API.  A detection is its reply object, with the entries of the hash
  \<^verbatim>\<open>mDetectorReplyToInverter\<close> that belong to it: the number of the Sunspec detection, the inverter
  and whether it is found.  \<open>sadInvalid\<close> is the static list of serials with the type 255.
\<close>

record solar_detection =
  sadApi :: solar_api
  sadSerialInfo :: "int \<rightharpoonup> string"
  sadPending :: "(nat \<times> inverter_info \<times> bool) list"
  sadNext :: nat
  sadStarted :: "(nat \<times> sunspec_detection) list"
  sadInvalid :: "string list"
  sadOut :: "detect_out list"

definition sad_start :: "string list \<Rightarrow> settings \<Rightarrow> string \<Rightarrow> solar_detection" where
  "sad_start invalid st host =
     \<lparr> sadApi = sap_getDeviceInfoAsync (sap_new host (stPortNumber st)), sadSerialInfo = Map.empty,
       sadPending = [], sadNext = 0, sadStarted = [], sadInvalid = invalid, sadOut = [] \<rparr>"

definition sad_emit :: "detect_out \<Rightarrow> solar_detection \<Rightarrow> solar_detection" where
  "sad_emit x d = d\<lparr> sadOut := sadOut d @ [x] \<rparr>"

definition sad_onDeviceInfoFound :: "device_info_data \<Rightarrow> solar_detection \<Rightarrow> solar_detection" where
  "sad_onDeviceInfoFound data d =
     d\<lparr> sadSerialInfo := didSerialInfo data, sadApi := sap_getConverterInfoAsync (sadApi d) \<rparr>"

definition InvalidDeviceType :: int where "InvalidDeviceType = 255"

text \<open>One inverter of the list; the Sunspec detection is started with its id as the unit id.\<close>

definition sad_inverter :: "inverter_info \<Rightarrow> solar_detection \<Rightarrow> solar_detection" where
  "sad_inverter it d =
     (if iiDeviceType it = InvalidDeviceType then
        (if iiUniqueId it \<in> set (sadInvalid d) then d else d\<lparr> sadInvalid := sadInvalid d @ [iiUniqueId it] \<rparr>)
      else d\<lparr> sadPending := sadPending d @ [(sadNext d, it, False)], sadNext := sadNext d + 1,
              sadStarted := sadStarted d @ [(sadNext d, sd_start (of_int (iiId it)) (sapHost (sadApi d)))] \<rparr>)"

definition sad_onConverterInfoFound :: "inverter_list_data \<Rightarrow> solar_detection \<Rightarrow> solar_detection" where
  "sad_onConverterInfoFound data d =
     (let d' = fold sad_inverter (ilInverters data) d
      in if list_all (\<lambda>it. iiDeviceType it = InvalidDeviceType) (ilInverters data)
         then sad_emit DetectionFinished d' else d')"

text \<open>\<^verbatim>\<open>QChar::isLetterOrNumber\<close> for the characters of Latin-1.\<close>

definition latin1_alnum :: "char \<Rightarrow> bool" where
  "latin1_alnum c \<longleftrightarrow> (let n = of_char c :: nat in
     48 \<le> n \<and> n \<le> 57 \<or> 65 \<le> n \<and> n \<le> 90 \<or> 97 \<le> n \<and> n \<le> 122 \<or>
     n \<in> {0xAA, 0xB2, 0xB3, 0xB5, 0xB9, 0xBA, 0xBC, 0xBD, 0xBE} \<or> 0xC0 \<le> n \<and> n \<noteq> 0xD7 \<and> n \<noteq> 0xF7)"

definition fixUniqueId :: "inverter_info \<Rightarrow> string" where
  "fixUniqueId it =
     (let isOk = list_ex latin1_alnum (iiUniqueId it);
          result = map (\<lambda>c. if latin1_alnum c then c else CHR ''_'') (iiUniqueId it)
      in dec_int (iiDeviceType it) @ ''_'' @ (if isOk then result else ''T'' @ dec_int (iiId it)))"

definition sad_sunspec_info :: "inverter_info \<Rightarrow> device_info \<Rightarrow> device_info" where
  "sad_sunspec_info it info = info\<lparr> uniqueId := fixUniqueId it, deviceType := iiDeviceType it \<rparr>"

definition sad_solar_info :: "products \<Rightarrow> solar_detection \<Rightarrow> inverter_info \<Rightarrow> device_info" where
  "sad_solar_info pr d it =
     (let info = new_device_info\<lparr> networkId := iiId it, uniqueId := fixUniqueId it,
            hostName := sapHost (sadApi d), devicePort := sapPort (sadApi d), deviceType := iiDeviceType it,
            productId := VE_PROD_ID_PV_INVERTER_FRONIUS pr, maxPower := NaN,
            serialNumber := (case sadSerialInfo d (iiId it) of None \<Rightarrow> [] | Some s \<Rightarrow> s) \<rparr>
      in case fd_find (iiDeviceType it) of
           None \<Rightarrow> info\<lparr> productName := ''Unknown PV Inverter'', phaseCount := 1 \<rparr>
         | Some fd \<Rightarrow> info\<lparr> productName := fdName fd, phaseCount := fdPhaseCount fd \<rparr>)"

definition sad_checkFinished :: "solar_detection \<Rightarrow> solar_detection" where
  "sad_checkFinished d =
     (if list_ex (\<lambda>(_, _, found). \<not> found) (sadPending d) then d else sad_emit DetectionFinished d)"

definition sad_onSunspecDeviceFound :: "nat \<Rightarrow> device_info \<Rightarrow> solar_detection \<Rightarrow> solar_detection" where
  "sad_onSunspecDeviceFound j info d =
     (case map_of (sadPending d) j of
        None \<Rightarrow> d
      | Some (it, _) \<Rightarrow> sad_emit (DeviceFound (sad_sunspec_info it info))
          (d\<lparr> sadPending := map (\<lambda>(i, x, b). (i, x, if i = j then True else b)) (sadPending d) \<rparr>))"

definition sad_onSunspecDone :: "products \<Rightarrow> nat \<Rightarrow> solar_detection \<Rightarrow> solar_detection" where
  "sad_onSunspecDone pr j d0 =
     (case map_of (sadPending d0) j of
        None \<Rightarrow> d0
      | Some (it, found) \<Rightarrow>
          (let d = d0\<lparr> sadPending := filter (\<lambda>(i, _). i \<noteq> j) (sadPending d0) \<rparr>
           in if found then sad_checkFinished d
              else sad_checkFinished (sad_emit (DeviceFound (sad_solar_info pr d it)) d)))"

text \<open>The signals of the Sunspec detection \<open>j\<close>.\<close>

fun sad_signal :: "products \<Rightarrow> nat \<Rightarrow> detect_out \<Rightarrow> solar_detection \<Rightarrow> solar_detection" where
  "sad_signal pr j (DeviceFound info) d = sad_onSunspecDeviceFound j info d"
| "sad_signal pr j DetectionFinished d = sad_onSunspecDone pr j d"

definition sad_sunspec :: "products \<Rightarrow> nat \<Rightarrow> detect_out list \<Rightarrow> solar_detection \<Rightarrow> solar_detection" where
  "sad_sunspec pr j out d = fold (sad_signal pr j) out d"

subsection \<open>Every inverter is reported once\<close>

definition sad_result :: "products \<Rightarrow> solar_detection \<Rightarrow> inverter_info \<Rightarrow> detect_out list \<Rightarrow> detect_out" where
  "sad_result pr d it out =
     (case out of
        DeviceFound info # _ \<Rightarrow> DeviceFound (sad_sunspec_info it info)
      | _ \<Rightarrow> DeviceFound (sad_solar_info pr d it))"

definition sunspec_outcome :: "detect_out list \<Rightarrow> bool" where
  "sunspec_outcome out \<longleftrightarrow> out = [DetectionFinished] \<or> (\<exists>i. out = [DeviceFound i, DetectionFinished])"

lemma sad_emit_simps [simp]:
  "sadApi (sad_emit x d) = sadApi d" "sadSerialInfo (sad_emit x d) = sadSerialInfo d"
  "sadPending (sad_emit x d) = sadPending d" "sadOut (sad_emit x d) = sadOut d @ [x]"
  by (simp_all add: sad_emit_def)

lemma sad_solar_info_frame:
  "sadApi d' = sadApi d \<Longrightarrow> sadSerialInfo d' = sadSerialInfo d \<Longrightarrow> sad_solar_info pr d' it = sad_solar_info pr d it"
  by (simp add: sad_solar_info_def)

lemma sad_result_frame:
  assumes "sadApi d' = sadApi d" "sadSerialInfo d' = sadSerialInfo d"
  shows "sad_result pr d' it out = sad_result pr d it out"
proof -
  have "sad_solar_info pr d' = sad_solar_info pr d" by (rule ext) (rule sad_solar_info_frame [OF assms])
  then show ?thesis by (simp only: sad_result_def)
qed

lemma sad_pending_lists:
  fixes xs :: "(nat \<times> inverter_info \<times> bool) list"
  shows "list_all (\<lambda>(_, _, found). \<not> found) xs \<Longrightarrow>
      list_ex (\<lambda>(_, _, found). \<not> found) (filter (\<lambda>(i, _). i \<noteq> j) xs) \<longleftrightarrow> filter (\<lambda>(i, _). i \<noteq> j) xs \<noteq> []"
    and "map_of xs j = Some (it, b) \<Longrightarrow>
      map_of (map (\<lambda>(i, x, b). (i, x, if i = j then True else b)) xs) j = Some (it, True)"
    and "filter (\<lambda>(i, _). i \<noteq> j) (map (\<lambda>(i, x, b). (i, x, if i = j then True else b)) xs) =
      filter (\<lambda>(i, _). i \<noteq> j) xs"
    and "k \<noteq> j \<Longrightarrow> map_of (filter (\<lambda>(i, _). i \<noteq> j) xs) k = map_of xs k"
    and "fst ` set (filter (\<lambda>(i, _). i \<noteq> j) xs) = fst ` set xs - {j}"
  by (induction xs) (auto split: if_splits)

text \<open>One Sunspec detection: its inverter is reported, and the last one ends the detection.\<close>

lemma sad_sunspec_step:
  assumes "list_all (\<lambda>(_, _, found). \<not> found) (sadPending d)"
    and "map_of (sadPending d) j = Some (it, b)" "sunspec_outcome out"
  defines "rest \<equiv> filter (\<lambda>(i, _). i \<noteq> j) (sadPending d)"
  shows "sadPending (sad_sunspec pr j out d) = rest \<and> sadApi (sad_sunspec pr j out d) = sadApi d \<and>
    sadSerialInfo (sad_sunspec pr j out d) = sadSerialInfo d \<and>
    sadOut (sad_sunspec pr j out d) =
      sadOut d @ sad_result pr d it out # (if rest = [] then [DetectionFinished] else [])"
proof -
  have nf: "\<not> b" using assms(1,2) by (auto simp: list_all_iff dest: map_of_SomeD)
  have check: "list_ex (\<lambda>(_, _, found). \<not> found) rest \<longleftrightarrow> rest \<noteq> []"
    unfolding rest_def by (rule sad_pending_lists(1) [OF assms(1)])
  show ?thesis
  proof (cases "out = [DetectionFinished]")
    case True
    then show ?thesis using assms(2) nf check
      by (auto simp: sad_sunspec_def sad_onSunspecDone_def sad_checkFinished_def sad_result_def rest_def Let_def
          intro!: sad_solar_info_frame)
  next
    case False
    then obtain i where out: "out = [DeviceFound i, DetectionFinished]" using assms(3) by (auto simp: sunspec_outcome_def)
    let ?p = "map (\<lambda>(i, x, b). (i, x, if i = j then True else b)) (sadPending d)"
    have "map_of ?p j = Some (it, True)" by (rule sad_pending_lists(2) [OF assms(2)])
    moreover have "filter (\<lambda>(i, _). i \<noteq> j) ?p = rest" unfolding rest_def by (rule sad_pending_lists(3))
    ultimately show ?thesis using assms(2) out check
      by (auto simp: sad_sunspec_def sad_onSunspecDeviceFound_def sad_onSunspecDone_def sad_checkFinished_def
          sad_result_def Let_def)
  qed
qed

lemma sad_sunspec_all:
  assumes "distinct js" "set js = fst ` set (sadPending d)" "distinct (map fst (sadPending d))"
    and "list_all (\<lambda>(_, _, found). \<not> found) (sadPending d)" "\<And>j. sunspec_outcome (outcome j)" "js \<noteq> []"
  shows "sadOut (fold (\<lambda>j. sad_sunspec pr j (outcome j)) js d) =
    sadOut d @ map (\<lambda>j. sad_result pr d (fst (the (map_of (sadPending d) j))) (outcome j)) js @ [DetectionFinished]"
  using assms
proof (induction js arbitrary: d)
  case (Cons j js)
  let ?rest = "filter (\<lambda>(i, _). i \<noteq> j) (sadPending d)" and ?d = "sad_sunspec pr j (outcome j) d"
  obtain it b where it: "map_of (sadPending d) j = Some (it, b)"
    using Cons.prems(2,3) by (metis insertI1 list.simps(15) map_of_eq_None_iff not_Some_eq surj_pair)
  note step = sad_sunspec_step [OF Cons.prems(4) it Cons.prems(5), of pr]
  have "set js = fst ` set ?rest"
    unfolding sad_pending_lists(5) Cons.prems(2) [symmetric] using Cons.prems(1) by auto
  then have rest: "set js = fst ` set ?rest" "distinct (map fst ?rest)" "list_all (\<lambda>(_, _, found). \<not> found) ?rest"
    using Cons.prems(3,4) by (auto simp: distinct_map_filter list_all_iff)
  have lookup: "map_of ?rest k = map_of (sadPending d) k" if "k \<in> set js" for k
    using that Cons.prems(1) by (intro sad_pending_lists(4)) auto
  have same: "sad_result pr ?d x out = sad_result pr d x out" for x out
    using step by (intro sad_result_frame) blast+
  show ?case
  proof (cases "js = []")
    case True
    then have "?rest = []" using rest(1) by (metis empty_set image_is_empty set_empty)
    then show ?thesis using True step it by simp
  next
    case False
    then have "?rest \<noteq> []" using rest(1) by (metis empty_set image_empty set_empty)
    moreover have "sadOut (fold (\<lambda>j. sad_sunspec pr j (outcome j)) js ?d) = sadOut ?d @
        map (\<lambda>j. sad_result pr ?d (fst (the (map_of (sadPending ?d) j))) (outcome j)) js @ [DetectionFinished]"
      using Cons.IH [of ?d] Cons.prems(1,5) rest step False by simp
    ultimately show ?thesis using step it lookup by (simp add: same)
  qed
qed simp

subsection \<open>The list of inverters\<close>

definition valid_inverters :: "inverter_info list \<Rightarrow> inverter_info list" where
  "valid_inverters its = filter (\<lambda>it. iiDeviceType it \<noteq> InvalidDeviceType) its"

definition sad_numbered :: "nat \<Rightarrow> inverter_info list \<Rightarrow> (nat \<times> inverter_info \<times> bool) list" where
  "sad_numbered n its = map (\<lambda>(k, it). (k, it, False)) (enumerate n its)"

lemma sad_inverters:
  "sadPending (fold sad_inverter its d) = sadPending d @ sad_numbered (sadNext d) (valid_inverters its) \<and>
   sadApi (fold sad_inverter its d) = sadApi d \<and> sadSerialInfo (fold sad_inverter its d) = sadSerialInfo d \<and>
   sadOut (fold sad_inverter its d) = sadOut d"
  by (induction its arbitrary: d) (simp_all add: sad_inverter_def valid_inverters_def sad_numbered_def)

lemma sad_numbered_keys:
  "map fst (sad_numbered n its) = [n..<n + length its]"
  "list_all (\<lambda>(_, _, found). \<not> found) (sad_numbered n its)"
  by (simp_all add: sad_numbered_def case_prod_beta comp_def list_all_iff)

lemma sad_numbered_lookup: "j < length its \<Longrightarrow> map_of (sad_numbered 0 its) j = Some (its ! j, False)"
proof -
  assume j: "j < length its"
  have "distinct (map fst (sad_numbered 0 its))" by (simp only: sad_numbered_keys distinct_upt)
  moreover have "(j, its ! j, False) \<in> set (sad_numbered 0 its)"
    using j by (force simp: sad_numbered_def in_set_enumerate_eq)
  ultimately show ?thesis by (simp add: map_of_eq_Some_iff)
qed

text \<open>
  C8. The solar API detection reports every inverter of a data manager exactly once and then ends,
  once: in whatever order the Sunspec detections of the inverters end and whether or not they find
  something, each inverter with a valid type is reported when its own detection ends, as the Sunspec
  device with the id and type of the solar API, or as a solar API device; the end follows the last
  report, or comes at once for an empty list.
\<close>

theorem solar_detection_reports_each_once:
  assumes "sadPending d = []" "sadNext d = 0" "sadOut d = []"
    and "distinct js" "set js = {..<length (valid_inverters (ilInverters data))}"
    and "\<And>j. outcome j = [DetectionFinished] \<or> (\<exists>i. outcome j = [DeviceFound i, DetectionFinished])"
  shows "sadOut (fold (\<lambda>j. sad_sunspec pr j (outcome j)) js (sad_onConverterInfoFound data d)) =
    map (\<lambda>j. sad_result pr d (valid_inverters (ilInverters data) ! j) (outcome j)) js @ [DetectionFinished]"
proof -
  let ?its = "valid_inverters (ilInverters data)" and ?d = "fold sad_inverter (ilInverters data) d"
  have pending: "sadPending ?d = sad_numbered 0 ?its" and api: "sadApi ?d = sadApi d"
      "sadSerialInfo ?d = sadSerialInfo d" "sadOut ?d = []"
    using sad_inverters [of "ilInverters data" d] assms(1-3) by simp_all
  have empty: "list_all (\<lambda>it. iiDeviceType it = InvalidDeviceType) (ilInverters data) \<longleftrightarrow> ?its = []"
    by (simp add: valid_inverters_def list_all_iff filter_empty_conv)
  show ?thesis
  proof (cases "?its = []")
    case True
    then show ?thesis using assms(5) empty api by (simp add: sad_onConverterInfoFound_def)
  next
    case False
    then have "0 \<in> set js" unfolding assms(5) by simp
    then have js: "js \<noteq> []" by (cases js) simp_all
    have keys: "set js = fst ` set (sad_numbered 0 ?its)"
      unfolding set_map [symmetric] sad_numbered_keys(1) using assms(5) by (simp add: atLeast0LessThan)
    have "sad_onConverterInfoFound data d = ?d"
      using False empty by (simp add: sad_onConverterInfoFound_def Let_def)
    moreover have "sadOut (fold (\<lambda>j. sad_sunspec pr j (outcome j)) js ?d) =
        map (\<lambda>j. sad_result pr ?d (fst (the (map_of (sad_numbered 0 ?its) j))) (outcome j)) js @ [DetectionFinished]"
    proof -
      have "set js = fst ` set (sadPending ?d)" "distinct (map fst (sadPending ?d))"
          "list_all (\<lambda>(_, _, found). \<not> found) (sadPending ?d)"
        using keys sad_numbered_keys [of 0 ?its] by (simp_all only: pending distinct_upt)
      moreover have "sunspec_outcome (outcome j)" for j unfolding sunspec_outcome_def by (rule assms(6))
      ultimately show ?thesis
        using sad_sunspec_all [OF assms(4) _ _ _ _ js, of ?d outcome pr] by (simp only: pending api append_Nil)
    qed
    moreover have "sad_result pr ?d (fst (the (map_of (sad_numbered 0 ?its) j))) (outcome j) =
        sad_result pr d (?its ! j) (outcome j)" if "j \<in> set js" for j
      using that assms(5) sad_numbered_lookup [of j ?its] by (simp add: sad_result_frame [OF api(1,2)])
    ultimately show ?thesis by simp
  qed
qed

text \<open>Two inverters, the second with Sunspec, and one with the invalid type.\<close>

definition demo_inverters :: inverter_list_data where
  "demo_inverters = \<lparr> raError = NoError, raErrorMessage = [], ilInverters =
     map (\<lambda>(i, t). \<lparr> iiId = i, iiUniqueId = ''1234'', iiCustomName = [], iiDeviceType = t, iiErrorCode = 0,
       iiStatusCode = 7 \<rparr>) [(1, 192), (2, 255), (3, 123)] \<rparr>"

theorem solar_detection_reports_each_once_witness:
  "let out = (\<lambda>j. if j = 1 then [DeviceFound new_device_info, DetectionFinished] else [DetectionFinished]);
       d = sad_start [] settings_new ''10.0.0.1''
   in sadOut (fold (\<lambda>j. sad_sunspec demo_products j (out j)) [1, 0] (sad_onConverterInfoFound demo_inverters d)) =
      map (\<lambda>j. sad_result demo_products d (valid_inverters (ilInverters demo_inverters) ! j) (out j)) [1, 0] @
      [DetectionFinished]"
  unfolding Let_def
  by (rule solar_detection_reports_each_once)
    (auto simp: sad_start_def demo_inverters_def valid_inverters_def InvalidDeviceType_def)

text \<open>An id that the API makes up: letters, digits and underscores only, also for a serial without any.\<close>

lemma fixUniqueId_chars:
  assumes "0 \<le> iiDeviceType it" "0 \<le> iiId it"
  shows "list_all (\<lambda>c. latin1_alnum c \<or> c = CHR ''_'') (fixUniqueId it)"
proof -
  have digits: "latin1_alnum c" if "is_digit c" for c
    using that by (auto simp: is_digit_def latin1_alnum_def Let_def)
  have "list_all latin1_alnum (dec n)" for n
    using dec_digits [of n] digits by (auto simp: list_all_iff)
  moreover have "latin1_alnum (CHR ''T'')" by (simp add: latin1_alnum_def)
  ultimately show ?thesis
    using assms by (auto simp: fixUniqueId_def dec_int_def list_all_iff)
qed

end
