(* ===== verification/Mediator.thy ===== *)
theory Mediator
  imports Settings Inverter_Settings Sma_Inverter
begin

text \<open>
  One inverter and everything about it (\<^verbatim>\<open>inverter_mediator.cpp\<close>): the information of the last
  detection, the settings, and the inverter that is published while its settings say so and it is
  reachable.  What the mediator polls it with is a child of the inverter and goes with it.  A step
  that dereferences a null pointer, or casts an inverter to a class it does not have, has no result.

  The global settings are shared by all mediators: the operations that register an inverter take
  and return them.  An operation that asks the gateway for a detection returns so in a flag.
\<close>

record mediator_env =
  mePr :: products
  meStore :: store
  meItemStore :: item_store
  meReply :: "string \<Rightarrow> string \<Rightarrow> string option"
  meToUInt :: "string \<Rightarrow> u32"
  meProcess :: string
  meVersion :: string
  meError :: int

datatype acquisition = PollSolarApi | PollSma | PollSunspec

record mediator =
  mdInfo :: device_info
  mdInverter :: "inverter option"
  mdAcquisition :: "acquisition option"
  mdSettings :: inverter_settings
  mdConnected :: bool

definition md_new :: "device_info \<Rightarrow> inverter_settings \<Rightarrow> mediator" where
  "md_new device st =
     \<lparr> mdInfo = device, mdInverter = None, mdAcquisition = None, mdSettings = st, mdConnected = False \<rparr>"

definition md_delete :: "mediator \<Rightarrow> mediator" where
  "md_delete m = m\<lparr> mdInverter := None, mdAcquisition := None \<rparr>"

subsection \<open>Names and position\<close>

definition md_onPositionChanged :: "mediator \<Rightarrow> mediator" where
  "md_onPositionChanged m =
     (case mdInverter m of
        None \<Rightarrow> m
      | Some iv \<Rightarrow> m\<lparr> mdInverter := Some (inv_setPosition (position (mdSettings m)) iv) \<rparr>)"

definition md_onInverterCustomNameChanged :: "mediator_env \<Rightarrow> mediator \<Rightarrow> mediator" where
  "md_onInverterCustomNameChanged env m =
     (case mdInverter m of
        None \<Rightarrow> m
      | Some iv \<Rightarrow> m\<lparr> mdSettings := setCustomName (meItemStore env) (inv_customName iv) (mdSettings m) \<rparr>)"

text \<open>\<^verbatim>\<open>setCustomName\<close> of the inverter emits \<^verbatim>\<open>customNameChanged\<close>, which is connected to the slot above.\<close>

definition md_onSettingsCustomNameChanged :: "mediator_env \<Rightarrow> mediator \<Rightarrow> mediator" where
  "md_onSettingsCustomNameChanged env m =
     (case mdInverter m of
        None \<Rightarrow> m
      | Some iv \<Rightarrow>
          (let iv' = inv_setCustomName (customName (mdSettings m)) iv;
               m' = m\<lparr> mdInverter := Some iv' \<rparr>
           in if length (invOut iv) < length (invOut iv') then md_onInverterCustomNameChanged env m' else m'))"

subsection \<open>The inverter\<close>

definition md_inverter_class :: "products \<Rightarrow> device_info \<Rightarrow> inverter_class" where
  "md_inverter_class pr info =
     (if retrievalMode info = ProtocolFroniusSolarApi \<and> deviceType info \<noteq> 0 then FroniusInverter
      else if retrievalMode info = ProtocolSMA \<and> productId info = VE_PROD_ID_PV_INVERTER_SMA pr then SmaInverter
      else BaseInverter)"

text \<open>
  The two slots that \<^verbatim>\<open>createInverter\<close> calls at its end return at once, because the new inverter is
  not yet the one of the mediator.
\<close>

definition md_createInverter :: "mediator_env \<Rightarrow> settings \<Rightarrow> mediator \<Rightarrow> inverter option \<times> settings" where
  "md_createInverter env st m =
     (let info = mdInfo m;
          (deviceInstance, st') = registerInverter (meStore env) (meReply env) (uniqueId info) st
      in if deviceInstance < 0 then (None, st')
         else (Some
           (case md_inverter_class (mePr env) info of
              FroniusInverter \<Rightarrow> fronius_inverter_new (meProcess env) (meVersion env) info deviceInstance
            | SmaInverter \<Rightarrow> inverter.truncate (sma_inverter_new (meError env) (meProcess env) (meVersion env) info
                deviceInstance (stUnitId st') (gridCode (meToUInt env) st'))
            | BaseInverter \<Rightarrow> inverter_new BaseInverter (meProcess env) (meVersion env) info deviceInstance), st'))"

definition md_acquisition :: "device_info \<Rightarrow> acquisition" where
  "md_acquisition info =
     (if retrievalMode info = ProtocolFroniusSolarApi then PollSolarApi
      else if retrievalMode info = ProtocolSMA then PollSma else PollSunspec)"

text \<open>The SMA updater gets the inverter cast to its class.\<close>

definition md_startAcquisition :: "mediator \<Rightarrow> mediator option" where
  "md_startAcquisition m =
     (case mdInverter m of
        None \<Rightarrow> None
      | Some iv \<Rightarrow>
          if md_acquisition (mdInfo m) = PollSma \<and> invClass iv \<noteq> SmaInverter then None
          else Some (m\<lparr> mdInverter := Some (inv_setPosition (position (mdSettings m)) iv),
                        mdAcquisition := Some (md_acquisition (mdInfo m)) \<rparr>))"

text \<open>What both callers of \<^verbatim>\<open>createInverter\<close> do with its result.\<close>

definition md_activate :: "mediator_env \<Rightarrow> settings \<Rightarrow> mediator \<Rightarrow> (mediator \<times> settings) option" where
  "md_activate env st m =
     (let (iv, st') = md_createInverter env st m; m = m\<lparr> mdInverter := iv, mdAcquisition := None \<rparr>
      in if iv = None then Some (m, st')
         else map_option (\<lambda>m. (md_onSettingsCustomNameChanged env m, st')) (md_startAcquisition m))"

subsection \<open>Detections\<close>

text \<open>
  \<^verbatim>\<open>processNewInverter\<close>: whether the device is the one of this mediator, the mediator and the global
  settings.
\<close>

definition md_processNewInverter ::
    "mediator_env \<Rightarrow> settings \<Rightarrow> device_info \<Rightarrow> mediator \<Rightarrow> (bool \<times> mediator \<times> settings) option" where
  "md_processNewInverter env st info m =
     (if uniqueId (mdInfo m) \<noteq> uniqueId info then
        (case mdInverter m of
           None \<Rightarrow> Some (False, m, st)
         | Some iv \<Rightarrow>
             Some (False, if hostName (invInfo iv) = hostName info \<and> networkId (invInfo iv) = networkId info
                          then md_delete m else m, st))
      else
        (let m = (if retrievalMode (mdInfo m) \<noteq> retrievalMode info then md_delete m else m);
             m = m\<lparr> mdInfo := info \<rparr>
         in case mdInverter m of
              Some iv \<Rightarrow>
                Some (True, if hostName (invInfo iv) \<noteq> hostName info \<or> devicePort (invInfo iv) \<noteq> devicePort info
                            then m\<lparr> mdInverter := Some (inv_setPort (devicePort info) (inv_setHostName (hostName info) iv)) \<rparr>
                            else m, st)
            | None \<Rightarrow>
                if \<not> isActive (mdSettings m) then Some (True, m, st)
                else map_option (\<lambda>(m, st). (True, m, st)) (md_activate env st m)))"

text \<open>The migration of the phase setting, and what is stored for the GUI.\<close>

definition md_migrate :: "item_store \<Rightarrow> device_info \<Rightarrow> inverter_settings \<Rightarrow> inverter_settings" where
  "md_migrate put info s =
     (let s = (if phaseCount info > 1 \<and> phase s \<noteq> MultiPhase then setPhase put MultiPhase s else s);
          s = setPhaseCount put (phaseCount info) s
      in setSerialNumber put (if serialNumber info = [] then uniqueId info else serialNumber info) s)"

definition md_onSettingsInitialized ::
    "mediator_env \<Rightarrow> settings \<Rightarrow> mediator \<Rightarrow> (mediator \<times> settings) option" where
  "md_onSettingsInitialized env st m0 =
     (let m = m0\<lparr> mdConnected := True \<rparr>
      in if \<not> isActive (mdSettings m) then Some (md_delete m, st)
         else md_activate env st
                (m\<lparr> mdSettings := md_migrate (meItemStore env) (mdInfo m) (mdSettings m) \<rparr>))"

definition md_onIsActivatedChanged :: "mediator \<Rightarrow> bool \<times> mediator" where
  "md_onIsActivatedChanged m =
     (if isActive (mdSettings m) then (True, m)
      else if mdInverter m = None then (False, m)
      else (False, md_delete m))"

text \<open>\<^verbatim>\<open>mInverter->location()\<close> is evaluated for the log: without an inverter that is a null pointer.\<close>

definition md_onConnectionLost :: "mediator \<Rightarrow> (bool \<times> mediator) option" where
  "md_onConnectionLost m = (if mdInverter m = None then None else Some (True, md_delete m))"

definition md_onInverterModelChanged :: "mediator \<Rightarrow> (bool \<times> mediator) option" where
  "md_onInverterModelChanged m = (if mdInverter m = None then None else Some (True, md_delete m))"

subsection \<open>A mediator and its inverter agree\<close>

definition md_ok :: "mediator \<Rightarrow> bool" where
  "md_ok m \<longleftrightarrow>
     (case mdInverter m of
        None \<Rightarrow> mdAcquisition m = None
      | Some iv \<Rightarrow> uniqueId (invInfo iv) = uniqueId (mdInfo m) \<and> hostName (invInfo iv) = hostName (mdInfo m) \<and>
          devicePort (invInfo iv) = devicePort (mdInfo m) \<and> retrievalMode (invInfo iv) = retrievalMode (mdInfo m) \<and>
          mdAcquisition m = Some (md_acquisition (mdInfo m)) \<and>
          (mdAcquisition m = Some PollSma \<longrightarrow> invClass iv = SmaInverter))"

text \<open>What the SMA detector guarantees of the devices that speak its protocol.\<close>

definition sma_info_ok :: "products \<Rightarrow> device_info \<Rightarrow> bool" where
  "sma_info_ok pr info \<longleftrightarrow> (retrievalMode info = ProtocolSMA \<longrightarrow> productId info = VE_PROD_ID_PV_INVERTER_SMA pr)"

lemma md_delete_simps [simp]:
  "mdInfo (md_delete m) = mdInfo m" "mdInverter (md_delete m) = None" "mdAcquisition (md_delete m) = None"
  "mdSettings (md_delete m) = mdSettings m" "mdConnected (md_delete m) = mdConnected m"
  by (simp_all add: md_delete_def)

lemma md_ok_delete [simp]: "md_ok (md_delete m)"
  by (simp add: md_ok_def)

lemma md_ok_new [simp]: "md_ok (md_new device st)"
  by (simp add: md_ok_def md_new_def)

lemma inverter_new_info:
  "invInfo (inverter_new cls p v info i) = info" "invClass (inverter_new cls p v info i) = cls"
  "invInfo (fronius_inverter_new p v info i) = info" "invClass (fronius_inverter_new p v info i) = FroniusInverter"
  "invInfo (inverter.truncate (sma_inverter_new e p v info i u g)) = info"
  "invClass (inverter.truncate (sma_inverter_new e p v info i u g)) = SmaInverter"
  by (simp_all add: inverter_new_def fronius_inverter_new_def sma_inverter_new_def inverter.truncate_def Let_def)

lemma md_createInverter_info:
  assumes "md_createInverter env st m = (Some iv, st')"
  shows "invInfo iv = mdInfo m \<and> invClass iv = md_inverter_class (mePr env) (mdInfo m)"
  using assms
  by (cases "md_inverter_class (mePr env) (mdInfo m)")
    (auto simp: md_createInverter_def Let_def inverter_new_info split: prod.splits if_splits)

lemma inv_setPosition_info [simp]: "invInfo (inv_setPosition p iv) = invInfo iv" "invClass (inv_setPosition p iv) = invClass iv"
  "invOut (inv_setPosition p iv) = invOut iv"
  by (simp_all add: inv_setPosition_def)

lemma inv_setCustomName_info [simp]: "invInfo (inv_setCustomName n iv) = invInfo iv"
  "invClass (inv_setCustomName n iv) = invClass iv"
  by (simp_all add: inv_setCustomName_def Let_def)

lemma md_name_simps [simp]:
  "mdInfo (md_onInverterCustomNameChanged env m) = mdInfo m"
  "mdInverter (md_onInverterCustomNameChanged env m) = mdInverter m"
  "mdAcquisition (md_onInverterCustomNameChanged env m) = mdAcquisition m"
  "mdInfo (md_onSettingsCustomNameChanged env m) = mdInfo m"
  "mdAcquisition (md_onSettingsCustomNameChanged env m) = mdAcquisition m"
  "map_option invInfo (mdInverter (md_onSettingsCustomNameChanged env m)) = map_option invInfo (mdInverter m)"
  "map_option invClass (mdInverter (md_onSettingsCustomNameChanged env m)) = map_option invClass (mdInverter m)"
  "mdConnected (md_onSettingsCustomNameChanged env m) = mdConnected m"
  by (auto simp: md_onInverterCustomNameChanged_def md_onSettingsCustomNameChanged_def Let_def split: option.split)

text \<open>The invariant only looks at these parts.\<close>

lemma md_ok_frame:
  assumes "md_ok m" "mdInfo m' = mdInfo m" "mdAcquisition m' = mdAcquisition m"
    and "map_option invInfo (mdInverter m') = map_option invInfo (mdInverter m)"
    and "map_option invClass (mdInverter m') = map_option invClass (mdInverter m)"
  shows "md_ok m'"
  using assms by (auto simp: md_ok_def split: option.splits)

lemma md_ok_names [simp]:
  "md_ok m \<Longrightarrow> md_ok (md_onSettingsCustomNameChanged env m)"
  "md_ok m \<Longrightarrow> md_ok (md_onInverterCustomNameChanged env m)"
  "md_ok m \<Longrightarrow> md_ok (md_onPositionChanged m)"
proof -
  show "md_ok m \<Longrightarrow> md_ok (md_onPositionChanged m)"
    by (auto simp: md_ok_def md_onPositionChanged_def split: option.splits)
qed (rule md_ok_frame; simp)+

lemma md_activate_some:
  assumes "sma_info_ok (mePr env) (mdInfo m)"
  shows "\<exists>m' st'. md_activate env st m = Some (m', st') \<and> md_ok m' \<and> mdInfo m' = mdInfo m \<and>
    mdConnected m' = mdConnected m \<and>
    (mdInverter m' \<noteq> None \<longleftrightarrow> fst (registerInverter (meStore env) (meReply env) (uniqueId (mdInfo m)) st) \<ge> 0)"
proof -
  obtain iv st' where c: "md_createInverter env st m = (iv, st')" by fastforce
  have none: "iv = None \<longleftrightarrow> fst (registerInverter (meStore env) (meReply env) (uniqueId (mdInfo m)) st) < 0"
    using c by (auto simp: md_createInverter_def Let_def split: prod.splits if_splits)
  show ?thesis
  proof (cases iv)
    case None
    then show ?thesis using c none by (auto simp: md_activate_def md_ok_def)
  next
    case (Some inv)
    then have inv: "invInfo inv = mdInfo m" "invClass inv = md_inverter_class (mePr env) (mdInfo m)"
      using c md_createInverter_info by auto
    let ?m = "m\<lparr> mdInverter := Some (inv_setPosition (position (mdSettings m)) inv),
      mdAcquisition := Some (md_acquisition (mdInfo m)) \<rparr>"
    have sma: "md_acquisition (mdInfo m) = PollSma \<Longrightarrow> invClass inv = SmaInverter"
      using inv assms by (auto simp: md_acquisition_def md_inverter_class_def sma_info_ok_def split: if_splits)
    then have "md_startAcquisition (m\<lparr> mdInverter := Some inv, mdAcquisition := None \<rparr>) = Some ?m"
      by (auto simp: md_startAcquisition_def)
    moreover have "md_ok ?m" using inv sma by (auto simp: md_ok_def)
    then have "md_ok (md_onSettingsCustomNameChanged env ?m)" by simp
    moreover have "mdInverter (md_onSettingsCustomNameChanged env ?m) \<noteq> None"
      using md_name_simps(6) [of env ?m] by (auto simp del: md_name_simps(6))
    ultimately show ?thesis using c Some none by (auto simp: md_activate_def)
  qed
qed

text \<open>
  What a detection does to a mediator: another device only ever closes the inverter at its address,
  and its own device leaves it with the new information and, when its settings are active and an
  instance is available, with an inverter.
\<close>

lemma md_process_other:
  assumes "uniqueId (mdInfo m) \<noteq> uniqueId info"
  shows "md_processNewInverter env st info m =
    Some (False, (case mdInverter m of None \<Rightarrow> m
      | Some iv \<Rightarrow> if hostName (invInfo iv) = hostName info \<and> networkId (invInfo iv) = networkId info
                   then md_delete m else m), st)"
  using assms by (auto simp: md_processNewInverter_def split: option.split)

lemma md_process_own:
  assumes "md_ok m" "uniqueId (mdInfo m) = uniqueId info" "sma_info_ok (mePr env) info"
  shows "\<exists>m' st'. md_processNewInverter env st info m = Some (True, m', st') \<and> md_ok m' \<and> mdInfo m' = info \<and>
    mdConnected m' = mdConnected m \<and>
    (mdInverter m' \<noteq> None \<longleftrightarrow> mdInverter m \<noteq> None \<and> retrievalMode (mdInfo m) = retrievalMode info \<or>
       isActive (mdSettings m) \<and>
       fst (registerInverter (meStore env) (meReply env) (uniqueId info) st) \<ge> 0)"
proof -
  define m1 where "m1 = (if retrievalMode (mdInfo m) \<noteq> retrievalMode info then md_delete m else m)\<lparr> mdInfo := info \<rparr>"
  have m1: "mdInfo m1 = info" "mdSettings m1 = mdSettings m" "mdConnected m1 = mdConnected m"
    "mdInverter m1 \<noteq> None \<longleftrightarrow> mdInverter m \<noteq> None \<and> retrievalMode (mdInfo m) = retrievalMode info"
    by (auto simp: m1_def)
  have proc: "md_processNewInverter env st info m =
      (case mdInverter m1 of
         Some iv \<Rightarrow> Some (True, if hostName (invInfo iv) \<noteq> hostName info \<or> devicePort (invInfo iv) \<noteq> devicePort info
            then m1\<lparr> mdInverter := Some (inv_setPort (devicePort info) (inv_setHostName (hostName info) iv)) \<rparr>
            else m1, st)
       | None \<Rightarrow> if \<not> isActive (mdSettings m1) then Some (True, m1, st)
                 else map_option (\<lambda>(m, st). (True, m, st)) (md_activate env st m1))"
    unfolding m1_def md_processNewInverter_def Let_def using assms(2) by simp
  show ?thesis
  proof (cases "mdInverter m1")
    case None
    obtain m' st' where "md_activate env st m1 = Some (m', st')" "md_ok m'" "mdInfo m' = info"
        "mdConnected m' = mdConnected m"
        "mdInverter m' \<noteq> None \<longleftrightarrow> fst (registerInverter (meStore env) (meReply env) (uniqueId info) st) \<ge> 0"
      using md_activate_some [of env m1 st] assms(3) m1 by auto
    moreover have "md_ok m1" using None assms(1) by (auto simp: md_ok_def m1_def split: if_splits option.splits)
    ultimately show ?thesis using None proc m1 by auto
  next
    case (Some iv)
    then have "mdInverter m = Some iv" "retrievalMode (mdInfo m) = retrievalMode info" "m1 = m\<lparr> mdInfo := info \<rparr>"
      by (auto simp: m1_def split: if_splits)
    then show ?thesis using proc assms(1,2) Some
      by (auto simp: md_ok_def inv_setPort_def inv_setHostName_def md_acquisition_def)
  qed
qed

lemma md_settings_initialized:
  assumes "sma_info_ok (mePr env) (mdInfo m)"
  shows "\<exists>m' st'. md_onSettingsInitialized env st m = Some (m', st') \<and> md_ok m' \<and> mdInfo m' = mdInfo m \<and> mdConnected m'"
proof (cases "isActive (mdSettings m)")
  case True
  then show ?thesis
    using md_activate_some [of env "m\<lparr> mdConnected := True,
      mdSettings := md_migrate (meItemStore env) (mdInfo m) (mdSettings m) \<rparr>" st] assms
    by (auto simp: md_onSettingsInitialized_def)
qed (simp add: md_onSettingsInitialized_def)

text \<open>
  The network id of the inverter is not updated when its own device is found with another one: the
  mediator and the inverter, which is what is polled, then differ.
\<close>

lemma md_network_id_stale:
  assumes "uniqueId (mdInfo m) = uniqueId info" "retrievalMode (mdInfo m) = retrievalMode info"
    and "mdInverter m = Some iv" "md_processNewInverter env st info m = Some (b, m', st')"
  shows "mdInfo m' = info \<and> map_option (networkId \<circ> invInfo) (mdInverter m') = Some (networkId (invInfo iv))"
  using assms by (auto simp: md_processNewInverter_def inv_setPort_def inv_setHostName_def Let_def split: if_splits)

end
