(* ===== verification/Dbus_Fronius.thy ===== *)
theory Dbus_Fronius
  imports Gateway Mediator
begin

text \<open>
  The service that ties everything together (\<^verbatim>\<open>dbus_fronius.cpp\<close>): the gateway, which owns the global
  settings, and one mediator per inverter.  A step of the gateway is followed by the slots that its
  signals are connected to, in the order of the signals; a mediator that asks for a detection makes
  the gateway take a step.  \<open>deStored\<close> is what localsettings holds for an inverter id when its
  mediator is made.
\<close>

record df_env =
  deGateway :: gw_env
  deMediator :: mediator_env
  deStored :: "string \<Rightarrow> inverter_settings"

record dbus_fronius =
  dfMediators :: "mediator list"
  dfGateway :: gateway
  dfItems :: items
  dfReady :: bool

definition df_new :: "df_env \<Rightarrow> settings \<Rightarrow> dbus_fronius" where
  "df_new env st =
     \<lparr> dfMediators = [], dfGateway = gw_new (deGateway env) st,
       dfItems = createItem ''ScanProgress'' (createItem ''AutoDetect'' (\<lambda>_. None)), dfReady = False \<rparr>"

definition df_settings :: "dbus_fronius \<Rightarrow> settings" where
  "df_settings df = gwSettings (dfGateway df)"

definition df_set_settings :: "settings \<Rightarrow> dbus_fronius \<Rightarrow> dbus_fronius" where
  "df_set_settings st df = df\<lparr> dfGateway := (dfGateway df)\<lparr> gwSettings := st \<rparr> \<rparr>"

subsection \<open>Slots for the signals of the gateway\<close>

definition df_onScanProgressChanged :: "int \<Rightarrow> dbus_fronius \<Rightarrow> dbus_fronius" where
  "df_onScanProgressChanged progress df =
     df\<lparr> dfItems := produceDouble ''ScanProgress'' (of_integer progress) 0 ''%'' (dfItems df) \<rparr>"

definition df_onAutoDetectChanged :: "bool \<Rightarrow> dbus_fronius \<Rightarrow> dbus_fronius" where
  "df_onAutoDetectChanged autoDetect df =
     df\<lparr> dfItems := (if autoDetect then produceText ''AutoDetect'' (VInt 1) (TextString ''Busy'') (dfItems df)
                     else produceText ''AutoDetect'' (VInt 0) (TextString ''Idle'') (dfItems df)) \<rparr>"

text \<open>The loop over the mediators, up to the first one that knows the inverter.\<close>

fun df_process ::
    "mediator_env \<Rightarrow> settings \<Rightarrow> device_info \<Rightarrow> mediator list \<Rightarrow> (bool \<times> mediator list \<times> settings) option" where
  "df_process env st info [] = Some (False, [], st)"
| "df_process env st info (m # ms) =
     (case md_processNewInverter env st info m of
        None \<Rightarrow> None
      | Some (found, m', st') \<Rightarrow>
          if found then Some (True, m' # ms, st')
          else map_option (\<lambda>(b, ms', st''). (b, m' # ms', st'')) (df_process env st' info ms))"

definition has_storage :: "device_info \<Rightarrow> bool" where
  "has_storage info \<longleftrightarrow> qIsFinite (storageCapacity info) \<and> Fin 0 < storageCapacity info"

definition df_onInverterFound :: "df_env \<Rightarrow> device_info \<Rightarrow> dbus_fronius \<Rightarrow> dbus_fronius option" where
  "df_onInverterFound env info df =
     (if has_storage info then Some df
      else case df_process (deMediator env) (df_settings df) info (dfMediators df) of
        None \<Rightarrow> None
      | Some (found, ms, st) \<Rightarrow>
          let df = df_set_settings st (df\<lparr> dfMediators := ms \<rparr>)
          in if found then Some df
             else Some (df\<lparr> dfMediators := dfMediators df @
               [md_new info (deStored env (createInverterId (uniqueId info)))] \<rparr>))"

fun df_slot :: "df_env \<Rightarrow> gw_out \<Rightarrow> dbus_fronius \<Rightarrow> dbus_fronius option" where
  "df_slot env (InverterFound info) df = df_onInverterFound env info df"
| "df_slot env (AutoDetectChanged b) df = Some (df_onAutoDetectChanged b df)"
| "df_slot env (ScanProgressChanged p) df = Some (df_onScanProgressChanged p df)"
| "df_slot env _ df = Some df"

fun df_slots :: "df_env \<Rightarrow> gw_out list \<Rightarrow> dbus_fronius \<Rightarrow> dbus_fronius option" where
  "df_slots env [] df = Some df"
| "df_slots env (x # xs) df = (case df_slot env x df of None \<Rightarrow> None | Some df' \<Rightarrow> df_slots env xs df')"

text \<open>An operation of the gateway, with the slots for what it signals.\<close>

definition df_gateway :: "df_env \<Rightarrow> (gateway \<Rightarrow> gateway) \<Rightarrow> dbus_fronius \<Rightarrow> dbus_fronius option" where
  "df_gateway env f df =
     (let g = dfGateway df; g' = f g
      in df_slots env (drop (length (gwOut g)) (gwOut g')) (df\<lparr> dfGateway := g' \<rparr>))"

definition df_startDetection :: "df_env \<Rightarrow> dbus_fronius \<Rightarrow> dbus_fronius option" where
  "df_startDetection env = df_gateway env (gw_startDetection (deGateway env))"

definition df_onSettingsInitialized :: "df_env \<Rightarrow> dbus_fronius \<Rightarrow> dbus_fronius option" where
  "df_onSettingsInitialized env df0 =
     (let g = gw_addDetector 2 (gw_addDetector 1 (gw_addDetector 0 (dfGateway df0)));
          df = df0\<lparr> dfGateway := g, dfReady := True \<rparr>
      in df_startDetection env (df_onAutoDetectChanged (gwAutoDetect g)
           (df_onScanProgressChanged (gw_scanProgress g) df)))"

text \<open>\<^verbatim>\<open>QVariant::toBool\<close>\<close>

definition lower_char :: "char \<Rightarrow> char" where
  "lower_char c = (let n = of_char c :: nat in if 65 \<le> n \<and> n \<le> 90 then char_of (n + 32) else c)"

fun variant_toBool :: "variant \<Rightarrow> bool" where
  "variant_toBool Invalid = False"
| "variant_toBool (VInt i) = (i \<noteq> 0)"
| "variant_toBool (VDouble d) = (d \<noteq> Fin 0)"
| "variant_toBool (VString s) = (s \<noteq> [] \<and> s \<noteq> ''0'' \<and> map lower_char s \<noteq> ''false'')"

definition df_handleSetValue :: "df_env \<Rightarrow> string \<Rightarrow> variant \<Rightarrow> dbus_fronius \<Rightarrow> dbus_fronius option" where
  "df_handleSetValue env item v df =
     (if item = ''AutoDetect'' \<and> variant_toBool v then df_gateway env (gw_fullScan (deGateway env)) df else Some df)"

subsection \<open>Events of a mediator\<close>

text \<open>
  Its settings are there; an item of them changed; its updater lost the inverter or found another
  model; somebody wrote the name of the inverter.  The signals of the settings are connected once
  they are initialised.
\<close>

datatype md_event =
    MdSettingsInitialized
  | MdSetting string variant
  | MdConnectionLost
  | MdModelChanged
  | MdCustomName string

fun md_enabled :: "mediator \<Rightarrow> md_event \<Rightarrow> bool" where
  "md_enabled m MdSettingsInitialized = (\<not> mdConnected m)"
| "md_enabled m MdConnectionLost = (mdAcquisition m \<noteq> None)"
| "md_enabled m MdModelChanged = (mdAcquisition m \<noteq> None)"
| "md_enabled m _ = True"

text \<open>The slot of a changed setting: whether a detection is asked for, and the mediator.\<close>

definition md_setting_changed :: "mediator_env \<Rightarrow> string \<Rightarrow> mediator \<Rightarrow> bool \<times> mediator" where
  "md_setting_changed env path m =
     (if \<not> mdConnected m then (False, m)
      else if path = ''IsActive'' then md_onIsActivatedChanged m
      else if path = ''Position'' then (False, md_onPositionChanged m)
      else if path = ''CustomName'' then (False, md_onSettingsCustomNameChanged env m)
      else (False, m))"

definition md_write_name :: "mediator_env \<Rightarrow> string \<Rightarrow> mediator \<Rightarrow> mediator" where
  "md_write_name env n m =
     (case mdInverter m of
        None \<Rightarrow> m
      | Some iv \<Rightarrow>
          (let iv' = snd (inv_handleSetValue ''CustomName'' (VString n) iv); m' = m\<lparr> mdInverter := Some iv' \<rparr>
           in if length (invOut iv) < length (invOut iv') then md_onInverterCustomNameChanged env m' else m'))"

fun md_step ::
    "mediator_env \<Rightarrow> md_event \<Rightarrow> settings \<Rightarrow> mediator \<Rightarrow> (bool \<times> mediator \<times> settings) option" where
  "md_step env MdSettingsInitialized st m = map_option (\<lambda>(m, st). (False, m, st)) (md_onSettingsInitialized env st m)"
| "md_step env (MdSetting path v) st m =
     (let (b, m) = md_setting_changed env path (m\<lparr> mdSettings := (mdSettings m)(path := v) \<rparr>) in Some (b, m, st))"
| "md_step env MdConnectionLost st m = map_option (\<lambda>(b, m). (b, m, st)) (md_onConnectionLost m)"
| "md_step env MdModelChanged st m = map_option (\<lambda>(b, m). (b, m, st)) (md_onInverterModelChanged m)"
| "md_step env (MdCustomName n) st m = Some (False, md_write_name env n m, st)"

definition df_mediator :: "df_env \<Rightarrow> nat \<Rightarrow> md_event \<Rightarrow> dbus_fronius \<Rightarrow> dbus_fronius option" where
  "df_mediator env i e df =
     (case md_step (deMediator env) e (df_settings df) (dfMediators df ! i) of
        None \<Rightarrow> None
      | Some (detect, m, st) \<Rightarrow>
          let df = df_set_settings st (df\<lparr> dfMediators := (dfMediators df)[i := m] \<rparr>)
          in if detect then df_startDetection env df else Some df)"

datatype df_event =
    DfSettingsInitialized
  | DfGateway gw_event
  | DfSetValue string variant
  | DfMediator nat md_event

fun df_enabled :: "df_env \<Rightarrow> dbus_fronius \<Rightarrow> df_event \<Rightarrow> bool" where
  "df_enabled env df DfSettingsInitialized = (\<not> dfReady df)"
| "df_enabled env df (DfGateway e) =
     (case e of GwDeviceFound hid info \<Rightarrow> sma_info_ok (mePr (deMediator env)) info | _ \<Rightarrow> True)"
| "df_enabled env df (DfSetValue item v) = True"
| "df_enabled env df (DfMediator i e) = (i < length (dfMediators df) \<and> md_enabled (dfMediators df ! i) e)"

fun df_step :: "df_env \<Rightarrow> dbus_fronius \<Rightarrow> df_event \<Rightarrow> dbus_fronius option" where
  "df_step env df DfSettingsInitialized = df_onSettingsInitialized env df"
| "df_step env df (DfGateway e) = df_gateway env (\<lambda>g. gw_step (deGateway env) g e) df"
| "df_step env df (DfSetValue item v) = df_handleSetValue env item v df"
| "df_step env df (DfMediator i e) = df_mediator env i e df"

inductive df_reach :: "df_env \<Rightarrow> settings \<Rightarrow> dbus_fronius \<Rightarrow> bool" for env st where
  df_init: "df_reach env st (df_new env st)"
| df_next: "df_reach env st df \<Longrightarrow> df_enabled env df e \<Longrightarrow> df_step env df e = Some df' \<Longrightarrow> df_reach env st df'"

subsection \<open>What the gateway signals\<close>

text \<open>Only a detector that finds a device makes the gateway signal one.\<close>

definition found_in :: "gw_out list \<Rightarrow> device_info list" where
  "found_in out = concat (map (\<lambda>x. case x of InverterFound info \<Rightarrow> [info] | _ \<Rightarrow> []) out)"

lemma found_in_simps [simp]:
  "found_in [] = []" "found_in (xs @ ys) = found_in xs @ found_in ys"
  "found_in (InverterFound info # xs) = info # found_in xs" "found_in (AutoDetectChanged b # xs) = found_in xs"
  "found_in (ScanProgressChanged i # xs) = found_in xs" "found_in (StartDetector d h # xs) = found_in xs"
  "found_in (UdpProbe # xs) = found_in xs"
  by (simp_all add: found_in_def)

definition gw_signals :: "device_info list \<Rightarrow> gateway \<Rightarrow> gateway \<Rightarrow> bool" where
  "gw_signals infos g g' \<longleftrightarrow> (\<exists>out. gwOut g' = gwOut g @ out \<and> found_in out = infos)"

lemma gw_signals_refl: "gwOut g' = gwOut g \<Longrightarrow> gw_signals [] g g'"
  by (auto simp: gw_signals_def)

lemma gw_signals_trans: "gw_signals xs g g' \<Longrightarrow> gw_signals ys g' g'' \<Longrightarrow> gw_signals (xs @ ys) g g''"
  by (auto simp: gw_signals_def)

lemma gw_signals_quiet: "gw_signals [] g g' \<Longrightarrow> gw_signals [] g' g'' \<Longrightarrow> gw_signals [] g g''"
  using gw_signals_trans [of "[]" g g' "[]" g''] by simp

lemma gw_signals_base: "gwOut g\<^sub>1 = gwOut g \<Longrightarrow> gw_signals xs g\<^sub>1 g' \<Longrightarrow> gw_signals xs g g'"
  by (simp add: gw_signals_def)

lemma gw_signals_fill: "gw_signals [] g (gw_fill env g)"
proof (rule gw_fill_induct)
  show "gw_signals [] g g" by (simp add: gw_signals_refl)
  fix g' assume "gw_signals [] g g'"
  then show "gw_signals [] g (gw_next_host env g')"
    by (rule gw_signals_quiet) (auto simp: gw_signals_def split: list.split)
qed

lemma gw_signals_continueScan: "gw_signals [] g (gw_continueScan env g)"
  using gw_signals_base [OF _ gw_signals_fill, of "g\<lparr> gwGenerator := gw_prepare env g \<rparr>" g env]
  by (simp add: gw_continueScan_def gw_signals_refl)

lemma gw_signals_setAutoDetect: "gw_signals [] g (gw_setAutoDetect b g)"
  by (auto simp: gw_signals_def gw_setAutoDetect_def)

lemma gw_signals_scan: "gw_signals [] g (gw_scan env t g)"
proof -
  let ?g1 = "g\<lparr> gwScanType := t, gwDevicesFound := [] \<rparr>"
  let ?g2 = "udp_reset (gw_setAutoDetect (t = ScanFull) ?g1)"
  have "gw_signals [] g ?g2"
    using gw_signals_base [OF _ gw_signals_setAutoDetect, of ?g1 g "t = ScanFull"]
    by (auto simp: udp_reset_def gw_signals_def)
  moreover have "gw_signals [] ?g2 (udp_start ?g2)"
    by (auto simp: udp_start_def gw_signals_def)
  moreover have "gw_signals [] ?g2 (gw_continueScan env ?g2)" by (rule gw_signals_continueScan)
  ultimately show ?thesis
    unfolding gw_scan_def Let_def by (auto intro: gw_signals_quiet)
qed

lemma gw_signals_detectionDone: "gw_signals [] g (gw_onDetectionDone env hid g)"
proof -
  have 1: "gw_signals [] g (gw_remove hid g)" by (auto simp: gw_signals_def)
  have 2: "gw_signals [] g' (gw_next_host env g')" for g'
    by (auto simp: gw_signals_def split: list.split)
  have 3: "gw_signals [] g' (gw_scan_done env g')" for g'
  proof -
    let ?f = "g'\<lparr> gwScanType := ScanFull, gwTriedFull := True \<rparr>" and ?n = "g'\<lparr> gwScanType := ScanNone \<rparr>"
    have "gw_signals [] ?f (gw_continueScan env (gw_setAutoDetect True ?f))"
      by (rule gw_signals_quiet [OF gw_signals_setAutoDetect gw_signals_continueScan])
    then have "gw_signals [] g' (gw_continueScan env (gw_setAutoDetect True ?f))"
      by (rule gw_signals_base [rotated]) simp
    moreover have "gw_signals [] g' ((gw_setAutoDetect False ?n)\<lparr> gwTimer := True \<rparr>)"
      by (auto simp: gw_signals_def gw_setAutoDetect_def)
    ultimately show ?thesis unfolding gw_scan_done_def by auto
  qed
  show ?thesis
    unfolding gw_onDetectionDone_cases Let_def
    using gw_signals_quiet [OF 1 2] gw_signals_quiet [OF 1 3] 1 by auto
qed

lemma gw_signals_replyFinished: "gw_signals [] g (gw_replyFinished env hid g)"
proof (cases "map_of (gwActive g) hid")
  case (Some h)
  have "gw_signals [] g (snd (gw_run_scan hid h g))"
    by (auto simp: gw_signals_def split: list.split)
  then show ?thesis
    using Some gw_signals_quiet [OF _ gw_signals_detectionDone]
    by (auto simp: gw_replyFinished_def case_prod_beta)
qed (simp add: gw_replyFinished_def gw_signals_refl)

text \<open>The devices that a step of the gateway signals.\<close>

fun gw_event_found :: "gateway \<Rightarrow> gw_event \<Rightarrow> device_info list" where
  "gw_event_found g (GwDeviceFound hid info) = (if map_of (gwActive g) hid = None then [] else [info])"
| "gw_event_found g _ = []"

lemma gw_signals_step: "gw_signals (gw_event_found g e) g (gw_step env g e)"
proof (cases e)
  case (GwDeviceFound hid info)
  then show ?thesis
    by (auto simp: gw_deviceFound_def gw_onInverterFound_def gw_signals_def Let_def split: option.split)
next
  case (GwIpAddressesChanged s)
  then show ?thesis
    using gw_signals_base [OF _ gw_signals_scan] by (auto simp: gw_onIpAddressesChanged_def)
next
  case GwStart
  then show ?thesis
    using gw_signals_base [OF _ gw_signals_scan] by (auto simp: gw_startDetection_def)
next
  case GwUdpTimeout
  then show ?thesis
    using gw_signals_base [OF _ gw_signals_continueScan] by (auto simp: gw_udpFinished_def gw_signals_refl)
qed (auto simp: gw_fullScan_def gw_onPortNumberChanged_def gw_onTimer_def udp_responseReceived_def
  gw_signals_refl gw_signals_scan gw_signals_replyFinished)

subsection \<open>One mediator per inverter\<close>

definition uids :: "mediator list \<Rightarrow> string list" where
  "uids ms = map (\<lambda>m. uniqueId (mdInfo m)) ms"

definition mds_ok :: "products \<Rightarrow> mediator list \<Rightarrow> bool" where
  "mds_ok pr ms \<longleftrightarrow> distinct (uids ms) \<and> list_all (\<lambda>m. md_ok m \<and> sma_info_ok pr (mdInfo m)) ms"

lemma uids_simps [simp]:
  "uids [] = []" "uids (m # ms) = uniqueId (mdInfo m) # uids ms" "uids (ms @ ms') = uids ms @ uids ms'"
  "length (uids ms) = length ms"
  by (simp_all add: uids_def)

lemma uids_update: "i < length ms \<Longrightarrow> mdInfo m = mdInfo (ms ! i) \<Longrightarrow> uids (ms[i := m]) = uids ms"
  by (auto simp: uids_def map_update intro: list_update_same_conv [THEN iffD2])

text \<open>A detection closes what is at its address before the own mediator, and touches none after it.\<close>

definition md_closed :: "device_info \<Rightarrow> mediator \<Rightarrow> mediator" where
  "md_closed info m =
     (case mdInverter m of None \<Rightarrow> m
      | Some iv \<Rightarrow> if hostName (invInfo iv) = hostName info \<and> networkId (invInfo iv) = networkId info
                   then md_delete m else m)"

lemma md_closed_simps [simp]:
  "mdInfo (md_closed info m) = mdInfo m" "mdConnected (md_closed info m) = mdConnected m"
  "mdSettings (md_closed info m) = mdSettings m" "md_ok m \<Longrightarrow> md_ok (md_closed info m)"
  by (auto simp: md_closed_def split: option.split)

lemma df_process_unknown:
  "uniqueId info \<notin> set (uids ms) \<Longrightarrow> df_process env st info ms = Some (False, map (md_closed info) ms, st)"
  by (induction ms) (auto simp: md_process_other md_closed_def)

lemma df_process_known:
  assumes "uniqueId info \<notin> set (uids pre)" "md_processNewInverter env st info m = Some (True, m', st')"
  shows "df_process env st info (pre @ m # post) = Some (True, map (md_closed info) pre @ m' # post, st')"
  using assms by (induction pre) (auto simp: md_process_other md_closed_def)

lemma mds_ok_closed: "mds_ok pr ms \<Longrightarrow> mds_ok pr (map (md_closed info) ms)"
  by (auto simp: mds_ok_def uids_def list_all_iff comp_def)

lemma df_process_cases:
  assumes "mds_ok (mePr env) ms" "sma_info_ok (mePr env) info"
  obtains (unknown) "uniqueId info \<notin> set (uids ms)"
      "df_process env st info ms = Some (False, map (md_closed info) ms, st)"
  | (known) pre m post m' st' where "ms = pre @ m # post" "uniqueId (mdInfo m) = uniqueId info"
      "uniqueId info \<notin> set (uids pre)" "uniqueId info \<notin> set (uids post)"
      "md_processNewInverter env st info m = Some (True, m', st')" "md_ok m'" "mdInfo m' = info"
      "df_process env st info ms = Some (True, map (md_closed info) pre @ m' # post, st')"
proof (cases "uniqueId info \<in> set (uids ms)")
  case True
  then obtain pre m post where ms: "ms = pre @ m # post" "uniqueId (mdInfo m) = uniqueId info"
    by (auto simp: uids_def dest!: split_list)
  then have out: "uniqueId info \<notin> set (uids pre)" "uniqueId info \<notin> set (uids post)" and ok: "md_ok m"
    using assms(1) by (auto simp: mds_ok_def)
  obtain m' st' where m': "md_processNewInverter env st info m = Some (True, m', st')" "md_ok m'" "mdInfo m' = info"
    using md_process_own [OF ok ms(2) assms(2)] by blast
  then show ?thesis using known [OF ms out m'] df_process_known [OF out(1) m'(1)] ms(1) by simp
qed (use unknown df_process_unknown in blast)

lemma mds_ok_found:
  assumes "mds_ok pr (pre @ m # post)" "md_ok m'" "mdInfo m' = info" "uniqueId (mdInfo m) = uniqueId info"
    and "sma_info_ok pr info"
  shows "mds_ok pr (map (md_closed info) pre @ m' # post)"
  using assms mds_ok_closed [of pr pre info] by (auto simp: mds_ok_def uids_def comp_def)

definition df_ok :: "df_env \<Rightarrow> dbus_fronius \<Rightarrow> bool" where
  "df_ok env df \<longleftrightarrow> mds_ok (mePr (deMediator env)) (dfMediators df)"

lemma df_ok_mediators: "dfMediators df' = dfMediators df \<Longrightarrow> df_ok env df \<Longrightarrow> df_ok env df'"
  by (simp add: df_ok_def)

lemma df_set_settings_simps [simp]:
  "dfMediators (df_set_settings st df) = dfMediators df" "dfItems (df_set_settings st df) = dfItems df"
  "dfReady (df_set_settings st df) = dfReady df"
  by (simp_all add: df_set_settings_def)

lemma df_onInverterFound_ok:
  assumes "df_ok env df" "sma_info_ok (mePr (deMediator env)) info"
  shows "\<exists>df'. df_onInverterFound env info df = Some df' \<and> df_ok env df'"
proof (cases "has_storage info")
  case False
  have mds: "mds_ok (mePr (deMediator env)) (dfMediators df)" using assms(1) by (simp add: df_ok_def)
  show ?thesis
  proof (rule df_process_cases [OF mds assms(2), of "df_settings df"])
    assume "uniqueId info \<notin> set (uids (dfMediators df))"
      "df_process (deMediator env) (df_settings df) info (dfMediators df) =
        Some (False, map (md_closed info) (dfMediators df), df_settings df)"
    then show ?thesis using False mds_ok_closed [OF mds, of info] assms(2)
      by (auto simp: df_onInverterFound_def df_ok_def mds_ok_def uids_def comp_def md_new_def md_ok_def)
  next
    fix pre m post m' st'
    assume known: "dfMediators df = pre @ m # post" "uniqueId (mdInfo m) = uniqueId info" "md_ok m'" "mdInfo m' = info"
      "df_process (deMediator env) (df_settings df) info (dfMediators df) =
        Some (True, map (md_closed info) pre @ m' # post, st')"
    then show ?thesis using False mds_ok_found [OF mds [unfolded known(1)]] assms(2)
      by (auto simp: df_onInverterFound_def df_ok_def)
  qed
qed (use assms in \<open>simp add: df_onInverterFound_def\<close>)

lemma df_slots_ok:
  assumes "df_ok env df" "list_all (sma_info_ok (mePr (deMediator env))) (found_in out)"
  shows "\<exists>df'. df_slots env out df = Some df' \<and> df_ok env df'"
  using assms
proof (induction out arbitrary: df)
  case (Cons x out)
  have "\<exists>df'. df_slot env x df = Some df' \<and> df_ok env df'"
    using Cons.prems df_onInverterFound_ok
    by (cases x) (auto simp: df_onAutoDetectChanged_def df_onScanProgressChanged_def df_ok_def)
  moreover have "list_all (sma_info_ok (mePr (deMediator env))) (found_in out)"
    using Cons.prems(2) by (cases x) simp_all
  ultimately show ?case using Cons.IH by fastforce
qed simp

lemma df_gateway_ok:
  assumes "df_ok env df" "gw_signals infos (dfGateway df) (f (dfGateway df))"
    and "list_all (sma_info_ok (mePr (deMediator env))) infos"
  shows "\<exists>df'. df_gateway env f df = Some df' \<and> df_ok env df'"
proof -
  obtain out where "gwOut (f (dfGateway df)) = gwOut (dfGateway df) @ out" "found_in out = infos"
    using assms(2) by (auto simp: gw_signals_def)
  then show ?thesis
    using df_slots_ok [of env "df\<lparr> dfGateway := f (dfGateway df) \<rparr>" out] assms(1,3)
    by (simp add: df_gateway_def df_ok_def Let_def)
qed

lemma df_startDetection_ok: "df_ok env df \<Longrightarrow> \<exists>df'. df_startDetection env df = Some df' \<and> df_ok env df'"
  unfolding df_startDetection_def
  by (rule df_gateway_ok [where infos = "[]"])
    (use gw_signals_step [of _ GwStart] in \<open>simp_all\<close>)

lemma md_ok_settings [simp]: "md_ok (m\<lparr> mdSettings := s \<rparr>) = md_ok m"
  by (cases "mdInverter m") (simp_all add: md_ok_def)

lemma md_onPositionChanged_info [simp]: "mdInfo (md_onPositionChanged m) = mdInfo m"
  by (simp add: md_onPositionChanged_def split: option.split)

lemma md_setting_changed_ok:
  "md_ok m \<Longrightarrow> md_ok (snd (md_setting_changed env path m)) \<and>
    mdInfo (snd (md_setting_changed env path m)) = mdInfo m"
  by (simp add: md_setting_changed_def md_onIsActivatedChanged_def)

lemma md_write_name_ok: "md_ok m \<Longrightarrow> md_ok (md_write_name env n m) \<and> mdInfo (md_write_name env n m) = mdInfo m"
  by (auto simp: md_write_name_def inv_handleSetValue_def md_ok_def Let_def split: option.splits)

lemma md_step_ok:
  assumes "md_ok m" "sma_info_ok (mePr env) (mdInfo m)" "md_enabled m e"
  shows "\<exists>b m' st'. md_step env e st m = Some (b, m', st') \<and> md_ok m' \<and> mdInfo m' = mdInfo m"
proof (cases e)
  case MdSettingsInitialized
  then show ?thesis using md_settings_initialized [OF assms(2), of st] by auto
next
  case (MdSetting path v)
  then show ?thesis
    using assms(1) md_setting_changed_ok [of "m\<lparr> mdSettings := (mdSettings m)(path := v) \<rparr>" env path]
    by (cases "md_setting_changed env path (m\<lparr> mdSettings := (mdSettings m)(path := v) \<rparr>)") simp
next
  case MdConnectionLost
  then show ?thesis using assms by (auto simp: md_onConnectionLost_def md_ok_def split: option.splits)
next
  case MdModelChanged
  then show ?thesis using assms by (auto simp: md_onInverterModelChanged_def md_ok_def split: option.splits)
next
  case (MdCustomName n)
  then show ?thesis using assms(1) md_write_name_ok by auto
qed

lemma df_mediator_ok:
  assumes "df_ok env df" "i < length (dfMediators df)" "md_enabled (dfMediators df ! i) e"
  shows "\<exists>df'. df_mediator env i e df = Some df' \<and> df_ok env df'"
proof -
  let ?m = "dfMediators df ! i"
  have m: "md_ok ?m" "sma_info_ok (mePr (deMediator env)) (mdInfo ?m)"
    using assms(1,2) by (auto simp: df_ok_def mds_ok_def list_all_length)
  obtain b m' st' where s: "md_step (deMediator env) e (df_settings df) ?m = Some (b, m', st')" "md_ok m'"
      "mdInfo m' = mdInfo ?m"
    using md_step_ok [OF m assms(3), where st = "df_settings df"] by blast
  let ?df = "df_set_settings st' (df\<lparr> dfMediators := (dfMediators df)[i := m'] \<rparr>)"
  have "list_all (\<lambda>m. md_ok m \<and> sma_info_ok (mePr (deMediator env)) (mdInfo m)) ((dfMediators df)[i := m'])"
    using assms(1) s(2,3) m(2) by (auto simp: df_ok_def mds_ok_def list_all_iff dest!: set_update_subset_insert [THEN subsetD])
  then have "df_ok env ?df"
    using assms(1,2) s(3) by (simp add: df_ok_def mds_ok_def uids_update)
  then show ?thesis using s(1) df_startDetection_ok [of env ?df]
    by (auto simp: df_mediator_def Let_def)
qed

lemma df_step_ok:
  assumes "df_ok env df" "df_enabled env df e"
  shows "\<exists>df'. df_step env df e = Some df' \<and> df_ok env df'"
proof (cases e)
  case DfSettingsInitialized
  then show ?thesis using assms(1)
    by (auto simp: df_onSettingsInitialized_def Let_def df_onAutoDetectChanged_def df_onScanProgressChanged_def
        df_ok_def intro!: df_startDetection_ok [unfolded df_ok_def])
next
  case (DfGateway ge)
  have "list_all (sma_info_ok (mePr (deMediator env))) (gw_event_found (dfGateway df) ge)"
    using assms(2) DfGateway by (cases ge) simp_all
  moreover have "gw_signals (gw_event_found (dfGateway df) ge) (dfGateway df)
      (gw_step (deGateway env) (dfGateway df) ge)"
    by (rule gw_signals_step)
  ultimately have "\<exists>df'. df_gateway env (\<lambda>g. gw_step (deGateway env) g ge) df = Some df' \<and> df_ok env df'"
    using df_gateway_ok [OF assms(1), where f = "\<lambda>g. gw_step (deGateway env) g ge"] by blast
  then show ?thesis using DfGateway by simp
next
  case (DfSetValue item v)
  have "gw_signals [] (dfGateway df) (gw_fullScan (deGateway env) (dfGateway df))"
    by (simp add: gw_fullScan_def gw_signals_scan)
  then show ?thesis using df_gateway_ok [OF assms(1), where f = "gw_fullScan (deGateway env)" and infos = "[]"]
      DfSetValue assms(1) by (simp add: df_handleSetValue_def)
next
  case (DfMediator i me)
  then show ?thesis using df_mediator_ok [OF assms(1)] assms(2) by simp
qed

lemma df_reach_ok: "df_reach env st df \<Longrightarrow> df_ok env df"
proof (induction rule: df_reach.induct)
  case df_init
  then show ?case by (simp add: df_ok_def df_new_def mds_ok_def)
next
  case (df_next df e df')
  then show ?case using df_step_ok by fastforce
qed

definition demo_df_env :: df_env where
  "demo_df_env = \<lparr> deGateway = toy_env,
     deMediator = \<lparr> mePr = demo_products, meStore = (\<lambda>_ new. new), meItemStore = (\<lambda>_ new. new),
       meReply = (\<lambda>_ _. Some ''pvinverter:20''), meToUInt = (\<lambda>_. 0), meProcess = ''dbus-fronius'',
       meVersion = ''1.0'', meError = 0 \<rparr>,
     deStored = (\<lambda>_. inverter_settings_new) \<rparr>"

definition demo_df :: dbus_fronius where
  "demo_df = the (df_step demo_df_env (the (df_step demo_df_env
     (df_new demo_df_env (settings_new\<lparr> stIpAddresses := ''x'', stAutoScan := False \<rparr>)) DfSettingsInitialized))
     (DfGateway (GwDeviceFound 0 (new_device_info\<lparr> uniqueId := ''29301000'', hostName := ''x'' \<rparr>))))"

lemma df_reach_step: "df_reach env st df \<Longrightarrow> df_enabled env df e \<Longrightarrow> df_reach env st (the (df_step env df e))"
  using df_step_ok [OF df_reach_ok] by (metis df_next option.sel)

lemma demo_df_reach:
  "df_reach demo_df_env (settings_new\<lparr> stIpAddresses := ''x'', stAutoScan := False \<rparr>) demo_df"
  unfolding demo_df_def
  by (intro df_reach_step df_init) (simp_all add: df_new_def sma_info_ok_def new_device_info_def)

lemma demo_df_mediators: "length (dfMediators demo_df) = 1" "\<not> mdConnected (dfMediators demo_df ! 0)"
proof -
  have "map mdConnected (dfMediators demo_df) = [False]" by code_simp
  then obtain m where "dfMediators demo_df = [m]" "\<not> mdConnected m" by (auto simp: map_eq_Cons_conv)
  then show "length (dfMediators demo_df) = 1" "\<not> mdConnected (dfMediators demo_df ! 0)" by simp_all
qed





text \<open>
  A found inverter ends up with one mediator that has its information: a storage system is
  ignored, and any other device has exactly one mediator afterwards, with the information just
  found, while every other mediator keeps its own.
\<close>

lemma df_found_inverter_has_mediator:
  assumes "df_reach env st df" "sma_info_ok (mePr (deMediator env)) info"
  shows "\<exists>df'. df_onInverterFound env info df = Some df' \<and>
    (if has_storage info then df' = df
     else (\<exists>m. filter (\<lambda>m. uniqueId (mdInfo m) = uniqueId info) (dfMediators df') = [m] \<and> mdInfo m = info \<and> md_ok m) \<and>
       map mdInfo (filter (\<lambda>m. uniqueId (mdInfo m) \<noteq> uniqueId info) (dfMediators df')) =
       map mdInfo (filter (\<lambda>m. uniqueId (mdInfo m) \<noteq> uniqueId info) (dfMediators df)))"
proof (cases "has_storage info")
  case False
  let ?own = "\<lambda>m. uniqueId (mdInfo m) = uniqueId info"
  have none: "filter ?own ms = [] \<and> filter (\<lambda>m. \<not> ?own m) ms = ms" if "uniqueId info \<notin> set (uids ms)" for ms
    using that by (auto simp: uids_def filter_empty_conv filter_id_conv image_iff)
  have closed: "uids (map (md_closed info) ms) = uids ms" "map mdInfo (map (md_closed info) ms) = map mdInfo ms" for ms
    by (simp_all add: uids_def comp_def)
  have mds: "mds_ok (mePr (deMediator env)) (dfMediators df)" using df_reach_ok [OF assms(1)] by (simp add: df_ok_def)
  show ?thesis
  proof (rule df_process_cases [OF mds assms(2), of "df_settings df"])
    assume un: "uniqueId info \<notin> set (uids (dfMediators df))"
      "df_process (deMediator env) (df_settings df) info (dfMediators df) =
        Some (False, map (md_closed info) (dfMediators df), df_settings df)"
    then show ?thesis using False none [of "map (md_closed info) (dfMediators df)"] none [OF un(1)] closed
      by (simp add: df_onInverterFound_def) (simp add: md_new_def md_ok_def)
  next
    fix pre m post m' st'
    assume "dfMediators df = pre @ m # post" "uniqueId (mdInfo m) = uniqueId info" "md_ok m'" "mdInfo m' = info"
      "uniqueId info \<notin> set (uids pre)" "uniqueId info \<notin> set (uids post)"
      "df_process (deMediator env) (df_settings df) info (dfMediators df) =
        Some (True, map (md_closed info) pre @ m' # post, st')"
    then show ?thesis using False none [of "map (md_closed info) pre"] none [of pre] none [of post] closed
      by (simp add: df_onInverterFound_def)
  qed
qed (simp add: df_onInverterFound_def)

subsection \<open>Two inverters at one address\<close>

text \<open>
  The loop stops at the mediator that knows the inverter.  A mediator before it whose inverter is at
  the same address closes it; one behind it keeps it, so that both poll the same device.
\<close>

lemma df_process_order:
  assumes "uniqueId (mdInfo a) = uniqueId info" "uniqueId (mdInfo b) \<noteq> uniqueId info"
    and "retrievalMode (mdInfo a) = retrievalMode info" "mdInverter a = Some ia" "mdInverter b = Some ib"
    and "hostName (invInfo ib) = hostName info" "networkId (invInfo ib) = networkId info"
  shows "\<exists>a'. df_process env st info [a, b] = Some (True, [a', b], st) \<and>
      (hostName (invInfo ia) \<noteq> hostName info \<longrightarrow>
       map_option (hostName \<circ> invInfo) (mdInverter a') = map_option (hostName \<circ> invInfo) (mdInverter b))"
    and "\<exists>a'. df_process env st info [b, a] = Some (True, [md_delete b, a'], st)"
  using assms
  by (simp_all add: md_processNewInverter_def Let_def inv_setPort_info inv_setHostName_info)

end
