(* ===== verification/Detected_Devices.thy ===== *)
theory Detected_Devices
  imports Sunspec_Detector Sma_Detector Solar_Detector Dbus_Fronius
begin

text \<open>
  The detectors and the service together.  \<open>detected\<close> are the devices that the three detectors that
  \<^verbatim>\<open>DBusFronius::onSettingsInitialized\<close> hands to the gateway can ever report: what a Sunspec or an SMA
  detection reports in a reachable state, and what the solar API detection makes of a Sunspec device
  or of the information of the data manager.  They meet the one condition under which no step of the
  service fails.
\<close>

inductive_set detected :: "products \<Rightarrow> device_info set" for pr where
  sunspec_detected: "det_reach sd_onConnected (sd_onFinished pr) (sd_start unitId host) d \<Longrightarrow>
    DeviceFound info \<in> set (dOut d) \<Longrightarrow> info \<in> detected pr"
| sma_detected: "det_reach smd_onConnected (smd_onFinished pr wide) (smd_start unit host) d \<Longrightarrow>
    DeviceFound info \<in> set (dOut d) \<Longrightarrow> info \<in> detected pr"
| solar_sunspec_detected: "det_reach sd_onConnected (sd_onFinished pr) (sd_start unitId host) d \<Longrightarrow>
    DeviceFound info \<in> set (dOut d) \<Longrightarrow> sad_sunspec_info it info \<in> detected pr"
| solar_detected: "sad_solar_info pr sd it \<in> detected pr"

subsection \<open>Invariants of the detections\<close>

text \<open>The information collected so far satisfies a condition while it may still be reported, and what was reported does.\<close>

definition det_inv :: "(device_info \<Rightarrow> bool) \<Rightarrow> 's detection \<Rightarrow> bool" where
  "det_inv P d \<longleftrightarrow> (dClient d \<longrightarrow> P (dDi d)) \<and> (\<forall>i. DeviceFound i \<in> set (dOut d) \<longrightarrow> P i)"

lemma det_inv_intros [intro]:
  "det_inv P d \<Longrightarrow> det_inv P (det_setDone d)"
  "det_inv P d \<Longrightarrow> dClient d \<Longrightarrow> det_inv P (det_setDone (det_setResult d))"
  "det_inv P d \<Longrightarrow> det_inv P (det_startNextRequest n d)"
  by (auto simp: det_inv_def)

lemma det_inv_frame:
  "det_inv P d \<Longrightarrow> dClient d' = dClient d \<Longrightarrow> dOut d' = dOut d \<Longrightarrow> (P (dDi d) \<Longrightarrow> P (dDi d')) \<Longrightarrow> det_inv P d'"
  by (auto simp: det_inv_def)

locale collecting = detector +
  fixes P :: "device_info \<Rightarrow> bool"
  assumes connected_keeps: "det_inv P d \<Longrightarrow> det_inv P (conn d)"
    and answer_keeps: "answer values d = Some d' \<Longrightarrow> dClient d \<Longrightarrow> det_inv P d \<Longrightarrow> det_inv P d'"
begin

lemma step_keeps:
  assumes "det_inv P d" "det_enabled d e" "det_step conn answer d e = Some d'"
  shows "det_inv P d'"
proof (cases e)
  case DetConnected
  then show ?thesis using assms connected_keeps [of "d\<lparr> dLink := LinkUp \<rparr>"] by (auto simp: det_inv_def)
next
  case DetDisconnected
  then show ?thesis using assms by (auto simp: det_inv_def det_onDisconnected_def split: if_splits)
next
  case (DetAnswer vs)
  then show ?thesis using assms answer_keeps [of vs "d\<lparr> dPending := dPending d - 1 \<rparr>" d']
    by (auto simp: det_inv_def)
qed

lemma reported:
  assumes "det_reach conn answer (det_start state unitId host) d" "DeviceFound i \<in> set (dOut d)"
    and "P (new_device_info\<lparr> networkId := unitId, hostName := host \<rparr>)"
  shows "P i"
proof -
  have "det_inv P d"
    using assms(1)
  proof (induction rule: det_reach.induct)
    case det_init
    then show ?case using assms(3) by (simp add: det_inv_def det_start_def)
  qed (rule step_keeps)
  then show ?thesis using assms(2) by (simp add: det_inv_def)
qed

end

subsection \<open>Sunspec: never the protocol of SMA\<close>

lemma sd_info_mode [simp]:
  "retrievalMode (sd_common pr values di) = retrievalMode di"
  "retrievalMode (sd_nameplate values di) = retrievalMode di"
  "retrievalMode (sd_controls values di) = retrievalMode di"
  by (simp_all add: sd_common_def sd_nameplate_def sd_controls_def Let_def)

lemma sd_model_id_mode: "retrievalMode di \<noteq> ProtocolSMA \<Longrightarrow> retrievalMode (sd_model_id i reg di) \<noteq> ProtocolSMA"
  by (simp add: sd_model_id_def)

lemma sd_onFinished_keeps:
  fixes P defines "P \<equiv> \<lambda>di. retrievalMode di \<noteq> ProtocolSMA"
  assumes "sd_onFinished pr values d = Some d'" "dClient d" "det_inv P d"
  shows "det_inv P d'"
proof (cases "dState d")
  case SunSpecHeader
  then show ?thesis using assms(2-4)
    by (auto simp: sd_onFinished_def sd_onHeader_def Let_def det_inv_def split: if_splits)
next
  case ModuleHeader
  then show ?thesis using assms(2-4)
    by (auto simp: P_def sd_onFinished_def sd_onModuleHeader_def Let_def det_inv_def sd_model_id_mode split: if_splits)
next
  case ModuleContent
  then have "sd_onModuleContent pr values d = Some d'" using assms(2) by (simp add: sd_onFinished_def)
  then show ?thesis using assms(3,4)
    by (auto simp: P_def sd_onModuleContent_def sd_next_model_def Let_def det_inv_def split: if_splits)
qed

interpretation sunspec_info: collecting sd_onConnected "sd_onFinished pr" "\<lambda>di. retrievalMode di \<noteq> ProtocolSMA" for pr
  by unfold_locales (auto simp: sd_onConnected_def det_inv_def dest: sd_onFinished_keeps)

subsection \<open>SMA: only with the product id of SMA\<close>

lemma smd_onFinished_keeps:
  assumes "smd_onFinished pr wide values d = Some d'" "dClient d" "det_inv (sma_info_ok pr) d"
  shows "det_inv (sma_info_ok pr) d'"
  using assms
  by (cases "dState d")
     (auto simp: smd_onFinished_def smd_handlers smd_request_def Let_def det_inv_def sma_info_ok_def
       split: if_splits option.splits)

interpretation sma_info: collecting smd_onConnected "smd_onFinished pr wide" "sma_info_ok pr" for pr wide
  by unfold_locales (auto simp: smd_onConnected_def smd_request_def det_inv_def dest: smd_onFinished_keeps)

subsection \<open>Every device that is found is accepted\<close>

lemma sunspec_device_ok:
  assumes "det_reach sd_onConnected (sd_onFinished pr) (sd_start unitId host) d" "DeviceFound info \<in> set (dOut d)"
  shows "retrievalMode info \<noteq> ProtocolSMA"
  using sunspec_info.reported [OF assms [unfolded sd_start_def]] by (simp add: new_device_info_def)

lemma detected_ok: "info \<in> detected pr \<Longrightarrow> sma_info_ok pr info"
proof (induction rule: detected.induct)
  case (sma_detected wide unit host d info)
  then show ?case using sma_info.reported [of pr wide ReadDeviceClass unit host d info]
    by (simp add: smd_start_def sma_info_ok_def new_device_info_def)
qed (auto simp: sma_info_ok_def sad_sunspec_info_def sad_solar_info_def new_device_info_def Let_def
      dest: sunspec_device_ok split: option.splits)

text \<open>
  C11. Whatever one of the three detectors reports, at whatever time, the service takes it: the signal
  of the gateway has a result in every reachable state; a storage system is ignored, and any other
  device has exactly one mediator afterwards, with the information just found, while every other
  mediator keeps its own.
\<close>

theorem detected_device_is_accepted:
  assumes "df_reach env st df" "info \<in> detected (mePr (deMediator env))"
  shows "df_step env df (DfGateway (GwDeviceFound hid info)) \<noteq> None \<and>
    (\<exists>df'. df_onInverterFound env info df = Some df' \<and>
      (if has_storage info then df' = df
       else (\<exists>m. filter (\<lambda>m. uniqueId (mdInfo m) = uniqueId info) (dfMediators df') = [m] \<and> mdInfo m = info \<and> md_ok m) \<and>
         map mdInfo (filter (\<lambda>m. uniqueId (mdInfo m) \<noteq> uniqueId info) (dfMediators df')) =
         map mdInfo (filter (\<lambda>m. uniqueId (mdInfo m) \<noteq> uniqueId info) (dfMediators df))))"
  using df_step_ok [OF df_reach_ok [OF assms(1)], of "DfGateway (GwDeviceFound hid info)"]
    df_found_inverter_has_mediator [OF assms(1) detected_ok [OF assms(2)]] detected_ok [OF assms(2)]
  by auto

text \<open>The inverter of a data manager without Sunspec.\<close>

definition demo_found :: device_info where
  "demo_found = sad_solar_info demo_products (sad_start [] settings_new ''10.0.0.1'')
     \<lparr> iiId = 1, iiUniqueId = ''29301000'', iiCustomName = [], iiDeviceType = 192, iiErrorCode = 0, iiStatusCode = 7 \<rparr>"

theorem detected_device_is_accepted_witness:
  "\<exists>df'. df_onInverterFound demo_df_env demo_found demo_df = Some df' \<and>
     demo_found \<in> mdInfo ` set (dfMediators df')"
proof -
  have known: "demo_found \<in> detected (mePr (deMediator demo_df_env))"
    unfolding demo_found_def by (simp add: demo_df_env_def solar_detected)
  have "\<not> has_storage demo_found" by code_simp
  then obtain df' m where found: "df_onInverterFound demo_df_env demo_found demo_df = Some df'"
    and "filter (\<lambda>m. uniqueId (mdInfo m) = uniqueId demo_found) (dfMediators df') = [m]" "mdInfo m = demo_found"
    using detected_device_is_accepted [OF demo_df_reach known, of 0] by auto
  then have "m \<in> set (filter (\<lambda>m. uniqueId (mdInfo m) = uniqueId demo_found) (dfMediators df'))" by simp
  then have "demo_found \<in> mdInfo ` set (dfMediators df')"
    using \<open>mdInfo m = demo_found\<close> [symmetric] by (simp add: rev_image_eqI)
  with found show ?thesis by blast
qed

end
