(* ===== verification/Solar_Updater.thy ===== *)
theory Solar_Updater
  imports Solar_Api
begin

text \<open>
  The polling engine of an inverter with the solar API (\<^verbatim>\<open>solar_api_updater.cpp\<close>): a request for the
  common data, then one for the three phases, then a wait of five seconds.  \<open>slTimers\<close> counts the
  single shot timers that run.  A step that dereferences a null pointer has no result.
\<close>

datatype sl_out = SlInitialized | SlConnectionLost

record solar_updater =
  slInverter :: inverter
  slSettings :: inverter_settings
  slApi :: solar_api
  slPrevious :: dbl
  slInitialized :: bool
  slRetryCount :: int
  slTimers :: nat
  slOut :: "sl_out list"

definition sl_deviceId :: "solar_updater \<Rightarrow> int" where
  "sl_deviceId u = networkId (invInfo (slInverter u))"

definition sl_onStartRetrieval :: "solar_updater \<Rightarrow> solar_updater" where
  "sl_onStartRetrieval u = u\<lparr> slApi := sap_getCommonDataAsync (sl_deviceId u) (slApi u) \<rparr>"

definition sl_new :: "inverter \<Rightarrow> inverter_settings \<Rightarrow> solar_updater" where
  "sl_new iv st = sl_onStartRetrieval
     \<lparr> slInverter = iv, slSettings = st, slApi = sap_new (hostName (invInfo iv)) (devicePort (invInfo iv)),
       slPrevious = dp_new, slInitialized = False, slRetryCount = 0, slTimers = 0, slOut = [] \<rparr>"

definition sl_scheduleRetrieval :: "solar_updater \<Rightarrow> solar_updater" where
  "sl_scheduleRetrieval u = u\<lparr> slTimers := slTimers u + 1 \<rparr>"

definition sl_setInitialized :: "solar_updater \<Rightarrow> solar_updater" where
  "sl_setInitialized u =
     (if slInitialized u then u else u\<lparr> slInitialized := True, slOut := slOut u @ [SlInitialized] \<rparr>)"

definition sl_handleError :: "solar_updater \<Rightarrow> solar_updater" where
  "sl_handleError u =
     (let u = u\<lparr> slRetryCount := slRetryCount u + 1 \<rparr>
      in if slRetryCount u = 5 then u\<lparr> slRetryCount := 0, slOut := slOut u @ [SlConnectionLost] \<rparr> else u)"

definition sl_onCommonDataFound :: "common_data \<Rightarrow> solar_updater \<Rightarrow> solar_updater option" where
  "sl_onCommonDataFound data u =
     (case raError data of
        NoError \<Rightarrow>
          (case dp_process_common (slSettings u) data (slInverter u) of
             None \<Rightarrow> None
           | Some iv \<Rightarrow>
               let u = u\<lparr> slInverter := iv, slRetryCount := 0 \<rparr>;
                   u = (if phaseCount (invInfo iv) > 1
                        then u\<lparr> slApi := sap_getThreePhasesInverterDataAsync (networkId (invInfo iv)) (slApi u) \<rparr>
                        else sl_scheduleRetrieval (sl_setInitialized u))
               in Some (u\<lparr> slInverter := inv_setErrorCode (cdErrorCode data)
                            (inv_setStatusCode (cdStatusCode data) (slInverter u)) \<rparr>))
      | NetworkError \<Rightarrow> Some (sl_scheduleRetrieval (sl_handleError u))
      | ApiError \<Rightarrow> Some (sl_scheduleRetrieval (sl_handleError u)))"

definition sl_onThreePhasesDataFound :: "three_phases_data \<Rightarrow> solar_updater \<Rightarrow> solar_updater" where
  "sl_onThreePhasesDataFound data u = sl_scheduleRetrieval
     (case raError data of
        NoError \<Rightarrow>
          (let (prev, iv) = dp_process_three (slSettings u) data (slPrevious u, slInverter u)
           in sl_setInitialized (u\<lparr> slPrevious := prev, slInverter := iv, slRetryCount := 0 \<rparr>))
      | NetworkError \<Rightarrow> sl_handleError u
      | ApiError \<Rightarrow> sl_handleError u)"

definition sl_onPhaseChanged :: "solar_updater \<Rightarrow> solar_updater" where
  "sl_onPhaseChanged u =
     (if phaseCount (invInfo (slInverter u)) > 1 then u
      else u\<lparr> slInverter := inv_produce (pi_resetValues ''Ac/L3'')
             (inv_produce (pi_resetValues ''Ac/L2'') (inv_produce (pi_resetValues ''Ac/L1'') (slInverter u))) \<rparr>)"

definition sl_onSettingsTimer :: "item_store \<Rightarrow> solar_updater \<Rightarrow> solar_updater" where
  "sl_onSettingsTimer store u =
     u\<lparr> slSettings := dp_updateEnergySettings store (slInverter u) (slSettings u) \<rparr>"

text \<open>The slots for the signals of the client; the other two signals are not connected.\<close>

fun sl_signal :: "api_signal option \<Rightarrow> solar_updater \<Rightarrow> solar_updater option" where
  "sl_signal (Some (CommonDataFound data)) u = sl_onCommonDataFound data u"
| "sl_signal (Some (ThreePhasesDataFound data)) u = Some (sl_onThreePhasesDataFound data u)"
| "sl_signal _ u = Some u"

definition sl_api ::
    "(solar_api \<Rightarrow> solar_api \<times> api_signal option) \<Rightarrow> solar_updater \<Rightarrow> solar_updater option" where
  "sl_api f u = (let (api, s) = f (slApi u) in sl_signal s (u\<lparr> slApi := api \<rparr>))"

definition sl_onConnectionDataChanged :: "json_env \<Rightarrow> solar_updater \<Rightarrow> solar_updater option" where
  "sl_onConnectionDataChanged env u =
     (case sl_api (sap_setHostName env (hostName (invInfo (slInverter u)))) u of
        None \<Rightarrow> None
      | Some u \<Rightarrow> sl_api (sap_setPort env (devicePort (invInfo (slInverter u)))) u)"

subsection \<open>Events\<close>

text \<open>
  The request ends (an error or a body) or times out, the wait is over, the settings are stored, the
  phase setting changes, the mediator sets a new host or port.
\<close>

datatype sl_event =
    SlDone "string option" string
  | SlTimeout
  | SlTimer
  | SlSettingsTimer
  | SlPhase inverter_phase
  | SlHost string
  | SlPort int

fun sl_enabled :: "solar_updater \<Rightarrow> sl_event \<Rightarrow> bool" where
  "sl_enabled u (SlDone err body) = (sapRequest (slApi u) \<noteq> None)"
| "sl_enabled u SlTimeout = sapTimer (slApi u)"
| "sl_enabled u SlTimer = (0 < slTimers u)"
| "sl_enabled u _ = True"

fun sl_step :: "json_env \<Rightarrow> item_store \<Rightarrow> solar_updater \<Rightarrow> sl_event \<Rightarrow> solar_updater option" where
  "sl_step env store u (SlDone err body) = sl_api (sap_onDone env err body) u"
| "sl_step env store u SlTimeout = sl_api (sap_onTimeout env) u"
| "sl_step env store u SlTimer = Some (sl_onStartRetrieval (u\<lparr> slTimers := slTimers u - 1 \<rparr>))"
| "sl_step env store u SlSettingsTimer = Some (sl_onSettingsTimer store u)"
| "sl_step env store u (SlPhase p) = Some (sl_onPhaseChanged (u\<lparr> slSettings := (slSettings u)(''Phase'' := VInt p) \<rparr>))"
| "sl_step env store u (SlHost h) =
     (if hostName (invInfo (slInverter u)) = h then Some u
      else sl_onConnectionDataChanged env (u\<lparr> slInverter := inv_setHostName h (slInverter u) \<rparr>))"
| "sl_step env store u (SlPort p) =
     (if devicePort (invInfo (slInverter u)) = p then Some u
      else sl_onConnectionDataChanged env (u\<lparr> slInverter := inv_setPort p (slInverter u) \<rparr>))"

inductive sl_reach :: "json_env \<Rightarrow> item_store \<Rightarrow> inverter \<Rightarrow> inverter_settings \<Rightarrow> solar_updater \<Rightarrow> bool"
  for env store iv st where
  sl_init: "sl_reach env store iv st (sl_new iv st)"
| sl_next: "sl_reach env store iv st u \<Longrightarrow> sl_enabled u e \<Longrightarrow> sl_step env store u e = Some u' \<Longrightarrow>
    sl_reach env store iv st u'"

subsection \<open>Lemmas\<close>

lemma sap_send_simps [simp]:
  "sapRequest (sap_getCommonDataAsync i s) = Some GetCommonData" "sapTimer (sap_getCommonDataAsync i s)"
  "sapRequest (sap_getThreePhasesInverterDataAsync i s) = Some GetThreePhasesInverterData"
  "sapTimer (sap_getThreePhasesInverterDataAsync i s)"
  "sapHost (sap_getCommonDataAsync i s) = sapHost s" "sapPort (sap_getCommonDataAsync i s) = sapPort s"
  "sapHost (sap_getThreePhasesInverterDataAsync i s) = sapHost s"
  "sapPort (sap_getThreePhasesInverterDataAsync i s) = sapPort s"
  by (simp_all add: sap_getCommonDataAsync_def sap_getThreePhasesInverterDataAsync_def sap_sendGetRequest_def)

lemma sl_simps [simp]:
  "slApi (sl_scheduleRetrieval u) = slApi u" "slTimers (sl_scheduleRetrieval u) = Suc (slTimers u)"
  "slInverter (sl_scheduleRetrieval u) = slInverter u"
  "slApi (sl_setInitialized u) = slApi u" "slTimers (sl_setInitialized u) = slTimers u"
  "slInverter (sl_setInitialized u) = slInverter u"
  "slApi (sl_handleError u) = slApi u" "slTimers (sl_handleError u) = slTimers u"
  "slInverter (sl_handleError u) = slInverter u"
  by (simp_all add: sl_scheduleRetrieval_def sl_setInitialized_def sl_handleError_def Let_def)

text \<open>Exactly one thing is awaited: the reply of one of the two requests, with the timer, or the wait.\<close>

definition sl_one :: "solar_updater \<Rightarrow> bool" where
  "sl_one u \<longleftrightarrow> (case sapRequest (slApi u) of
     None \<Rightarrow> slTimers u = 1 \<and> \<not> sapTimer (slApi u)
   | Some r \<Rightarrow> slTimers u = 0 \<and> sapTimer (slApi u) \<and> (r = GetCommonData \<or> r = GetThreePhasesInverterData))"

lemma sl_signal_one:
  assumes "sl_signal s (u\<lparr> slApi := a \<rparr>) = Some u'" "sapRequest a = None" "\<not> sapTimer a" "slTimers u = 0"
    and "\<exists>d t. s = Some (CommonDataFound d) \<or> s = Some (ThreePhasesDataFound t)"
  shows "sl_one u'"
  using assms
  by (auto simp: sl_one_def sl_onCommonDataFound_def sl_onThreePhasesDataFound_def Let_def
      split: api_error.splits option.splits if_splits prod.splits)

lemma sl_onDone_one:
  assumes "sl_one u" "sl_api (sap_onDone env err body) u = Some u'"
  shows "sl_one u'"
proof (cases "sapRequest (slApi u)")
  case None
  then have "u' = u" using assms(2) by (simp add: sl_api_def sap_onDone_def)
  then show ?thesis using assms(1) by simp
next
  case (Some r)
  let ?a = "(slApi u)\<lparr> sapRequest := None, sapTimer := False \<rparr>"
  obtain s where s: "sap_onDone env err body (slApi u) = (?a, s)"
      "\<exists>d t. s = Some (CommonDataFound d) \<or> s = Some (ThreePhasesDataFound t)"
    using assms(1) Some by (auto simp: sl_one_def sap_onDone_def Let_def)
  then have "sl_signal s (u\<lparr> slApi := ?a \<rparr>) = Some u'" using assms(2) by (simp add: sl_api_def)
  then show ?thesis
    by (rule sl_signal_one [OF _ _ _ _ s(2)]) (use assms(1) Some in \<open>auto simp: sl_one_def\<close>)
qed

lemma sl_one_frame:
  "sl_one u \<Longrightarrow> sapRequest (slApi u') = sapRequest (slApi u) \<Longrightarrow> sapTimer (slApi u') = sapTimer (slApi u) \<Longrightarrow>
   slTimers u' = slTimers u \<Longrightarrow> sl_one u'"
  by (simp add: sl_one_def split: option.splits)

text \<open>A new host or port only matters to the client: it ends the request that is pending.\<close>

lemma sl_setHostName_one:
  assumes "sl_one u" "sl_api (sap_setHostName env h) u = Some u'"
  shows "sl_one u'"
proof (cases "sapHost (slApi u) = h")
  case True
  then show ?thesis using assms by (simp add: sl_api_def sap_setHostName_def)
next
  case False
  let ?u = "u\<lparr> slApi := (slApi u)\<lparr> sapHost := h \<rparr> \<rparr>"
  have "sl_one ?u" by (rule sl_one_frame [OF assms(1)]) simp_all
  moreover have "sl_api (sap_onDone env (Some ''Request aborted'') []) ?u = Some u'"
    using assms(2) False by (simp add: sl_api_def sap_setHostName_def sap_updateHttpClient_def)
  ultimately show ?thesis by (rule sl_onDone_one)
qed

lemma sl_setPort_one:
  assumes "sl_one u" "sl_api (sap_setPort env p) u = Some u'"
  shows "sl_one u'"
proof (cases "sapPort (slApi u) = p")
  case True
  then show ?thesis using assms by (simp add: sl_api_def sap_setPort_def)
next
  case False
  let ?u = "u\<lparr> slApi := (slApi u)\<lparr> sapPort := p \<rparr> \<rparr>"
  have "sl_one ?u" by (rule sl_one_frame [OF assms(1)]) simp_all
  moreover have "sl_api (sap_onDone env (Some ''Request aborted'') []) ?u = Some u'"
    using assms(2) False by (simp add: sl_api_def sap_setPort_def sap_updateHttpClient_def)
  ultimately show ?thesis by (rule sl_onDone_one)
qed

lemma sl_connection_one:
  assumes "sl_one u" "sl_onConnectionDataChanged env u = Some u'"
  shows "sl_one u'"
proof -
  obtain u1 where "sl_api (sap_setHostName env (hostName (invInfo (slInverter u)))) u = Some u1"
      "sl_api (sap_setPort env (devicePort (invInfo (slInverter u1)))) u1 = Some u'"
    using assms(2) by (auto simp: sl_onConnectionDataChanged_def split: option.splits)
  then show ?thesis using assms(1) sl_setHostName_one sl_setPort_one by blast
qed

lemma sl_onPhaseChanged_simps [simp]:
  "slApi (sl_onPhaseChanged u) = slApi u" "slTimers (sl_onPhaseChanged u) = slTimers u"
  by (simp_all add: sl_onPhaseChanged_def)

lemma sl_step_one:
  assumes "sl_one u" "sl_enabled u e" "sl_step env store u e = Some u'"
  shows "sl_one u'"
proof (cases e)
  case (SlDone err body)
  then show ?thesis using assms sl_onDone_one by simp
next
  case SlTimeout
  have "sl_api (sap_onTimeout env) u = sl_api (sap_onDone env (Some ''Request aborted'') []) u"
    by (simp add: sl_api_def sap_onTimeout_def)
  then show ?thesis using SlTimeout assms sl_onDone_one by simp
next
  case SlTimer
  then show ?thesis using assms by (auto simp: sl_one_def sl_onStartRetrieval_def split: option.splits)
next
  case (SlHost h)
  have "sl_one (u\<lparr> slInverter := inv_setHostName h (slInverter u) \<rparr>)" by (rule sl_one_frame [OF assms(1)]) simp_all
  then show ?thesis using SlHost assms sl_connection_one by (auto split: if_splits)
next
  case (SlPort p)
  have "sl_one (u\<lparr> slInverter := inv_setPort p (slInverter u) \<rparr>)" by (rule sl_one_frame [OF assms(1)]) simp_all
  then show ?thesis using SlPort assms sl_connection_one by (auto split: if_splits)
next
  case SlSettingsTimer
  show ?thesis by (rule sl_one_frame [OF assms(1)]) (use assms(3) SlSettingsTimer in \<open>auto simp: sl_onSettingsTimer_def\<close>)
next
  case (SlPhase p)
  show ?thesis by (rule sl_one_frame [OF assms(1)]) (use assms(3) SlPhase in auto)
qed

lemma sl_reach_one: "sl_reach env store iv st u \<Longrightarrow> sl_one u"
proof (induction rule: sl_reach.induct)
  case sl_init
  show ?case by (simp add: sl_new_def sl_onStartRetrieval_def sl_one_def)
qed (auto intro: sl_step_one)

subsection \<open>Errors\<close>

interpretation sl_errors: error_counter 5 sl_handleError slRetryCount
    "\<lambda>u. length (filter (\<lambda>x. x = SlConnectionLost) (slOut u))"
  by unfold_locales (simp_all add: sl_handleError_def Let_def)

text \<open>
  C21. The solar API engine never stops polling and never overlaps itself: in every state it can get into,
  also when the host or the port changes in the middle of a request, either one request is pending,
  with its timeout running, or one wait of five seconds is, and not both.
\<close>

theorem sl_one_at_a_time:
  assumes "sl_reach env store iv st u"
  shows "slTimers u + (if sapRequest (slApi u) = None then 0 else 1) = 1 \<and>
    sapTimer (slApi u) = (sapRequest (slApi u) \<noteq> None)"
  using sl_reach_one [OF assms] by (auto simp: sl_one_def split: option.splits)

text \<open>A host that changes while the first request is pending.\<close>

definition demo_solar :: solar_updater where
  "demo_solar = the (sl_step demo_json_env (\<lambda>_ new. new) (sl_new (demo_inverter 0 0) inverter_settings_new)
     (SlHost ''10.0.0.9''))"

lemma demo_solar_step:
  "sl_step demo_json_env (\<lambda>_ new. new) (sl_new (demo_inverter 0 0) inverter_settings_new) (SlHost ''10.0.0.9'') =
     Some demo_solar \<and> slTimers demo_solar = 1"
proof -
  have h: "hostName (invInfo (demo_inverter 0 0)) \<noteq> ''10.0.0.9''"
    by (simp add: demo_inverter_def Let_def inverter_new_def new_device_info_def)
  show ?thesis
    using h by (simp add: demo_solar_def sl_new_def sl_onStartRetrieval_def sl_onConnectionDataChanged_def sl_api_def
        sap_setHostName_def sap_setPort_def sap_updateHttpClient_def sap_onDone_def Let_def inv_setHostName_info
        sap_new_def sap_processCommonData_def sap_processReply_def sl_onCommonDataFound_def sap_getCommonDataAsync_def
        sap_sendGetRequest_def sl_handleError_def sl_scheduleRetrieval_def)
qed

theorem sl_one_at_a_time_witness:
  "slTimers demo_solar = 1 \<and> sapRequest (slApi demo_solar) = None"
proof -
  have "sl_reach demo_json_env (\<lambda>_ new. new) (demo_inverter 0 0) inverter_settings_new demo_solar"
    by (rule sl_next [OF sl_init, where e = "SlHost ''10.0.0.9''"]) (simp_all only: demo_solar_step sl_enabled.simps)
  from sl_one_at_a_time [OF this] show ?thesis using demo_solar_step by (simp split: if_splits)
qed

text \<open>
  The solar API engine reports a lost connection at every fifth error in a row, counted from a
  success: after \<open>n\<close> errors it has done so \<open>n div 5\<close> times.
\<close>

theorem sl_reports_every_fifth_error:
  assumes "slRetryCount u = 0"
  shows "length (filter (\<lambda>x. x = SlConnectionLost) (slOut ((sl_handleError ^^ n) u))) =
    length (filter (\<lambda>x. x = SlConnectionLost) (slOut u)) + n div 5"
  using sl_errors.fail_many [of u 0 n] assms by simp

theorem sl_reports_every_fifth_error_witness:
  "length (filter (\<lambda>x. x = SlConnectionLost)
     (slOut ((sl_handleError ^^ 11) (sl_new (demo_inverter 0 0) inverter_settings_new)))) = 2"
  using sl_reports_every_fifth_error [of "sl_new (demo_inverter 0 0) inverter_settings_new" 11]
  by (simp add: sl_new_def sl_onStartRetrieval_def del: funpow.simps)

end
