(* ===== verification/Ve_Init_Monitor.thy ===== *)
theory Ve_Init_Monitor
  imports Prelude
begin

text \<open>
  Waiting until every item below a root has a value (\<^verbatim>\<open>ve_qitem_init_monitor.cpp\<close>).  An item tree has
  leaves with a number; the states of the leaves, which velib keeps, come with each event.
\<close>

datatype ve_item = Leaf nat | Branch "ve_item list"

text \<open>The states that count as not yet there, and any other.\<close>

datatype item_state = StateIdle | StateRequested | StateOther nat

record init_monitor =
  moItems :: "nat list"
  moConnected :: bool
  moRequested :: "nat list"
  moInitialized :: nat

definition mo_new :: init_monitor where
  "mo_new = \<lparr> moItems = [], moConnected = False, moRequested = [], moInitialized = 0 \<rparr>"

fun mo_addItem :: "ve_item \<Rightarrow> init_monitor \<Rightarrow> init_monitor" where
  "mo_addItem (Leaf i) m = m\<lparr> moItems := moItems m @ [i] \<rparr>"
| "mo_addItem (Branch items) m = fold mo_addItem items m"

definition mo_checkState :: "(nat \<Rightarrow> item_state) \<Rightarrow> init_monitor \<Rightarrow> bool" where
  "mo_checkState states m \<longleftrightarrow>
     moItems m \<noteq> [] \<and> list_all (\<lambda>i. states i \<noteq> StateIdle \<and> states i \<noteq> StateRequested) (moItems m)"

definition mo_emit :: "init_monitor \<Rightarrow> init_monitor" where
  "mo_emit m = m\<lparr> moInitialized := moInitialized m + 1 \<rparr>"

definition mo_start :: "(nat \<Rightarrow> item_state) \<Rightarrow> init_monitor \<Rightarrow> init_monitor" where
  "mo_start states m =
     (if mo_checkState states m then mo_emit m
      else m\<lparr> moConnected := True, moRequested := filter (\<lambda>i. states i = StateIdle) (moItems m) \<rparr>)"

definition mo_onStateChanged :: "(nat \<Rightarrow> item_state) \<Rightarrow> init_monitor \<Rightarrow> init_monitor" where
  "mo_onStateChanged states m =
     (if \<not> moConnected m then m
      else if mo_checkState states m then mo_emit (m\<lparr> moItems := [] \<rparr>) else m)"

definition mo_monitor :: "ve_item list \<Rightarrow> (nat \<Rightarrow> item_state) \<Rightarrow> init_monitor" where
  "mo_monitor items states = mo_start states (fold mo_addItem items mo_new)"

subsection \<open>Initialised once, when everything is there\<close>

fun leaves :: "ve_item \<Rightarrow> nat list" where
  "leaves (Leaf i) = [i]"
| "leaves (Branch items) = concat (map leaves items)"

lemma mo_addItem_leaves: "mo_addItem item m = m\<lparr> moItems := moItems m @ leaves item \<rparr>"
proof (induction item arbitrary: m)
  case (Branch items)
  have "fold mo_addItem its m = m\<lparr> moItems := moItems m @ concat (map leaves its) \<rparr>" if "set its \<subseteq> set items" for its m
    using that by (induction its arbitrary: m) (simp_all add: Branch)
  then show ?case by simp
qed simp

lemma mo_monitor_items: "fold mo_addItem items mo_new = mo_new\<lparr> moItems := concat (map leaves items) \<rparr>"
proof -
  have "fold mo_addItem items m = m\<lparr> moItems := moItems m @ concat (map leaves items) \<rparr>" for m
    by (induction items arbitrary: m) (simp_all add: mo_addItem_leaves)
  then show ?thesis by (simp add: mo_new_def)
qed

definition all_there :: "ve_item list \<Rightarrow> (nat \<Rightarrow> item_state) \<Rightarrow> bool" where
  "all_there items states \<longleftrightarrow>
     list_all (\<lambda>i. states i \<noteq> StateIdle \<and> states i \<noteq> StateRequested) (concat (map leaves items))"

lemma mo_run_done: "moItems m = [] \<Longrightarrow> run (\<lambda>m s. mo_onStateChanged s m) m ss = m"
  by (induction ss) (simp_all add: mo_onStateChanged_def mo_checkState_def)

lemma mo_new_simps [simp]:
  "moItems mo_new = []" "\<not> moConnected mo_new" "moInitialized mo_new = 0"
  by (simp_all add: mo_new_def)

lemma mo_checkState_items:
  "moItems m = concat (map leaves items) \<Longrightarrow> moItems m \<noteq> [] \<Longrightarrow> mo_checkState s m = all_there items s"
  by (simp add: mo_checkState_def all_there_def)

lemma mo_run_count:
  assumes "moItems m = concat (map leaves items)" "moItems m \<noteq> []" "moConnected m"
  shows "moInitialized (run (\<lambda>m s. mo_onStateChanged s m) m ss) =
    moInitialized m + (if list_ex (all_there items) ss then 1 else 0)"
proof (induction ss)
  case (Cons s ss)
  note check = mo_checkState_items [OF assms(1,2), of s]
  show ?case
  proof (cases "all_there items s")
    case True
    then have "mo_onStateChanged s m = mo_emit (m\<lparr> moItems := [] \<rparr>)"
      using assms(3) check by (simp add: mo_onStateChanged_def)
    then show ?thesis using True by (simp add: mo_run_done mo_emit_def)
  next
    case False
    then have "mo_onStateChanged s m = m" using assms(3) check by (simp add: mo_onStateChanged_def)
    then show ?thesis using False Cons by simp
  qed
qed simp

text \<open>
  C38. A monitor signals that the items are there exactly once, at the first moment when every leaf
  below them has a value, and never when that moment does not come or there is no leaf at all.
\<close>

theorem init_monitor_signals_once:
  "moInitialized (run (\<lambda>m s. mo_onStateChanged s m) (mo_monitor items s) ss) =
    (if concat (map leaves items) = [] then 0 else if list_ex (all_there items) (s # ss) then 1 else 0)"
proof (cases "concat (map leaves items) = []")
  case True
  define m where "m = mo_start s (mo_new\<lparr> moItems := concat (map leaves items) \<rparr>)"
  have m: "moItems m = []" "moInitialized m = 0"
    unfolding m_def True by (simp_all add: mo_start_def mo_checkState_def)
  have "run (\<lambda>m s. mo_onStateChanged s m) (mo_monitor items s) ss = m"
    unfolding mo_monitor_def mo_monitor_items m_def [symmetric] using m(1) by (rule mo_run_done)
  then show ?thesis unfolding if_P [OF True] using m(2) by simp
next
  case False
  let ?m = "mo_new\<lparr> moItems := concat (map leaves items) \<rparr>"
  have check: "mo_checkState s ?m = all_there items s" using False by (intro mo_checkState_items) simp_all
  show ?thesis
  proof (cases "all_there items s")
    case True
    have "run (\<lambda>m s. mo_onStateChanged s m) m ss = m" if "\<not> moConnected m" for m
      using that by (induction ss) (simp_all add: mo_onStateChanged_def)
    then show ?thesis using True False check
      by (simp add: mo_monitor_def mo_monitor_items mo_start_def mo_emit_def)
  next
    case there: False
    then have m: "mo_monitor items s = ?m\<lparr> moConnected := True,
        moRequested := filter (\<lambda>i. s i = StateIdle) (concat (map leaves items)) \<rparr>"
      using check by (simp add: mo_monitor_def mo_monitor_items mo_start_def)
    have "moItems (mo_monitor items s) = concat (map leaves items)" "moConnected (mo_monitor items s)"
        "moInitialized (mo_monitor items s) = 0"
      unfolding m by simp_all
    then show ?thesis using there False mo_run_count [of "mo_monitor items s" items ss] by simp
  qed
qed

end
