(* ===== verification/Ring_Buffer.thy ===== *)
theory Ring_Buffer
  imports Prelude
begin

text \<open>
  The byte buffer of the HTTP client (\<^verbatim>\<open>qhttp/qringbuffer_p.h\<close>): a list of blocks, read from \<open>rbHead\<close>
  in the first one and written up to \<open>rbTail\<close> in the last one.  Lengths and positions are natural
  numbers; the code keeps them in \<^verbatim>\<open>int\<close>, so a buffer holds less than 2 GB.  What \<^verbatim>\<open>QByteArray::resize\<close>
  leaves in the new bytes is not defined, it is the parameter \<open>fill\<close>.  A write outside of a block and
  a loop that does not end have no result.

  The abstract specification is a list of bytes with the same operations; the locale \<open>data_refinement\<close>
  lifts the simulation of single operations to sequences of them.
\<close>

record ring_buffer =
  rbBuffers :: "bytes list"
  rbHead :: nat
  rbTail :: nat
  rbTailBuffer :: nat
  rbBlockSize :: nat
  rbSize :: nat

definition qba_resize :: "(nat \<Rightarrow> u8) \<Rightarrow> nat \<Rightarrow> bytes \<Rightarrow> bytes" where
  "qba_resize fill n b = take n b @ map fill [length b..<n]"

definition rb_clear :: "ring_buffer \<Rightarrow> ring_buffer" where
  "rb_clear rb = rb\<lparr> rbBuffers := [[]], rbHead := 0, rbTail := 0, rbTailBuffer := 0, rbSize := 0 \<rparr>"

definition rb_new :: "nat \<Rightarrow> ring_buffer" where
  "rb_new growth = rb_clear \<lparr> rbBuffers = [[]], rbHead = 0, rbTail = 0, rbTailBuffer = 0,
     rbBlockSize = growth, rbSize = 0 \<rparr>"

definition rb_nextDataBlockSize :: "ring_buffer \<Rightarrow> nat" where
  "rb_nextDataBlockSize rb = (if rbTailBuffer rb = 0 then rbTail rb else length (hd (rbBuffers rb))) - rbHead rb"

definition rb_isEmpty :: "ring_buffer \<Rightarrow> bool" where
  "rb_isEmpty rb \<longleftrightarrow> rbTailBuffer rb = 0 \<and> rbTail rb = 0"

text \<open>The first bytes from \<^verbatim>\<open>readPointer()\<close> on.\<close>

definition rb_at_readPointer :: "nat \<Rightarrow> ring_buffer \<Rightarrow> bytes" where
  "rb_at_readPointer n rb = take n (drop (rbHead rb) (hd (rbBuffers rb)))"

subsection \<open>Removing bytes at the front and at the back\<close>

function rb_free_loop :: "(nat \<Rightarrow> u8) \<Rightarrow> nat \<Rightarrow> ring_buffer \<Rightarrow> ring_buffer" where
  "rb_free_loop fill n rb =
     (let nextBlockSize = rb_nextDataBlockSize rb
      in if n < nextBlockSize then
           (let h = rbHead rb + n
            in if h = rbTail rb \<and> rbTailBuffer rb = 0 then rb\<lparr> rbHead := 0, rbTail := 0 \<rparr> else rb\<lparr> rbHead := h \<rparr>)
         else if tl (rbBuffers rb) = [] then
           rb\<lparr> rbBuffers := [qba_resize fill (rbBlockSize rb) (hd (rbBuffers rb))], rbHead := 0, rbTail := 0,
               rbTailBuffer := 0 \<rparr>
         else rb_free_loop fill (n - nextBlockSize)
                (rb\<lparr> rbBuffers := tl (rbBuffers rb), rbTailBuffer := rbTailBuffer rb - 1, rbHead := 0 \<rparr>))"
  by pat_completeness auto
termination
  by (relation "measure (\<lambda>(_, _, rb). length (rbBuffers rb))") (auto simp: neq_Nil_conv tl_def split: list.splits)

declare rb_free_loop.simps [simp del]

definition rb_free :: "(nat \<Rightarrow> u8) \<Rightarrow> nat \<Rightarrow> ring_buffer \<Rightarrow> ring_buffer" where
  "rb_free fill n rb =
     (let rb = rb_free_loop fill n (rb\<lparr> rbSize := rbSize rb - n \<rparr>)
      in if rb_isEmpty rb then rb_clear rb else rb)"

function rb_chop_loop :: "nat \<Rightarrow> ring_buffer \<Rightarrow> ring_buffer" where
  "rb_chop_loop n rb =
     (if rbTailBuffer rb = 0 then
        (let t = rbTail rb - n
         in if t \<le> rbHead rb then rb\<lparr> rbTail := 0, rbHead := 0 \<rparr> else rb\<lparr> rbTail := t \<rparr>)
      else if n \<le> rbTail rb then rb\<lparr> rbTail := rbTail rb - n \<rparr>
      else (let i = rbTailBuffer rb;
                bs = take i (rbBuffers rb) @ drop (i + 1) (rbBuffers rb)
            in rb_chop_loop (n - rbTail rb)
                 (rb\<lparr> rbBuffers := bs, rbTailBuffer := i - 1, rbTail := length (bs ! (i - 1)) \<rparr>)))"
  by pat_completeness auto
termination by (relation "measure (\<lambda>(_, rb). rbTailBuffer rb)") auto

declare rb_chop_loop.simps [simp del]

definition rb_chop :: "nat \<Rightarrow> ring_buffer \<Rightarrow> ring_buffer" where
  "rb_chop n rb = rb_chop_loop n (rb\<lparr> rbSize := rbSize rb - n \<rparr>)"

definition rb_truncate :: "nat \<Rightarrow> ring_buffer \<Rightarrow> ring_buffer" where
  "rb_truncate pos rb = (if pos < rbSize rb then rb_chop (rbSize rb - pos) rb else rb)"

subsection \<open>Adding bytes\<close>

text \<open>\<^verbatim>\<open>reserve\<close>: where the bytes may be written (block and offset), and the buffer.\<close>

definition rb_reserve :: "(nat \<Rightarrow> u8) \<Rightarrow> nat \<Rightarrow> ring_buffer \<Rightarrow> (nat \<times> nat) \<times> ring_buffer" where
  "rb_reserve fill n rb0 =
     (let bs = rbBuffers rb0; i = rbTailBuffer rb0; t = rbTail rb0; block = rbBlockSize rb0;
          rb = rb0\<lparr> rbSize := rbSize rb0 + n \<rparr>
      in if rbSize rb0 = 0 then
           ((i, 0), rb\<lparr> rbBuffers := bs[0 := qba_resize fill (max block n) (bs ! 0)], rbTail := n \<rparr>)
         else if t + n \<le> length (bs ! i) then ((i, t), rb\<lparr> rbTail := t + n \<rparr>)
         else if t < length (bs ! i) div 2 then
           ((i, t), rb\<lparr> rbBuffers := bs[i := qba_resize fill (t + n) (bs ! i)], rbTail := t + n \<rparr>)
         else
           ((i + 1, 0), rb\<lparr> rbBuffers := bs[i := qba_resize fill t (bs ! i)] @ [qba_resize fill (max block n) []],
              rbTailBuffer := i + 1, rbTail := n \<rparr>))"

text \<open>\<^verbatim>\<open>memcpy\<close> to a reserved place.\<close>

definition rb_poke :: "nat \<times> nat \<Rightarrow> bytes \<Rightarrow> ring_buffer \<Rightarrow> ring_buffer option" where
  "rb_poke p xs rb =
     (let (i, off) = p; bs = rbBuffers rb
      in if i < length bs \<and> off + length xs \<le> length (bs ! i)
         then Some (rb\<lparr> rbBuffers := bs[i := take off (bs ! i) @ xs @ drop (off + length xs) (bs ! i)] \<rparr>)
         else None)"

text \<open>What \<^verbatim>\<open>QHttpPrivate::_q_slotReadyRead\<close> does with received bytes.\<close>

definition rb_put :: "(nat \<Rightarrow> u8) \<Rightarrow> bytes \<Rightarrow> ring_buffer \<Rightarrow> ring_buffer option" where
  "rb_put fill xs rb = (let (p, rb') = rb_reserve fill (length xs) rb in rb_poke p xs rb')"

definition rb_putChar :: "(nat \<Rightarrow> u8) \<Rightarrow> u8 \<Rightarrow> ring_buffer \<Rightarrow> ring_buffer option" where
  "rb_putChar fill c rb = (let (p, rb') = rb_reserve fill 1 rb in rb_poke p [c] rb')"

definition rb_ungetChar :: "(nat \<Rightarrow> u8) \<Rightarrow> u8 \<Rightarrow> ring_buffer \<Rightarrow> ring_buffer option" where
  "rb_ungetChar fill c rb =
     (let rb = (if rbHead rb = 0
                then rb\<lparr> rbBuffers := qba_resize fill (rbBlockSize rb) [] # rbBuffers rb,
                         rbHead := rbBlockSize rb - 1, rbTailBuffer := rbTailBuffer rb + 1 \<rparr>
                else rb\<lparr> rbHead := rbHead rb - 1 \<rparr>)
      in map_option (\<lambda>rb. rb\<lparr> rbSize := rbSize rb + 1 \<rparr>) (rb_poke (0, rbHead rb) [c] rb))"

text \<open>\<^verbatim>\<open>append\<close>: the array becomes the last block.\<close>

definition rb_append :: "(nat \<Rightarrow> u8) \<Rightarrow> bytes \<Rightarrow> ring_buffer \<Rightarrow> ring_buffer" where
  "rb_append fill xs rb =
     rb\<lparr> rbBuffers := (rbBuffers rb)[rbTailBuffer rb := qba_resize fill (rbTail rb) (rbBuffers rb ! rbTailBuffer rb)] @ [xs],
         rbTailBuffer := rbTailBuffer rb + 1, rbTail := length xs, rbSize := rbSize rb + length xs \<rparr>"

subsection \<open>Looking and reading\<close>

text \<open>The part of block \<open>i\<close> between \<^verbatim>\<open>start\<close> and \<^verbatim>\<open>end\<close>.\<close>

definition rb_part :: "ring_buffer \<Rightarrow> nat \<Rightarrow> bytes" where
  "rb_part rb i = drop (if i = 0 then rbHead rb else 0)
     (take (if i = rbTailBuffer rb then rbTail rb else length (rbBuffers rb ! i)) (rbBuffers rb ! i))"

fun scan_part :: "u8 \<Rightarrow> nat \<Rightarrow> bytes \<Rightarrow> nat + nat" where
  "scan_part c index [] = Inr index"
| "scan_part c index (x # xs) = (if x = c then Inl index else scan_part c (index + 1) xs)"

fun scan_parts :: "u8 \<Rightarrow> nat \<Rightarrow> bytes list \<Rightarrow> nat option" where
  "scan_parts c index [] = None"
| "scan_parts c index (p # ps) = (case scan_part c index p of Inl i \<Rightarrow> Some i | Inr index' \<Rightarrow> scan_parts c index' ps)"

text \<open>\<^verbatim>\<open>indexOf\<close>, with \<open>None\<close> for -1, and with a maximal length.\<close>

definition rb_indexOf :: "u8 \<Rightarrow> ring_buffer \<Rightarrow> nat option" where
  "rb_indexOf c rb = scan_parts c 0 (map (rb_part rb) [0..<length (rbBuffers rb)])"

fun scan_parts_max :: "u8 \<Rightarrow> nat \<Rightarrow> nat \<Rightarrow> bytes list \<Rightarrow> nat option" where
  "scan_parts_max c index remain [] = None"
| "scan_parts_max c index remain (p # ps) =
     (if remain = 0 then None
      else let (p', remain') = (if remain < length p then (take remain p, 0) else (p, remain - length p))
           in case scan_part c index p' of Inl i \<Rightarrow> Some i | Inr index' \<Rightarrow> scan_parts_max c index' remain' ps)"

definition rb_indexOf_max :: "u8 \<Rightarrow> nat \<Rightarrow> ring_buffer \<Rightarrow> nat option" where
  "rb_indexOf_max c maxLength rb =
     scan_parts_max c 0 (min (rbSize rb) maxLength) (map (rb_part rb) [0..<length (rbBuffers rb)])"

definition rb_canReadLine :: "ring_buffer \<Rightarrow> bool" where
  "rb_canReadLine rb \<longleftrightarrow> rb_indexOf 10 rb \<noteq> None"

fun peek_parts :: "nat \<Rightarrow> bytes list \<Rightarrow> bytes" where
  "peek_parts n [] = []"
| "peek_parts n (p # ps) = (if n = 0 then [] else take n p @ peek_parts (n - min n (length p)) ps)"

definition rb_peek :: "nat \<Rightarrow> ring_buffer \<Rightarrow> bytes" where
  "rb_peek maxLength rb =
     (if maxLength = 0 then [] else peek_parts (min (rbSize rb) maxLength) (map (rb_part rb) [0..<length (rbBuffers rb)]))"

definition rb_getChar :: "(nat \<Rightarrow> u8) \<Rightarrow> ring_buffer \<Rightarrow> u8 option \<times> ring_buffer" where
  "rb_getChar fill rb = (if rb_isEmpty rb then (None, rb) else (Some (hd (rb_at_readPointer 1 rb)), rb_free fill 1 rb))"

text \<open>The loop of \<^verbatim>\<open>read\<close>, for the bytes that are still to be read, and the bytes read so far.\<close>

partial_function (option) rb_read_loop ::
    "(nat \<Rightarrow> u8) \<Rightarrow> nat \<Rightarrow> bytes \<Rightarrow> ring_buffer \<Rightarrow> (bytes \<times> ring_buffer) option" where
  "rb_read_loop fill todo acc rb =
     (if todo = 0 then Some (acc, rb)
      else let k = min todo (rb_nextDataBlockSize rb)
           in rb_read_loop fill (todo - k) (acc @ rb_at_readPointer k rb) (rb_free fill k rb))"

definition rb_read :: "(nat \<Rightarrow> u8) \<Rightarrow> nat \<Rightarrow> ring_buffer \<Rightarrow> (bytes \<times> ring_buffer) option" where
  "rb_read fill maxLength rb = rb_read_loop fill (min (rbSize rb) maxLength) [] rb"

definition rb_readAll :: "(nat \<Rightarrow> u8) \<Rightarrow> ring_buffer \<Rightarrow> (bytes \<times> ring_buffer) option" where
  "rb_readAll fill rb = rb_read fill (rbSize rb) rb"

definition rb_skip :: "(nat \<Rightarrow> u8) \<Rightarrow> nat \<Rightarrow> ring_buffer \<Rightarrow> (nat \<times> ring_buffer) option" where
  "rb_skip fill n rb = map_option (\<lambda>(xs, rb). (length xs, rb)) (rb_read fill n rb)"

text \<open>
  \<^verbatim>\<open>readLine\<close>: -1 is \<open>None\<close> in the first component; the loop is the one of \<^verbatim>\<open>read\<close> with another bound
  (both bounds of a round count from the same position).
\<close>

definition rb_readLine :: "(nat \<Rightarrow> u8) \<Rightarrow> nat \<Rightarrow> ring_buffer \<Rightarrow> (bytes option \<times> ring_buffer) option" where
  "rb_readLine fill maxLength rb =
     (case rb_indexOf 10 rb of
        None \<Rightarrow> map_option (\<lambda>(xs, rb). (Some xs, rb)) (rb_read fill maxLength rb)
      | Some index \<Rightarrow>
          if maxLength = 0 then Some (None, rb)
          else map_option (\<lambda>(xs, rb). (Some xs, rb))
                 (rb_read_loop fill (min (index + 1) (maxLength - 1)) [] rb))"

text \<open>\<^verbatim>\<open>read()\<close>: the first block as it is.\<close>

definition rb_readBlock :: "ring_buffer \<Rightarrow> bytes \<times> ring_buffer" where
  "rb_readBlock rb =
     (let bs = rbBuffers rb
      in if rbSize rb = 0 then ([], rb)
         else if rbHead rb = 0 \<and> rbTailBuffer rb \<noteq> 0 then
           (hd bs, rb\<lparr> rbBuffers := tl bs, rbTailBuffer := rbTailBuffer rb - 1, rbSize := rbSize rb - length (hd bs) \<rparr>)
         else if rbHead rb = 0 then
           (take (rbTail rb) (hd bs), rb\<lparr> rbBuffers := tl bs @ [[]], rbSize := 0, rbTail := 0 \<rparr>)
         else
           (let qba = rb_at_readPointer (rb_nextDataBlockSize rb) rb
            in (qba, if rbTailBuffer rb = 0
                     then rb\<lparr> rbBuffers := tl bs @ [[]], rbHead := 0, rbTail := 0, rbSize := rbSize rb - length qba \<rparr>
                     else rb\<lparr> rbBuffers := tl bs, rbHead := 0, rbTailBuffer := rbTailBuffer rb - 1,
                              rbSize := rbSize rb - length qba \<rparr>)))"

text \<open>\<^verbatim>\<open>readPointerAtPosition\<close>: block, offset and readable length, or \<open>None\<close> for the null pointer.\<close>

fun rb_position_loop :: "bytes list \<Rightarrow> nat \<Rightarrow> nat \<Rightarrow> nat \<Rightarrow> nat \<Rightarrow> nat \<times> nat \<times> int" where
  "rb_position_loop [] i tb t pos = (tb, pos, int t - int pos)"
| "rb_position_loop (b # bs) i tb t pos =
     (if tb \<le> i then (tb, pos, int t - int pos)
      else if length b \<le> pos then rb_position_loop bs (i + 1) tb t (pos - length b)
      else (i, pos, int (length b) - int pos))"

definition rb_readPointerAtPosition :: "nat \<Rightarrow> ring_buffer \<Rightarrow> (nat \<times> nat \<times> int) option" where
  "rb_readPointerAtPosition pos rb =
     (let nextBlock = rb_nextDataBlockSize rb
      in if rbBuffers rb = [] \<or> rbSize rb \<le> pos then None
         else if int pos - int (rbHead rb) < int nextBlock then Some (0, rbHead rb + pos, int nextBlock - int pos)
         else if length (rbBuffers rb) = 1 then None
         else Some (rb_position_loop (tl (rbBuffers rb)) 1 (rbTailBuffer rb) (rbTail rb) (pos - nextBlock)))"

subsection \<open>The bytes of a buffer\<close>

definition rb_bytes :: "ring_buffer \<Rightarrow> bytes" where
  "rb_bytes rb = concat (map (rb_part rb) [0..<length (rbBuffers rb)])"

text \<open>Blocks and positions of a buffer fit together (the shape), and the first block is not used up.\<close>

definition rb_shape :: "ring_buffer \<Rightarrow> bool" where
  "rb_shape rb \<longleftrightarrow> length (rbBuffers rb) = rbTailBuffer rb + 1 \<and>
     rbTail rb \<le> length (rbBuffers rb ! rbTailBuffer rb) \<and>
     (if rbTailBuffer rb = 0 then rbHead rb \<le> rbTail rb else rbHead rb \<le> length (rbBuffers rb ! 0))"

definition rb_first :: "ring_buffer \<Rightarrow> bool" where
  "rb_first rb \<longleftrightarrow>
     (if rbTailBuffer rb = 0 then rbHead rb = rbTail rb \<longrightarrow> rbTail rb = 0
      else rbHead rb < length (rbBuffers rb ! 0))"

definition rb_ok :: "ring_buffer \<Rightarrow> bool" where
  "rb_ok rb \<longleftrightarrow> rb_shape rb \<and> rb_first rb \<and> 0 < rbBlockSize rb \<and> rbSize rb = length (rb_bytes rb)"

text \<open>A loop that leaves some of the bytes, and the other fields as they are.\<close>

definition rb_leaves :: "bytes \<Rightarrow> ring_buffer \<Rightarrow> ring_buffer \<Rightarrow> bool" where
  "rb_leaves xs rb r \<longleftrightarrow> rb_shape r \<and> rb_first r \<and> rb_bytes r = xs \<and> rbBlockSize r = rbBlockSize rb \<and> rbSize r = rbSize rb"

lemma rb_parts_one: "rbBuffers rb = [b] \<Longrightarrow> rbTailBuffer rb = 0 \<Longrightarrow>
    map (rb_part rb) [0..<length (rbBuffers rb)] = [drop (rbHead rb) (take (rbTail rb) b)]"
  by (simp add: rb_part_def)

lemma rb_parts_more:
  assumes "rbBuffers rb = b # bs @ [l]" "rbTailBuffer rb = length bs + 1"
  shows "map (rb_part rb) [0..<length (rbBuffers rb)] = drop (rbHead rb) b # bs @ [take (rbTail rb) l]"
  using assms by (intro nth_equalityI) (auto simp: rb_part_def nth_Cons' nth_append)

lemma rb_bytes_one: "rbBuffers rb = [b] \<Longrightarrow> rbTailBuffer rb = 0 \<Longrightarrow>
    rb_bytes rb = drop (rbHead rb) (take (rbTail rb) b)"
  unfolding rb_bytes_def rb_parts_one by simp

lemma rb_bytes_more: "rbBuffers rb = b # bs @ [l] \<Longrightarrow> rbTailBuffer rb = length bs + 1 \<Longrightarrow>
    rb_bytes rb = drop (rbHead rb) b @ concat bs @ take (rbTail rb) l"
  using rb_parts_more by (simp add: rb_bytes_def del: upt_Suc)

lemma rb_bytes_frame:
  assumes "rbBuffers rb' = rbBuffers rb" "rbHead rb' = rbHead rb" "rbTail rb' = rbTail rb"
    "rbTailBuffer rb' = rbTailBuffer rb"
  shows "rb_bytes rb' = rb_bytes rb"
  unfolding rb_bytes_def rb_part_def assms ..

lemma rb_bytes_size [simp]: "rb_bytes (rb\<lparr> rbSize := n \<rparr>) = rb_bytes rb"
  by (rule rb_bytes_frame) simp_all

lemma rb_shape_size [simp]: "rb_shape (rb\<lparr> rbSize := n \<rparr>) = rb_shape rb"
  by (simp add: rb_shape_def)

lemma rb_first_size [simp]: "rb_first (rb\<lparr> rbSize := n \<rparr>) = rb_first rb"
  by (simp add: rb_first_def)

text \<open>A well-formed buffer has one block, or a first, a last and some between.\<close>

lemma rb_shape_cases [consumes 1, case_names one more]:
  assumes "rb_shape rb"
  obtains b where "rbBuffers rb = [b]" "rbTailBuffer rb = 0" "rbHead rb \<le> rbTail rb" "rbTail rb \<le> length b"
    "rb_bytes rb = drop (rbHead rb) (take (rbTail rb) b)"
  | b bs l where "rbBuffers rb = b # bs @ [l]" "rbTailBuffer rb = length bs + 1" "rbHead rb \<le> length b"
    "rbTail rb \<le> length l" "rb_bytes rb = drop (rbHead rb) b @ concat bs @ take (rbTail rb) l"
proof -
  obtain b bs where b: "rbBuffers rb = b # bs" using assms by (cases "rbBuffers rb") (auto simp: rb_shape_def)
  show thesis
  proof (cases bs rule: rev_cases)
    case Nil
    with assms b have "rbBuffers rb = [b]" "rbTailBuffer rb = 0" by (simp_all add: rb_shape_def)
    then show ?thesis using assms that(1) [of b] by (simp add: rb_shape_def rb_bytes_one)
  next
    case (snoc ms l)
    with assms b have l: "rbBuffers rb = b # ms @ [l]" "rbTailBuffer rb = length ms + 1"
      by (simp_all add: rb_shape_def)
    then show ?thesis using assms that(2) [of b ms l] rb_bytes_more [OF l] by (simp add: rb_shape_def)
  qed
qed

lemma length_qba_resize [simp]: "length (qba_resize fill n b) = n"
  by (simp add: qba_resize_def min_def)

lemma take_qba_resize: "k \<le> n \<Longrightarrow> k \<le> length b \<Longrightarrow> take k (qba_resize fill n b) = take k b"
  by (simp add: qba_resize_def min_def)

lemma qba_resize_less: "n \<le> length b \<Longrightarrow> qba_resize fill n b = take n b"
  by (simp add: qba_resize_def)

subsection \<open>Removing at the front\<close>

lemma rb_free_loop_spec: "rb_shape rb \<Longrightarrow> rb_leaves (drop n (rb_bytes rb)) rb (rb_free_loop fill n rb)"
proof (induction fill n rb rule: rb_free_loop.induct)
  case (1 fill n rb)
  note loop = rb_free_loop.simps [of fill n rb]
  from \<open>rb_shape rb\<close> show ?case
  proof (cases rule: rb_shape_cases)
    case (one b)
    then show ?thesis
      by (auto simp: loop rb_nextDataBlockSize_def Let_def rb_leaves_def rb_first_def rb_shape_def rb_bytes_one
          drop_take add.commute)
  next
    case (more b bs l)
    let ?rb = "rb\<lparr> rbBuffers := tl (rbBuffers rb), rbTailBuffer := rbTailBuffer rb - 1, rbHead := 0 \<rparr>"
    have next_size: "rb_nextDataBlockSize rb = length b - rbHead rb"
      using more by (simp add: rb_nextDataBlockSize_def)
    show ?thesis
    proof (cases "n < rb_nextDataBlockSize rb")
      case True
      then have "rb_free_loop fill n rb = rb\<lparr> rbHead := rbHead rb + n \<rparr>"
        using more by (simp add: loop Let_def)
      then show ?thesis using True more
        by (simp add: rb_leaves_def rb_first_def rb_shape_def rb_bytes_more [of _ b bs l] next_size nth_append add.commute)
          linarith
    next
      case False
      have shape: "rb_shape ?rb" using more by (cases bs) (simp_all add: rb_shape_def nth_append)
      have bytes: "rb_bytes ?rb = concat bs @ take (rbTail rb) l"
      proof (cases bs)
        case Nil
        then show ?thesis using more by (simp add: rb_bytes_one)
      next
        case (Cons m ms)
        then show ?thesis using more rb_bytes_more [of ?rb m ms l] by simp
      qed
      have step: "rb_free_loop fill n rb = rb_free_loop fill (n - rb_nextDataBlockSize rb) ?rb"
        using False more by (simp add: loop Let_def)
      have "drop n (rb_bytes rb) = drop (n - rb_nextDataBlockSize rb) (rb_bytes ?rb)"
        unfolding bytes using False more by (simp add: next_size)
      then show ?thesis using "1.IH" [OF refl False] shape more by (simp add: step rb_leaves_def)
    qed
  qed
qed

lemma rb_empty_bytes: "rb_ok rb \<Longrightarrow> rb_isEmpty rb \<longleftrightarrow> rb_bytes rb = []"
  unfolding rb_ok_def by (elim conjE, erule rb_shape_cases) (auto simp: rb_isEmpty_def rb_first_def)

lemma rb_clear_spec [simp]:
  "rb_bytes (rb_clear rb) = []" "0 < rbBlockSize rb \<Longrightarrow> rb_ok (rb_clear rb)" "rbBlockSize (rb_clear rb) = rbBlockSize rb"
  by (simp_all add: rb_clear_def rb_ok_def rb_first_def rb_shape_def rb_bytes_one)

lemma rb_free_spec:
  assumes "rb_ok rb"
  shows "rb_ok (rb_free fill n rb)" "rb_bytes (rb_free fill n rb) = drop n (rb_bytes rb)"
proof -
  let ?r = "rb_free_loop fill n (rb\<lparr> rbSize := rbSize rb - n \<rparr>)"
  have spec: "rb_ok ?r" "rb_bytes ?r = drop n (rb_bytes rb)"
    using rb_free_loop_spec [of "rb\<lparr> rbSize := rbSize rb - n \<rparr>" n fill] assms
    unfolding rb_ok_def rb_leaves_def by auto
  have "0 < rbBlockSize ?r" using spec(1) by (simp add: rb_ok_def)
  then show "rb_ok (rb_free fill n rb)" "rb_bytes (rb_free fill n rb) = drop n (rb_bytes rb)"
    using spec rb_empty_bytes [OF spec(1)] by (simp_all add: rb_free_def Let_def)
qed

subsection \<open>Removing at the back\<close>

lemma rb_chop_loop_spec:
  "rb_shape rb \<Longrightarrow> rb_first rb \<Longrightarrow>
   rb_leaves (take (length (rb_bytes rb) - n) (rb_bytes rb)) rb (rb_chop_loop n rb)"
proof (induction n rb rule: rb_chop_loop.induct)
  case (1 n rb)
  note loop = rb_chop_loop.simps [of n rb]
  from \<open>rb_shape rb\<close> show ?case
  proof (cases rule: rb_shape_cases)
    case (one b)
    have m: "min (rbTail rb - rbHead rb - n) (rbTail rb - rbHead rb) = rbTail rb - n - rbHead rb" by simp
    have "length (rb_bytes rb) = rbTail rb - rbHead rb" using one by simp
    then have "take (length (rb_bytes rb) - n) (rb_bytes rb) = drop (rbHead rb) (take (rbTail rb - n) b)"
      unfolding one(5) drop_take by (simp only: take_take m)
    then show ?thesis using one
      by (auto simp: loop Let_def rb_leaves_def rb_first_def rb_shape_def rb_bytes_one)
  next
    case (more b bs l)
    then have first: "rbHead rb < length b" using \<open>rb_first rb\<close> by (simp add: rb_first_def)
    show ?thesis
    proof (cases "n \<le> rbTail rb")
      case True
      have "rb_bytes (rb\<lparr> rbTail := rbTail rb - n \<rparr>) = drop (rbHead rb) b @ concat bs @ take (rbTail rb - n) l"
        using more rb_bytes_more [of "rb\<lparr> rbTail := rbTail rb - n \<rparr>" b bs l] by simp
      then show ?thesis using True more first
        by (auto simp: loop rb_leaves_def rb_first_def rb_shape_def nth_append min_def)
    next
      case False
      define cs where "cs = take (rbTailBuffer rb) (rbBuffers rb) @ drop (rbTailBuffer rb + 1) (rbBuffers rb)"
      have cs: "cs = b # bs" using more by (simp add: cs_def)
      let ?rb = "rb\<lparr> rbBuffers := cs, rbTailBuffer := rbTailBuffer rb - 1, rbTail := length (cs ! (rbTailBuffer rb - 1)) \<rparr>"
      have step: "rb_chop_loop n rb = rb_chop_loop (n - rbTail rb) ?rb"
        using False more by (simp add: loop Let_def cs_def)
      have shape: "rb_shape ?rb" "rb_first ?rb" using more first cs
        by (cases bs; simp add: rb_shape_def rb_first_def)+
      have bytes: "rb_bytes ?rb = drop (rbHead rb) b @ concat bs"
      proof (cases bs rule: rev_cases)
        case Nil
        then show ?thesis using more cs by (simp add: rb_bytes_one)
      next
        case (snoc ms m)
        then show ?thesis using more cs rb_bytes_more [of ?rb b ms m] by simp
      qed
      have "take (length (rb_bytes rb) - n) (rb_bytes rb) =
          take (length (rb_bytes ?rb) - (n - rbTail rb)) (rb_bytes ?rb)"
        unfolding bytes using False more by (simp add: algebra_simps)
      then show ?thesis using "1.IH" [OF _ False refl cs_def] shape more by (simp add: step rb_leaves_def)
    qed
  qed
qed

lemma rb_chop_spec:
  assumes "rb_ok rb"
  shows "rb_ok (rb_chop n rb)" "rb_bytes (rb_chop n rb) = take (length (rb_bytes rb) - n) (rb_bytes rb)"
  using rb_chop_loop_spec [of "rb\<lparr> rbSize := rbSize rb - n \<rparr>" n] assms
  unfolding rb_ok_def rb_chop_def rb_leaves_def by auto

lemma rb_truncate_spec:
  assumes "rb_ok rb"
  shows "rb_ok (rb_truncate n rb)" "rb_bytes (rb_truncate n rb) = take n (rb_bytes rb)"
proof -
  have "rbSize rb = length (rb_bytes rb)" using assms by (simp add: rb_ok_def)
  then show "rb_ok (rb_truncate n rb)" "rb_bytes (rb_truncate n rb) = take n (rb_bytes rb)"
    using rb_chop_spec [OF assms, of "rbSize rb - n"] assms by (simp_all add: rb_truncate_def)
qed

subsection \<open>Adding\<close>

text \<open>Well-formed buffers of one block and of more, taken apart and put together.\<close>

lemma rb_ok_cases [consumes 1, case_names one more]:
  assumes "rb_ok rb"
  obtains b where "rbBuffers rb = [b]" "rbTailBuffer rb = 0" "rbHead rb < rbTail rb \<or> rbHead rb = 0 \<and> rbTail rb = 0"
    "rbTail rb \<le> length b" "rb_bytes rb = drop (rbHead rb) (take (rbTail rb) b)" "rbSize rb = rbTail rb - rbHead rb"
  | b bs l where "rbBuffers rb = b # bs @ [l]" "rbTailBuffer rb = length bs + 1" "rbHead rb < length b"
    "rbTail rb \<le> length l" "rb_bytes rb = drop (rbHead rb) b @ concat bs @ take (rbTail rb) l"
    "rbSize rb = length b - rbHead rb + length (concat bs) + rbTail rb"
proof -
  have "rb_shape rb" using assms by (simp add: rb_ok_def)
  then show thesis
  proof (cases rule: rb_shape_cases)
    case (one b)
    then show ?thesis using assms that(1) [of b] by (auto simp: rb_ok_def rb_first_def)
  next
    case (more b bs l)
    then show ?thesis using assms that(2) [of b bs l] by (auto simp: rb_ok_def rb_first_def)
  qed
qed

lemma rb_ok_one:
  assumes "rbBuffers r = [c]" "rbTailBuffer r = 0" "rbHead r < rbTail r \<or> rbHead r = 0 \<and> rbTail r = 0"
    "rbTail r \<le> length c" "drop (rbHead r) (take (rbTail r) c) = xs" "rbSize r = length xs" "0 < rbBlockSize r"
  shows "rb_ok r \<and> rb_bytes r = xs"
  using assms by (auto simp: rb_ok_def rb_shape_def rb_first_def rb_bytes_one)

lemma rb_ok_more:
  assumes "rbBuffers r = b # bs @ [l]" "rbTailBuffer r = length bs + 1" "rbHead r < length b"
    "rbTail r \<le> length l" "drop (rbHead r) b @ concat bs @ take (rbTail r) l = xs" "rbSize r = length xs"
    "0 < rbBlockSize r"
  shows "rb_ok r \<and> rb_bytes r = xs"
  using assms rb_bytes_more [OF assms(1,2)] by (auto simp: rb_ok_def rb_shape_def rb_first_def nth_append)

lemma rb_put_spec:
  assumes "rb_ok rb"
  shows "\<exists>rb'. rb_put fill xs rb = Some rb' \<and> rb_ok rb' \<and> rb_bytes rb' = rb_bytes rb @ xs"
proof -
  have block: "0 < rbBlockSize rb" using assms by (simp add: rb_ok_def)
  let ?t = "rbTail rb" and ?n = "length xs" and ?m = "max (rbBlockSize rb) (length xs)"
  note defs = rb_put_def rb_reserve_def rb_poke_def Let_def
  let ?j = "\<lambda>k b. drop ?n (qba_resize fill k b)"
  from assms show ?thesis
  proof (cases rule: rb_ok_cases)
    case (one b)
    consider "rbSize rb = 0" | "rbSize rb > 0" "?t + ?n \<le> length b"
      | "rbSize rb > 0" "\<not> ?t + ?n \<le> length b" "?t < length b div 2"
      | "rbSize rb > 0" "\<not> ?t + ?n \<le> length b" "\<not> ?t < length b div 2" by linarith
    then show ?thesis
    proof cases
      case 1
      then show ?thesis using one block
        by (simp add: defs) (rule rb_ok_one [where c = "xs @ ?j ?m b"], auto)
    next
      case 2
      then show ?thesis using one block
        by (simp add: defs) (rule rb_ok_one [where c = "take ?t b @ xs @ drop (?t + ?n) b"], auto)
    next
      case 3
      then show ?thesis using one block
        by (simp add: defs take_qba_resize)
          (rule rb_ok_one [where c = "take ?t b @ xs @ drop (?t + ?n) (qba_resize fill (?t + ?n) b)"], auto)
    next
      case 4
      then show ?thesis using one block
        by (simp add: defs take_qba_resize qba_resize_less nth_append)
          (rule rb_ok_more [where bs = "[]" and b = "take ?t b" and l = "xs @ ?j ?m []"], auto)
    qed
  next
    case (more b bs l)
    consider "?t + ?n \<le> length l"
      | "\<not> ?t + ?n \<le> length l" "?t < length l div 2"
      | "\<not> ?t + ?n \<le> length l" "\<not> ?t < length l div 2" by linarith
    then show ?thesis
    proof cases
      case 1
      then show ?thesis using more block
        by (simp add: defs nth_append list_update_append)
          (rule rb_ok_more [where b = b and bs = bs and l = "take ?t l @ xs @ drop (?t + ?n) l"], auto)
    next
      case 2
      then show ?thesis using more block
        by (simp add: defs take_qba_resize nth_append list_update_append)
          (rule rb_ok_more [where b = b and bs = bs and l = "take ?t l @ xs @ drop (?t + ?n) (qba_resize fill (?t + ?n) l)"],
            auto)
    next
      case 3
      then show ?thesis using more block
        by (simp add: defs take_qba_resize qba_resize_less nth_append list_update_append)
          (rule rb_ok_more [where b = b and bs = "bs @ [take ?t l]" and l = "xs @ ?j ?m []"], auto)
    qed
  qed
qed

lemma rb_putChar_spec:
  "rb_ok rb \<Longrightarrow> \<exists>rb'. rb_putChar fill c rb = Some rb' \<and> rb_ok rb' \<and> rb_bytes rb' = rb_bytes rb @ [c]"
  using rb_put_spec [of rb fill "[c]"] by (simp add: rb_put_def rb_putChar_def)

lemma rb_ungetChar_spec:
  assumes "rb_ok rb"
  shows "\<exists>rb'. rb_ungetChar fill c rb = Some rb' \<and> rb_ok rb' \<and> rb_bytes rb' = c # rb_bytes rb"
proof -
  have block: "0 < rbBlockSize rb" using assms by (simp add: rb_ok_def)
  let ?n = "rbBlockSize rb - 1" and ?h = "rbHead rb - 1"
  note defs = rb_ungetChar_def rb_poke_def Let_def
  from assms show ?thesis
  proof (cases rule: rb_ok_cases)
    case (one b)
    show ?thesis
    proof (cases "rbHead rb = 0")
      case True
      then show ?thesis using one block
        by (simp add: defs del: rb_bytes_size)
          (rule rb_ok_more [where bs = "[]" and b = "take ?n (qba_resize fill (rbBlockSize rb) []) @ [c]" and l = b], auto)
    next
      case False
      then obtain k where k: "rbHead rb = Suc k" by (cases "rbHead rb") auto
      obtain m where m: "rbTail rb = Suc k + m" using one(3) k by (metis le_Suc_ex less_imp_le nat.discI)
      have "drop k (take (rbTail rb) (take k b @ c # drop (Suc k) b)) = c # drop (Suc k) (take (rbTail rb) b)"
        using one(4) by (simp add: m drop_take)
      then show ?thesis using one block k
        by (simp add: defs del: rb_bytes_size)
          (rule rb_ok_one [where c = "take k b @ c # drop (Suc k) b"], auto)
    qed
  next
    case (more b bs l)
    show ?thesis
    proof (cases "rbHead rb = 0")
      case True
      then show ?thesis using more block
        by (simp add: defs del: rb_bytes_size)
          (rule rb_ok_more [where bs = "b # bs" and b = "take ?n (qba_resize fill (rbBlockSize rb) []) @ [c]" and l = l], auto)
    next
      case False
      then show ?thesis using more block
        by (simp add: defs del: rb_bytes_size) (rule rb_ok_more [where bs = bs and b = "take ?h b @ c # drop (rbHead rb) b" and l = l], auto)
    qed
  qed
qed

subsection \<open>Reading\<close>

lemma rb_at_readPointer_bytes:
  "rb_ok rb \<Longrightarrow> n \<le> rb_nextDataBlockSize rb \<Longrightarrow> rb_at_readPointer n rb = take n (rb_bytes rb)"
  by (erule rb_ok_cases) (auto simp: rb_at_readPointer_def rb_nextDataBlockSize_def drop_take)

lemma rb_next_pos: "rb_ok rb \<Longrightarrow> rb_bytes rb \<noteq> [] \<Longrightarrow> 0 < rb_nextDataBlockSize rb"
  by (erule rb_ok_cases) (auto simp: rb_nextDataBlockSize_def)

lemma rb_next_le: "rb_ok rb \<Longrightarrow> rb_nextDataBlockSize rb \<le> length (rb_bytes rb)"
  by (erule rb_ok_cases) (auto simp: rb_nextDataBlockSize_def)

lemma rb_read_loop_spec:
  assumes "rb_ok rb" "todo \<le> length (rb_bytes rb)"
  shows "\<exists>rb'. rb_read_loop fill todo acc rb = Some (acc @ take todo (rb_bytes rb), rb') \<and> rb_ok rb' \<and>
    rb_bytes rb' = drop todo (rb_bytes rb)"
  using assms
proof (induction todo arbitrary: acc rb rule: less_induct)
  case (less todo)
  show ?case
  proof (cases "todo = 0")
    case True
    then show ?thesis using less.prems by (simp add: rb_read_loop.simps)
  next
    case False
    let ?k = "min todo (rb_nextDataBlockSize rb)"
    have k: "0 < ?k" using False less.prems rb_next_pos [of rb] by (cases "rb_bytes rb = []") auto
    have free: "rb_ok (rb_free fill ?k rb)" "rb_bytes (rb_free fill ?k rb) = drop ?k (rb_bytes rb)"
      using rb_free_spec [OF less.prems(1)] by simp_all
    have block: "rb_at_readPointer ?k rb = take ?k (rb_bytes rb)"
      using rb_at_readPointer_bytes [OF less.prems(1)] by simp
    have "take ?k (rb_bytes rb) @ take (todo - ?k) (drop ?k (rb_bytes rb)) = take todo (rb_bytes rb)"
      by (simp add: take_add [symmetric])
    moreover have "rb_read_loop fill todo acc rb =
        rb_read_loop fill (todo - ?k) (acc @ rb_at_readPointer ?k rb) (rb_free fill ?k rb)"
      using False by (subst rb_read_loop.simps) (simp add: Let_def)
    ultimately show ?thesis
      using less.IH [of "todo - ?k" "rb_free fill ?k rb" "acc @ rb_at_readPointer ?k rb"] k False free block less.prems(2)
      by simp
  qed
qed

lemma rb_read_spec:
  assumes "rb_ok rb"
  shows "\<exists>rb'. rb_read fill n rb = Some (take n (rb_bytes rb), rb') \<and> rb_ok rb' \<and> rb_bytes rb' = drop n (rb_bytes rb)"
proof -
  have "rbSize rb = length (rb_bytes rb)" using assms by (simp add: rb_ok_def)
  then show ?thesis
    using rb_read_loop_spec [OF assms, of n fill "[]"] rb_read_loop_spec [OF assms order_refl, of fill "[]"]
    by (cases "n \<le> length (rb_bytes rb)") (simp_all add: rb_read_def min_absorb1 min_absorb2)
qed

subsection \<open>Looking\<close>

definition byte_index :: "u8 \<Rightarrow> bytes \<Rightarrow> nat option" where
  "byte_index c xs = (if c \<in> set xs then Some (length (takeWhile (\<lambda>x. x \<noteq> c) xs)) else None)"

lemma byte_index_append:
  "byte_index c (xs @ ys) = (case byte_index c xs of Some i \<Rightarrow> Some i | None \<Rightarrow> map_option ((+) (length xs)) (byte_index c ys))"
proof (cases "c \<in> set xs")
  case False
  then have "takeWhile (\<lambda>x. x \<noteq> c) (xs @ ys) = xs @ takeWhile (\<lambda>x. x \<noteq> c) ys" by (intro takeWhile_append2) auto
  then show ?thesis using False by (simp add: byte_index_def)
qed (simp add: byte_index_def)

lemma byte_index_less: "byte_index c xs = Some i \<Longrightarrow> i < length xs"
proof -
  have "c \<in> set xs \<Longrightarrow> length (takeWhile (\<lambda>x. x \<noteq> c) xs) < length xs" by (induction xs) auto
  then show "byte_index c xs = Some i \<Longrightarrow> i < length xs" by (auto simp: byte_index_def split: if_splits)
qed

lemma map_option_plus_0 [simp]: "map_option ((+) (0 :: nat)) x = x"
  by (cases x) simp_all

lemma scan_part_index: "scan_part c i xs = (case byte_index c xs of Some k \<Rightarrow> Inl (i + k) | None \<Rightarrow> Inr (i + length xs))"
  by (induction xs arbitrary: i) (auto simp: byte_index_def)

lemma scan_parts_index: "scan_parts c i ps = map_option ((+) i) (byte_index c (concat ps))"
proof (induction ps arbitrary: i)
  case (Cons p ps)
  then show ?case
    by (simp add: scan_part_index byte_index_append option.map_comp comp_def add.assoc split: option.split)
qed (simp add: byte_index_def)

lemma scan_parts_max_index: "scan_parts_max c i n ps = map_option ((+) i) (byte_index c (take n (concat ps)))"
proof (induction ps arbitrary: i n)
  case Nil
  then show ?case by (simp add: byte_index_def)
next
  case (Cons p ps)
  show ?case
  proof (cases "n < length p")
    case True
    have "scan_parts_max c j 0 ps = None" for j by (simp add: Cons byte_index_def)
    then show ?thesis using True by (simp add: scan_part_index byte_index_def)
  next
    case False
    then show ?thesis
      by (simp add: Cons scan_part_index byte_index_append option.map_comp comp_def add.assoc split: option.split)
        (cases p; simp add: byte_index_def)
  qed
qed

lemma peek_parts_take: "peek_parts n ps = take n (concat ps)"
  by (induction ps arbitrary: n) (auto simp: min_def)

lemma rb_indexOf_bytes: "rb_indexOf c rb = byte_index c (rb_bytes rb)"
  by (simp add: rb_indexOf_def scan_parts_index rb_bytes_def)

lemma rb_indexOf_max_bytes: "rb_ok rb \<Longrightarrow> rb_indexOf_max c n rb = byte_index c (take n (rb_bytes rb))"
  by (simp add: rb_indexOf_max_def scan_parts_max_index rb_bytes_def [symmetric] rb_ok_def min_def)

lemma rb_peek_bytes: "rb_ok rb \<Longrightarrow> rb_peek n rb = take n (rb_bytes rb)"
  by (simp add: rb_peek_def peek_parts_take rb_bytes_def [symmetric] rb_ok_def min_def)

lemma rb_getChar_spec:
  assumes "rb_ok rb"
  shows "fst (rb_getChar fill rb) = (case rb_bytes rb of [] \<Rightarrow> None | c # _ \<Rightarrow> Some c)"
    and "rb_ok (snd (rb_getChar fill rb))" "rb_bytes (snd (rb_getChar fill rb)) = drop 1 (rb_bytes rb)"
proof -
  have "rb_at_readPointer 1 rb = take 1 (rb_bytes rb)" if "rb_bytes rb \<noteq> []"
    using rb_at_readPointer_bytes [OF assms, of 1] rb_next_pos [OF assms that] by simp
  then show "fst (rb_getChar fill rb) = (case rb_bytes rb of [] \<Rightarrow> None | c # _ \<Rightarrow> Some c)"
    using rb_empty_bytes [OF assms] by (auto simp: rb_getChar_def split: list.split)
  show "rb_ok (snd (rb_getChar fill rb))" "rb_bytes (snd (rb_getChar fill rb)) = drop 1 (rb_bytes rb)"
    using rb_empty_bytes [OF assms] rb_free_spec [OF assms] assms by (simp_all add: rb_getChar_def)
qed

subsection \<open>The buffer is a queue of bytes\<close>

datatype rb_op =
    RbPut bytes | RbPutChar u8 | RbUngetChar u8 | RbClear
  | RbFree nat | RbChop nat | RbTruncate nat
  | RbRead nat | RbReadAll | RbSkip nat | RbReadLine nat | RbGetChar
  | RbPeek nat | RbIndexOf u8 | RbIndexOfMax u8 nat | RbCanReadLine | RbLength | RbIsEmpty

datatype rb_out = Done | OutBytes bytes | OutByte "u8 option" | OutLength nat | OutIndex "nat option"
  | OutLine "bytes option" | OutBool bool

fun rb_step :: "(nat \<Rightarrow> u8) \<Rightarrow> rb_op \<Rightarrow> ring_buffer \<Rightarrow> (rb_out \<times> ring_buffer) option" where
  "rb_step fill (RbPut xs) rb = map_option (Pair Done) (rb_put fill xs rb)"
| "rb_step fill (RbPutChar c) rb = map_option (Pair Done) (rb_putChar fill c rb)"
| "rb_step fill (RbUngetChar c) rb = map_option (Pair Done) (rb_ungetChar fill c rb)"
| "rb_step fill RbClear rb = Some (Done, rb_clear rb)"
| "rb_step fill (RbFree n) rb = Some (Done, rb_free fill n rb)"
| "rb_step fill (RbChop n) rb = Some (Done, rb_chop n rb)"
| "rb_step fill (RbTruncate n) rb = Some (Done, rb_truncate n rb)"
| "rb_step fill (RbRead n) rb = map_option (map_prod OutBytes id) (rb_read fill n rb)"
| "rb_step fill RbReadAll rb = map_option (map_prod OutBytes id) (rb_readAll fill rb)"
| "rb_step fill (RbSkip n) rb = map_option (map_prod OutLength id) (rb_skip fill n rb)"
| "rb_step fill (RbReadLine n) rb = map_option (map_prod OutLine id) (rb_readLine fill n rb)"
| "rb_step fill RbGetChar rb = Some (map_prod OutByte id (rb_getChar fill rb))"
| "rb_step fill (RbPeek n) rb = Some (OutBytes (rb_peek n rb), rb)"
| "rb_step fill (RbIndexOf c) rb = Some (OutIndex (rb_indexOf c rb), rb)"
| "rb_step fill (RbIndexOfMax c n) rb = Some (OutIndex (rb_indexOf_max c n rb), rb)"
| "rb_step fill RbCanReadLine rb = Some (OutBool (rb_canReadLine rb), rb)"
| "rb_step fill RbLength rb = Some (OutLength (rbSize rb), rb)"
| "rb_step fill RbIsEmpty rb = Some (OutBool (rb_isEmpty rb), rb)"

text \<open>The same operations on a list of bytes.\<close>

definition queue_line :: "nat \<Rightarrow> bytes \<Rightarrow> bytes option \<times> bytes" where
  "queue_line n xs =
     (case byte_index 10 xs of
        None \<Rightarrow> (Some (take n xs), drop n xs)
      | Some i \<Rightarrow>
          if n = 0 then (None, xs)
          else (Some (take (min (i + 1) (n - 1)) xs), drop (min (i + 1) (n - 1)) xs))"

fun queue_step :: "rb_op \<Rightarrow> bytes \<Rightarrow> rb_out \<times> bytes" where
  "queue_step (RbPut ys) xs = (Done, xs @ ys)"
| "queue_step (RbPutChar c) xs = (Done, xs @ [c])"
| "queue_step (RbUngetChar c) xs = (Done, c # xs)"
| "queue_step RbClear xs = (Done, [])"
| "queue_step (RbFree n) xs = (Done, drop n xs)"
| "queue_step (RbChop n) xs = (Done, take (length xs - n) xs)"
| "queue_step (RbTruncate n) xs = (Done, take n xs)"
| "queue_step (RbRead n) xs = (OutBytes (take n xs), drop n xs)"
| "queue_step RbReadAll xs = (OutBytes xs, [])"
| "queue_step (RbSkip n) xs = (OutLength (min n (length xs)), drop n xs)"
| "queue_step (RbReadLine n) xs = map_prod OutLine id (queue_line n xs)"
| "queue_step RbGetChar xs = (OutByte (case xs of [] \<Rightarrow> None | c # _ \<Rightarrow> Some c), drop 1 xs)"
| "queue_step (RbPeek n) xs = (OutBytes (take n xs), xs)"
| "queue_step (RbIndexOf c) xs = (OutIndex (byte_index c xs), xs)"
| "queue_step (RbIndexOfMax c n) xs = (OutIndex (byte_index c (take n xs)), xs)"
| "queue_step RbCanReadLine xs = (OutBool (10 \<in> set xs), xs)"
| "queue_step RbLength xs = (OutLength (length xs), xs)"
| "queue_step RbIsEmpty xs = (OutBool (xs = []), xs)"

lemma rb_readLine_spec:
  assumes "rb_ok rb"
  shows "\<exists>rb'. rb_readLine fill n rb = Some (fst (queue_line n (rb_bytes rb)), rb') \<and> rb_ok rb' \<and>
    rb_bytes rb' = snd (queue_line n (rb_bytes rb))"
proof (cases "byte_index 10 (rb_bytes rb)")
  case None
  then show ?thesis using rb_read_spec [OF assms, of fill n]
    by (auto simp: rb_readLine_def queue_line_def rb_indexOf_bytes)
next
  case (Some i)
  then have "i < length (rb_bytes rb)" by (rule byte_index_less)
  then show ?thesis using Some assms rb_read_loop_spec [OF assms, of "min (i + 1) (n - 1)" fill "[]"]
    by (auto simp: rb_readLine_def queue_line_def rb_indexOf_bytes)
qed

lemma rb_step_spec:
  assumes "rb_ok rb"
  shows "\<exists>rb'. rb_step fill op rb = Some (fst (queue_step op (rb_bytes rb)), rb') \<and> rb_ok rb' \<and>
    rb_bytes rb' = snd (queue_step op (rb_bytes rb))"
proof (cases op)
  case (RbPut xs)
  then show ?thesis using rb_put_spec [OF assms, of fill xs] by auto
next
  case (RbPutChar c)
  then show ?thesis using rb_putChar_spec [OF assms, of fill c] by auto
next
  case (RbUngetChar c)
  then show ?thesis using rb_ungetChar_spec [OF assms, of fill c] by auto
next
  case (RbRead n)
  then show ?thesis using rb_read_spec [OF assms, of fill n] by auto
next
  case RbReadAll
  moreover have "rbSize rb = length (rb_bytes rb)" using assms by (simp add: rb_ok_def)
  ultimately show ?thesis using rb_read_spec [OF assms, of fill "rbSize rb"] by (auto simp: rb_readAll_def)
next
  case (RbSkip n)
  then show ?thesis using rb_read_spec [OF assms, of fill n] by (auto simp: rb_skip_def min.commute)
next
  case (RbReadLine n)
  then show ?thesis using rb_readLine_spec [OF assms, of fill n] by auto
next
  case RbGetChar
  then show ?thesis using rb_getChar_spec [OF assms, of fill] by (cases "rb_getChar fill rb") simp
next
  case RbCanReadLine
  then show ?thesis using assms by (simp add: rb_canReadLine_def rb_indexOf_bytes byte_index_def)
next
  case RbLength
  then show ?thesis using assms by (simp add: rb_ok_def)
next
  case RbClear
  then show ?thesis using assms rb_clear_spec(2) [of rb] by (simp add: rb_ok_def)
qed (simp_all add: assms rb_free_spec rb_chop_spec rb_truncate_spec rb_peek_bytes rb_indexOf_bytes rb_indexOf_max_bytes
      rb_empty_bytes)

interpretation rb_queue: data_refinement rb_ok rb_bytes "rb_step fill" queue_step for fill
  by unfold_locales (rule rb_step_spec)

lemma rb_new_ok: "0 < growth \<Longrightarrow> rb_ok (rb_new growth) \<and> rb_bytes (rb_new growth) = []"
  by (simp add: rb_new_def)



subsection \<open>Operations outside of the contract\<close>

text \<open>\<^verbatim>\<open>read()\<close> takes the first block, whichever of its four cases applies.\<close>

lemma rb_readBlock_bytes:
  assumes "rb_ok rb"
  shows "fst (rb_readBlock rb) @ rb_bytes (snd (rb_readBlock rb)) = rb_bytes rb"
  using assms
proof (cases rule: rb_ok_cases)
  case (one b)
  then show ?thesis
    by (auto simp: rb_readBlock_def Let_def rb_bytes_one rb_at_readPointer_def rb_nextDataBlockSize_def drop_take)
next
  case (more b bs l)
  let ?r = "rb\<lparr> rbBuffers := bs @ [l], rbHead := 0, rbTailBuffer := length bs, rbSize := rbSize rb - (length b - rbHead rb) \<rparr>"
  have rest: "rb_bytes ?r = concat bs @ take (rbTail rb) l"
  proof (cases bs)
    case Nil
    then show ?thesis using rb_bytes_one [of ?r l] by simp
  next
    case (Cons m ms)
    then show ?thesis using rb_bytes_more [of ?r m ms l] by simp
  qed
  have "snd (rb_readBlock rb) = ?r" "fst (rb_readBlock rb) = drop (rbHead rb) b"
    using more by (auto simp: rb_readBlock_def Let_def rb_at_readPointer_def rb_nextDataBlockSize_def)
  then show ?thesis using rest more by simp
qed

text \<open>
  \<^verbatim>\<open>append\<close> of an empty array to an empty buffer makes a second block: the buffer then is not empty for
  \<^verbatim>\<open>isEmpty\<close>, and the next \<^verbatim>\<open>reserve\<close> hands out a place outside of that block.
\<close>

lemma rb_append_empty:
  "rb_bytes (rb_append fill [] (rb_new growth)) = []" "\<not> rb_isEmpty (rb_append fill [] (rb_new growth))"
  "rb_put fill (x # xs) (rb_append fill [] (rb_new growth)) = None"
  by (simp_all add: rb_append_def rb_new_def rb_clear_def rb_isEmpty_def rb_put_def rb_reserve_def rb_poke_def Let_def
      qba_resize_def rb_bytes_more [of _ "[]" "[]" "[]"])

text \<open>
  \<^verbatim>\<open>readPointerAtPosition\<close> subtracts the head twice: for a position in the second block it may return a
  place in the first one, with no bytes to read.
\<close>

lemma rb_position_wrong:
  assumes "rb_nextDataBlockSize rb \<le> pos" "pos < rb_nextDataBlockSize rb + rbHead rb" "pos < rbSize rb" "rbBuffers rb \<noteq> []"
  shows "\<exists>len. rb_readPointerAtPosition pos rb = Some (0, rbHead rb + pos, len) \<and> len \<le> 0"
  using assms by (simp add: rb_readPointerAtPosition_def Let_def)

end
