(* ===== verification/Http_Header.thy ===== *)
theory Http_Header
  imports Ve_Consumer
begin

text \<open>
  The headers of HTTP requests and responses (\<^verbatim>\<open>QHttpHeader\<close>, \<^verbatim>\<open>QHttpResponseHeader\<close> and
  \<^verbatim>\<open>QHttpRequestHeader\<close> in \<^verbatim>\<open>qhttp/qhttp.cpp\<close>): a list of keys and values where the case of the keys
  does not matter, and the text form.  Characters are those of Latin-1.
\<close>

subsection \<open>Characters\<close>

definition latin1_space :: "char \<Rightarrow> bool" where
  "latin1_space c \<longleftrightarrow> (let n = of_char c :: nat in 9 \<le> n \<and> n \<le> 13 \<or> n = 32 \<or> n = 133 \<or> n = 160)"

definition latin1_lower :: "char \<Rightarrow> char" where
  "latin1_lower c =
     (let n = of_char c :: nat
      in if 65 \<le> n \<and> n \<le> 90 \<or> 192 \<le> n \<and> n \<le> 222 \<and> n \<noteq> 215 then char_of (n + 32) else c)"

definition toLower :: "string \<Rightarrow> string" where
  "toLower s = map latin1_lower s"

definition trimmed :: "string \<Rightarrow> string" where
  "trimmed s = rev (dropWhile latin1_space (rev (dropWhile latin1_space s)))"

text \<open>\<^verbatim>\<open>simplified\<close>: trimmed, and every run of spaces inside is one blank.\<close>

fun squeeze :: "string \<Rightarrow> string" where
  "squeeze [] = []"
| "squeeze (c # cs) =
     (if latin1_space c then (if cs \<noteq> [] \<and> latin1_space (hd cs) then squeeze cs else CHR '' '' # squeeze cs)
      else c # squeeze cs)"

definition simplified :: "string \<Rightarrow> string" where
  "simplified s = squeeze (trimmed s)"

text \<open>\<^verbatim>\<open>split\<close> at a separator of several characters.\<close>

function split_str :: "string \<Rightarrow> string \<Rightarrow> string list" where
  "split_str sep [] = [[]]"
| "split_str sep (c # cs) =
     (if sep \<noteq> [] \<and> take (length sep) (c # cs) = sep then [] # split_str sep (drop (length sep) (c # cs))
      else case split_str sep cs of [] \<Rightarrow> [[c]] | p # ps \<Rightarrow> (c # p) # ps)"
  by pat_completeness auto
termination
  by (relation "measure (\<lambda>(_, s). length s)") (auto simp: neq_Nil_conv)

subsection \<open>Keys and values\<close>

record http_header =
  hhValues :: "(string \<times> string) list"
  hhValid :: bool

definition same_key :: "string \<Rightarrow> string \<times> string \<Rightarrow> bool" where
  "same_key k kv \<longleftrightarrow> toLower (fst kv) = toLower k"

definition hh_value :: "string \<Rightarrow> 'a http_header_scheme \<Rightarrow> string" where
  "hh_value key h = (case find (same_key key) (hhValues h) of None \<Rightarrow> [] | Some (_, v) \<Rightarrow> v)"

definition hh_allValues :: "string \<Rightarrow> 'a http_header_scheme \<Rightarrow> string list" where
  "hh_allValues key h = map snd (filter (same_key key) (hhValues h))"

definition hh_keys :: "'a http_header_scheme \<Rightarrow> string list" where
  "hh_keys h = fst (foldl (\<lambda>(keyList, seen) (k, _).
     if toLower k \<in> set seen then (keyList, seen) else (keyList @ [k], seen @ [toLower k])) ([], []) (hhValues h))"

definition hh_hasKey :: "string \<Rightarrow> 'a http_header_scheme \<Rightarrow> bool" where
  "hh_hasKey key h \<longleftrightarrow> list_ex (same_key key) (hhValues h)"

definition hh_addValue :: "string \<Rightarrow> string \<Rightarrow> 'a http_header_scheme \<Rightarrow> 'a http_header_scheme" where
  "hh_addValue key v h = h\<lparr> hhValues := hhValues h @ [(key, v)] \<rparr>"

fun replace_first :: "string \<Rightarrow> string \<Rightarrow> (string \<times> string) list \<Rightarrow> (string \<times> string) list option" where
  "replace_first key v [] = None"
| "replace_first key v (kv # kvs) =
     (if same_key key kv then Some ((fst kv, v) # kvs) else map_option (Cons kv) (replace_first key v kvs))"

definition hh_setValue :: "string \<Rightarrow> string \<Rightarrow> 'a http_header_scheme \<Rightarrow> 'a http_header_scheme" where
  "hh_setValue key v h =
     (case replace_first key v (hhValues h) of
        Some kvs \<Rightarrow> h\<lparr> hhValues := kvs \<rparr>
      | None \<Rightarrow> hh_addValue key v h)"

definition hh_setValues :: "(string \<times> string) list \<Rightarrow> 'a http_header_scheme \<Rightarrow> 'a http_header_scheme" where
  "hh_setValues kvs h = h\<lparr> hhValues := kvs \<rparr>"

fun remove_first :: "string \<Rightarrow> (string \<times> string) list \<Rightarrow> (string \<times> string) list" where
  "remove_first key [] = []"
| "remove_first key (kv # kvs) = (if same_key key kv then kvs else kv # remove_first key kvs)"

definition hh_removeValue :: "string \<Rightarrow> 'a http_header_scheme \<Rightarrow> 'a http_header_scheme" where
  "hh_removeValue key h = h\<lparr> hhValues := remove_first key (hhValues h) \<rparr>"

definition hh_removeAllValues :: "string \<Rightarrow> 'a http_header_scheme \<Rightarrow> 'a http_header_scheme" where
  "hh_removeAllValues key h = h\<lparr> hhValues := filter (\<lambda>kv. \<not> same_key key kv) (hhValues h) \<rparr>"

text \<open>\<^verbatim>\<open>toUInt\<close>: 0 for anything that is not a number of 32 bits.\<close>

definition text_toUInt :: "string \<Rightarrow> nat" where
  "text_toUInt s =
     (let t = trimmed s; ds = (case t of c # cs \<Rightarrow> if c = CHR ''+'' then cs else t | [] \<Rightarrow> [])
      in if ds \<noteq> [] \<and> list_all is_digit ds \<and> undec ds < 2 ^ 32 then undec ds else 0)"

definition hh_hasContentLength :: "'a http_header_scheme \<Rightarrow> bool" where
  "hh_hasContentLength h = hh_hasKey ''content-length'' h"

definition hh_contentLength :: "'a http_header_scheme \<Rightarrow> nat" where
  "hh_contentLength h = text_toUInt (hh_value ''content-length'' h)"

definition hh_setContentLength :: "int \<Rightarrow> 'a http_header_scheme \<Rightarrow> 'a http_header_scheme" where
  "hh_setContentLength len h = hh_setValue ''content-length'' (dec_int len) h"

definition hh_hasContentType :: "'a http_header_scheme \<Rightarrow> bool" where
  "hh_hasContentType h = hh_hasKey ''content-type'' h"

definition hh_contentType :: "'a http_header_scheme \<Rightarrow> string" where
  "hh_contentType h =
     (let t = hh_value ''content-type'' h
      in case index_of (CHR '';'') 0 t of None \<Rightarrow> t | Some pos \<Rightarrow> trimmed (take pos t))"

definition hh_setContentType :: "string \<Rightarrow> 'a http_header_scheme \<Rightarrow> 'a http_header_scheme" where
  "hh_setContentType t h = hh_setValue ''content-type'' t h"

subsection \<open>Text\<close>

abbreviation CRLF :: string where
  "CRLF \<equiv> [CHR 0x0D, CHR 0x0A]"

definition hh_text :: "(string \<times> string) list \<Rightarrow> string" where
  "hh_text kvs = concat (map (\<lambda>(k, v). k @ '': '' @ v @ CRLF) kvs)"

definition hh_toString :: "'a http_header_scheme \<Rightarrow> string" where
  "hh_toString h = (if \<not> hhValid h then [] else hh_text (hhValues h))"

definition hh_parseLine :: "string \<Rightarrow> 'a http_header_scheme \<Rightarrow> bool \<times> 'a http_header_scheme" where
  "hh_parseLine line h =
     (case index_of (CHR '':'') 0 line of
        None \<Rightarrow> (False, h)
      | Some i \<Rightarrow> (True, hh_addValue (trimmed (take i line)) (trimmed (drop (i + 1) line)) h))"

text \<open>Lines that begin with a space continue the line before.\<close>

definition unfold_lines :: "string list \<Rightarrow> string list" where
  "unfold_lines ls = foldl (\<lambda>lines it.
     if latin1_space (hd it)
     then (if lines = [] then [] else butlast lines @ [last lines @ '' '' @ trimmed it])
     else lines @ [it]) [] ls"

text \<open>
  \<^verbatim>\<open>parse\<close>, for the virtual \<^verbatim>\<open>parseLine\<close> of the class, which gets the number of the line; a line that
  it does not take makes the header invalid.
\<close>

fun parse_lines :: "(nat \<Rightarrow> string \<Rightarrow> 'h \<Rightarrow> bool \<times> 'h) \<Rightarrow> nat \<Rightarrow> string list \<Rightarrow> 'h \<Rightarrow> bool \<times> 'h" where
  "parse_lines pl number [] h = (True, h)"
| "parse_lines pl number (line # lines) h =
     (let (ok, h') = pl number line h in if ok then parse_lines pl (number + 1) lines h' else (False, h'))"

definition header_lines :: "string \<Rightarrow> string list" where
  "header_lines str =
     (let crlf = (case index_of (CHR 0x0A) 0 str of None \<Rightarrow> False | Some pos \<Rightarrow> 0 < pos \<and> str ! (pos - 1) = CHR 0x0D);
          lst = (if crlf then split_str CRLF (trimmed str) else split_on (CHR 0x0A) (trimmed str))
      in unfold_lines (filter (\<lambda>l. l \<noteq> []) lst))"

definition hh_parse ::
    "(nat \<Rightarrow> string \<Rightarrow> 'a http_header_scheme \<Rightarrow> bool \<times> 'a http_header_scheme) \<Rightarrow> string \<Rightarrow> 'a http_header_scheme \<Rightarrow>
     'a http_header_scheme" where
  "hh_parse pl str h =
     (let (parsed, h') = parse_lines pl 0 (header_lines str) h in if parsed then h' else h'\<lparr> hhValid := False \<rparr>)"

definition hh_new :: "string \<Rightarrow> http_header" where
  "hh_new str = hh_parse (\<lambda>_. hh_parseLine) str \<lparr> hhValues = [], hhValid = True \<rparr>"

subsection \<open>Responses\<close>

record http_response_header = http_header +
  hrStatusCode :: int
  hrReasonPhrase :: string
  hrMajorVersion :: int
  hrMinorVersion :: int

definition hr_statusLine :: "string \<Rightarrow> 'a http_response_header_scheme \<Rightarrow> bool \<times> 'a http_response_header_scheme" where
  "hr_statusLine line h =
     (let l = simplified line
      in if length l < 10 then (False, h)
         else if take 5 l = ''HTTP/'' \<and> is_digit (l ! 5) \<and> l ! 6 = CHR ''.'' \<and> is_digit (l ! 7) \<and> l ! 8 = CHR '' '' \<and>
           is_digit (l ! 9)
         then
           let h = h\<lparr> hrMajorVersion := int (digit_value (l ! 5)), hrMinorVersion := int (digit_value (l ! 7)) \<rparr>;
               number = (\<lambda>s. case to_int s of None \<Rightarrow> 0 | Some i \<Rightarrow> i)
           in (True, case index_of (CHR '' '') 9 l of
                Some pos \<Rightarrow> h\<lparr> hrReasonPhrase := drop (pos + 1) l, hrStatusCode := number (mid 9 (pos - 9) l) \<rparr>
              | None \<Rightarrow> h\<lparr> hrStatusCode := number (drop 9 l), hrReasonPhrase := [] \<rparr>)
         else (False, h))"

definition hr_parseLine ::
    "nat \<Rightarrow> string \<Rightarrow> 'a http_response_header_scheme \<Rightarrow> bool \<times> 'a http_response_header_scheme" where
  "hr_parseLine number line h = (if number \<noteq> 0 then hh_parseLine line h else hr_statusLine line h)"

text \<open>
  The constructor from a string; the three numbers and the reason are those of the fresh object (the
  numbers are not initialised), with no values and valid.
\<close>

definition hr_new :: "http_response_header \<Rightarrow> string \<Rightarrow> http_response_header" where
  "hr_new fresh str = hh_parse hr_parseLine str (fresh\<lparr> hhValues := [], hhValid := True, hrReasonPhrase := [] \<rparr>)"

definition hr_setStatusLine :: "int \<Rightarrow> string \<Rightarrow> int \<Rightarrow> int \<Rightarrow> http_response_header \<Rightarrow> http_response_header" where
  "hr_setStatusLine code reason majorVer minorVer h =
     h\<lparr> hhValid := True, hrStatusCode := code, hrReasonPhrase := reason, hrMajorVersion := majorVer,
        hrMinorVersion := minorVer \<rparr>"

definition hr_new_line :: "http_response_header \<Rightarrow> int \<Rightarrow> string \<Rightarrow> int \<Rightarrow> int \<Rightarrow> http_response_header" where
  "hr_new_line fresh code reason majorVer minorVer =
     hr_setStatusLine code reason majorVer minorVer (fresh\<lparr> hhValues := [], hhValid := True, hrReasonPhrase := [] \<rparr>)"

definition hr_toString :: "http_response_header \<Rightarrow> string" where
  "hr_toString h =
     qarg (qarg (qarg (qarg (qarg (''HTTP/%1.%2 %3 %4'' @ CRLF @ ''%5'' @ CRLF)
       (dec_int (hrMajorVersion h))) (dec_int (hrMinorVersion h))) (dec_int (hrStatusCode h))) (hrReasonPhrase h))
       (hh_toString h)"

subsection \<open>Requests\<close>

record http_request_header = http_header +
  hqMethod :: string
  hqPath :: string
  hqMajorVersion :: int
  hqMinorVersion :: int

definition hq_requestLine :: "string \<Rightarrow> 'a http_request_header_scheme \<Rightarrow> bool \<times> 'a http_request_header_scheme" where
  "hq_requestLine line h =
     (let lst = split_on (CHR '' '') (simplified line);
          h = h\<lparr> hqMethod := lst ! 0 \<rparr>
      in if length lst \<le> 1 then (False, h)
         else let h = h\<lparr> hqPath := lst ! 1 \<rparr>
              in if length lst \<le> 2 then (False, h)
                 else let v = lst ! 2
                      in if 8 \<le> length v \<and> take 5 v = ''HTTP/'' \<and> is_digit (v ! 5) \<and> v ! 6 = CHR ''.'' \<and> is_digit (v ! 7)
                         then (True, h\<lparr> hqMajorVersion := int (digit_value (v ! 5)),
                                        hqMinorVersion := int (digit_value (v ! 7)) \<rparr>)
                         else (False, h))"

definition hq_parseLine :: "nat \<Rightarrow> string \<Rightarrow> 'a http_request_header_scheme \<Rightarrow> bool \<times> 'a http_request_header_scheme" where
  "hq_parseLine number line h = (if number \<noteq> 0 then hh_parseLine line h else hq_requestLine line h)"

definition hq_new :: "string \<Rightarrow> string \<Rightarrow> int \<Rightarrow> int \<Rightarrow> http_request_header" where
  "hq_new m p majorVer minorVer =
     \<lparr> hhValues = [], hhValid = True, hqMethod = m, hqPath = p, hqMajorVersion = majorVer, hqMinorVersion = minorVer \<rparr>"

definition hq_new_text :: "http_request_header \<Rightarrow> string \<Rightarrow> http_request_header" where
  "hq_new_text fresh str =
     hh_parse hq_parseLine str (fresh\<lparr> hhValues := [], hhValid := True, hqMethod := [], hqPath := [] \<rparr>)"

definition hq_setRequest ::
    "string \<Rightarrow> string \<Rightarrow> int \<Rightarrow> int \<Rightarrow> 'a http_request_header_scheme \<Rightarrow> 'a http_request_header_scheme" where
  "hq_setRequest m p majorVer minorVer h =
     h\<lparr> hhValid := True, hqMethod := m, hqPath := p, hqMajorVersion := majorVer, hqMinorVersion := minorVer \<rparr>"

definition hq_toString :: "'a http_request_header_scheme \<Rightarrow> string" where
  "hq_toString h =
     qarg (qarg ''%1 %2'' (hqMethod h)) (hqPath h) @
     qarg (qarg (qarg ('' HTTP/%3.%4'' @ CRLF @ ''%5'' @ CRLF) (dec_int (hqMajorVersion h)))
       (dec_int (hqMinorVersion h))) (hh_toString h)"

subsection \<open>Keys do not depend on case\<close>

lemma same_key_cong: "toLower k = toLower k' \<Longrightarrow> same_key k = same_key k'"
  by (simp add: same_key_def fun_eq_iff)

lemma hasKey_values: "hh_hasKey k h \<longleftrightarrow> hh_allValues k h \<noteq> []"
  by (auto simp: hh_hasKey_def hh_allValues_def list_ex_iff filter_empty_conv)

lemma value_is_first: "hh_value k h = (case hh_allValues k h of [] \<Rightarrow> [] | v # _ \<Rightarrow> v)"
proof -
  have "(case find (same_key k) kvs of None \<Rightarrow> [] | Some (_, v) \<Rightarrow> v) =
      (case map snd (filter (same_key k) kvs) of [] \<Rightarrow> [] | v # _ \<Rightarrow> v)" for kvs
    by (induction kvs) auto
  then show ?thesis by (simp add: hh_value_def hh_allValues_def)
qed

lemma same_key_pair: "same_key k (a, v) \<longleftrightarrow> toLower a = toLower k"
  by (simp add: same_key_def)

lemma replace_first_filter:
  "map snd (filter (same_key k') (case replace_first k v kvs of Some r \<Rightarrow> r | None \<Rightarrow> kvs @ [(k, v)])) =
     (if toLower k' = toLower k then (case map snd (filter (same_key k) kvs) of [] \<Rightarrow> [v] | _ # vs \<Rightarrow> v # vs)
      else map snd (filter (same_key k') kvs))"
proof (cases "toLower k' = toLower k")
  case True
  show ?thesis unfolding same_key_cong [OF True]
    by (induction kvs) (auto simp: True same_key_pair split: option.splits)
next
  case False
  then show ?thesis
    by (induction kvs) (auto simp: same_key_pair split: option.splits)
qed

lemma setValue_allValues:
  "hh_allValues k' (hh_setValue k v h) =
     (if toLower k' = toLower k then (case hh_allValues k h of [] \<Rightarrow> [v] | _ # vs \<Rightarrow> v # vs) else hh_allValues k' h)"
proof -
  have "hhValues (hh_setValue k v h) = (case replace_first k v (hhValues h) of Some r \<Rightarrow> r | None \<Rightarrow> hhValues h @ [(k, v)])"
    by (simp add: hh_setValue_def hh_addValue_def split: option.split)
  then show ?thesis unfolding hh_allValues_def by (simp only: replace_first_filter)
qed

lemma removeAllValues_allValues:
  "hh_allValues k' (hh_removeAllValues k h) = (if toLower k' = toLower k then [] else hh_allValues k' h)"
proof -
  have "filter (same_key k') (filter (\<lambda>kv. \<not> same_key k kv) kvs) =
      (if toLower k' = toLower k then [] else filter (same_key k') kvs)" for kvs
    by (induction kvs) (auto simp: same_key_pair)
  then show ?thesis by (simp add: hh_allValues_def hh_removeAllValues_def)
qed

lemma removeValue_allValues:
  "hh_allValues k' (hh_removeValue k h) = (if toLower k' = toLower k then tl (hh_allValues k h) else hh_allValues k' h)"
proof (cases "toLower k' = toLower k")
  case True
  have "filter (same_key k) (remove_first k kvs) = tl (filter (same_key k) kvs)" for kvs
    by (induction kvs) auto
  then show ?thesis using True
    by (simp add: hh_allValues_def hh_removeValue_def same_key_cong [OF True] map_tl)
next
  case False
  then have "filter (same_key k') (remove_first k kvs) = filter (same_key k') kvs" for kvs
    by (induction kvs) (auto simp: same_key_pair)
  then show ?thesis using False by (simp add: hh_allValues_def hh_removeValue_def)
qed

subsection \<open>Text and back\<close>

lemma qarg_status_line:
  assumes "CHR ''%'' \<notin> set a" "CHR ''%'' \<notin> set b" "CHR ''%'' \<notin> set c" "CHR ''%'' \<notin> set d"
  shows "qarg (qarg (qarg (qarg (qarg (''HTTP/%1.%2 %3 %4'' @ CRLF @ ''%5'' @ CRLF) a) b) c) d) e =
    ''HTTP/'' @ a @ ''.'' @ b @ '' '' @ c @ '' '' @ d @ CRLF @ e @ CRLF"
proof -
  have dg: "is_digit CHR ''1''" "is_digit CHR ''2''" "is_digit CHR ''3''" "is_digit CHR ''4''" "is_digit CHR ''5''"
      "\<not> is_digit CHR '' ''" "\<not> is_digit CHR ''.''" "\<not> is_digit CHR 0x0D"
      "digit_value CHR ''1'' = 1" "digit_value CHR ''2'' = 2" "digit_value CHR ''3'' = 3"
      "digit_value CHR ''4'' = 4" "digit_value CHR ''5'' = 5"
    by (simp_all add: is_digit_def digit_value_def)
  have p: "place_marker (CHR ''%'' # cs) = marker_digits (if cs \<noteq> [] \<and> hd cs = CHR ''L'' then tl cs else cs)" for cs
    by (simp add: place_marker.simps(2))
  let ?h = "''HTTP/''" and ?t = "CRLF @ ''%5'' @ CRLF"
  have 1: "qarg (?h @ ''%1.%2 %3 %4'' @ ?t) a = (?h @ a @ ''.'') @ ''%2 %3 %4'' @ ?t"
    by (simp add: qarg_def p dg place_marker_no_percent min_def)
  have 2: "qarg ((?h @ a @ ''.'') @ ''%2 %3 %4'' @ ?t) b = (?h @ a @ ''.'' @ b @ '' '') @ ''%3 %4'' @ ?t"
    using assms by (simp add: qarg_def lowest_marker_append replace_marker_append p dg place_marker_no_percent min_def)
  have 3: "qarg ((?h @ a @ ''.'' @ b @ '' '') @ ''%3 %4'' @ ?t) c = (?h @ a @ ''.'' @ b @ '' '' @ c @ '' '') @ ''%4'' @ ?t"
    using assms by (simp add: qarg_def lowest_marker_append replace_marker_append p dg place_marker_no_percent min_def)
  have 4: "qarg ((?h @ a @ ''.'' @ b @ '' '' @ c @ '' '') @ ''%4'' @ ?t) d = (?h @ a @ ''.'' @ b @ '' '' @ c @ '' '' @ d) @ ?t"
    using assms by (simp add: qarg_def lowest_marker_append replace_marker_append p dg place_marker_no_percent min_def)
  have 5: "qarg ((?h @ a @ ''.'' @ b @ '' '' @ c @ '' '' @ d) @ ?t) e = (?h @ a @ ''.'' @ b @ '' '' @ c @ '' '' @ d) @ CRLF @ e @ CRLF"
    using assms by (simp add: qarg_def lowest_marker_append replace_marker_append p dg place_marker_no_percent min_def)
  show ?thesis using 1 2 3 4 5 by simp
qed

lemma index_of_found:
  "length p = n \<Longrightarrow> c \<notin> set q \<Longrightarrow> index_of c n (p @ q @ c # r) = Some (n + length q)"
  unfolding index_of_def find_Some_iff by (rule exI [of _ "length q"]) (auto simp: nth_append in_set_conv_nth)

lemma index_of_none: "length p = n \<Longrightarrow> c \<notin> set q \<Longrightarrow> index_of c n (p @ q) = None"
  by (auto simp: index_of_def find_None_iff nth_append in_set_conv_nth)

lemmas index_of_start = index_of_found [of "[]" 0, simplified] index_of_none [of "[]" 0, simplified]

definition rtrim :: "string \<Rightarrow> string" where
  "rtrim s = rev (dropWhile latin1_space (rev s))"

lemma trimmed_rtrim: "trimmed s = rtrim (dropWhile latin1_space s)"
  by (simp add: trimmed_def rtrim_def)

lemma rtrim_append: "rtrim (s @ t) = (if list_all latin1_space t then rtrim s else s @ rtrim t)"
  by (auto simp: rtrim_def dropWhile_append list_all_iff dropWhile_eq_Nil_conv)

lemma rtrim_Nil [simp]: "rtrim [] = []"
  by (simp add: rtrim_def)

lemma rtrim_Cons: "rtrim (c # t) = (if list_all latin1_space (c # t) then [] else c # rtrim t)"
proof -
  have "rtrim [c] = (if latin1_space c then [] else [c])" by (simp add: rtrim_def)
  moreover have "rtrim t = []" if "list_all latin1_space t" using that rtrim_append [of "[]" t] by simp
  ultimately show ?thesis using rtrim_append [of "[c]" t] by auto
qed

text \<open>Lines that the writer makes: not empty, no space in front, no line breaks inside.\<close>

definition clean_line :: "string \<Rightarrow> bool" where
  "clean_line l \<longleftrightarrow> l \<noteq> [] \<and> \<not> latin1_space (hd l) \<and> CHR 0x0D \<notin> set l \<and> CHR 0x0A \<notin> set l"

lemma split_str_end: "CHR 0x0D \<notin> set l \<Longrightarrow> split_str CRLF l = [l]"
  by (induction l) auto

lemma split_str_line: "CHR 0x0D \<notin> set l \<Longrightarrow> split_str CRLF (l @ CRLF @ r) = l # split_str CRLF r"
  by (induction l) auto

lemma split_str_lines:
  assumes "CHR 0x0D \<notin> set l"
  shows "list_all clean_line ls \<Longrightarrow> split_str CRLF (concat (map (\<lambda>l. l @ CRLF) ls) @ l) = ls @ [l]"
proof (induction ls)
  case (Cons a ls)
  then have a: "CHR 0x0D \<notin> set a" by (simp add: clean_line_def)
  have "concat (map (\<lambda>l. l @ CRLF) (a # ls)) @ l = a @ CRLF @ concat (map (\<lambda>l. l @ CRLF) ls) @ l" by simp
  then show ?case using Cons by (simp only: split_str_line [OF a]) simp
qed (simp add: split_str_end assms)

lemma latin1_space_CRLF [simp]: "latin1_space CHR 0x0D" "latin1_space CHR 0x0A"
  by (simp_all add: latin1_space_def)

lemma clean_rtrim:
  assumes "clean_line l"
  shows "clean_line (rtrim l)"
proof -
  obtain c cs where "l = c # cs" using assms by (cases l) (auto simp: clean_line_def)
  moreover have "set (rtrim l) \<subseteq> set l" by (auto simp: rtrim_def dest: set_dropWhileD)
  ultimately show ?thesis using assms by (auto simp: clean_line_def rtrim_Cons)
qed

lemma unfold_clean: "list_all clean_line ls \<Longrightarrow> unfold_lines ls = ls"
proof -
  have "list_all clean_line ls \<Longrightarrow> foldl (\<lambda>lines it.
     if latin1_space (hd it)
     then (if lines = [] then [] else butlast lines @ [last lines @ '' '' @ trimmed it])
     else lines @ [it]) acc ls = acc @ ls" for acc
    by (induction ls arbitrary: acc) (auto simp: clean_line_def)
  then show "list_all clean_line ls \<Longrightarrow> unfold_lines ls = ls" by (simp add: unfold_lines_def)
qed

lemma header_lines_text:
  assumes "list_all clean_line (ls @ [l])" "list_all latin1_space t"
  shows "header_lines (concat (map (\<lambda>l. l @ CRLF) (ls @ [l])) @ t) = ls @ [rtrim l]"
proof -
  let ?str = "concat (map (\<lambda>l. l @ CRLF) (ls @ [l])) @ t"
  obtain l0 r where str: "?str = l0 @ CRLF @ r" and l0: "clean_line l0"
    using assms by (cases ls) auto
  have "index_of (CHR 0x0A) 0 ?str = Some (length l0 + 1)"
    using l0 index_of_start(1) [of "CHR 0x0A" "l0 @ [CHR 0x0D]" r] unfolding str by (simp add: clean_line_def)
  moreover have "?str ! length l0 = CHR 0x0D" unfolding str by (simp add: nth_append)
  moreover have "trimmed ?str = concat (map (\<lambda>l. l @ CRLF) ls) @ rtrim l"
  proof -
    obtain c cs where "l0 = c # cs" using l0 by (cases l0) (auto simp: clean_line_def)
    then have "dropWhile latin1_space ?str = ?str" using l0 unfolding str by (simp add: clean_line_def)
    then have "trimmed ?str = rtrim ?str" by (simp add: trimmed_rtrim)
    also have "?str = concat (map (\<lambda>l. l @ CRLF) ls) @ l @ CRLF @ t" by simp
    finally show ?thesis using assms
      by (cases l) (auto simp add: rtrim_append rtrim_Cons clean_line_def)
  qed
  moreover have "list_all clean_line (ls @ [rtrim l])" using assms by (simp add: clean_rtrim)
  moreover from this have "filter (\<lambda>l. l \<noteq> []) (ls @ [rtrim l]) = ls @ [rtrim l]"
    by (auto simp: list_all_iff clean_line_def filter_id_conv)
  ultimately show ?thesis
    by (simp add: header_lines_def split_str_lines unfold_clean clean_line_def del: filter_append)
qed

lemma trimmed_ends:
  assumes "trimmed s = s" "s \<noteq> []"
  shows "\<not> latin1_space (hd s)" "rtrim s = s"
proof -
  have "length (trimmed s) \<le> length (dropWhile latin1_space s)"
    using length_dropWhile_le [of latin1_space "rev (dropWhile latin1_space s)"] by (simp add: trimmed_def)
  moreover have "length (dropWhile latin1_space s) < length s" if "latin1_space (hd s)"
    using that assms(2) length_dropWhile_le [of latin1_space "tl s"] by (cases s) auto
  ultimately show h: "\<not> latin1_space (hd s)" using assms by auto
  then show "rtrim s = s" using assms by (cases s) (auto simp: trimmed_rtrim)
qed

lemma trimmed_not_all_space: "trimmed s = s \<Longrightarrow> list_all latin1_space s \<Longrightarrow> s = []"
  using trimmed_ends(1) [of s] by (cases s) auto

lemma rtrim_idem: "rtrim (rtrim s) = rtrim s"
  by (simp add: rtrim_def)

lemma trimmed_blank [simp]: "trimmed (CHR '' '' # s) = trimmed s"
  by (simp add: trimmed_def latin1_space_def)

lemma trimmed_of_rtrim: "trimmed (rtrim s) = trimmed s"
proof (induction s)
  case (Cons c s)
  have "dropWhile latin1_space s = []" if "list_all latin1_space s"
    using that by (auto simp: list_all_iff dropWhile_eq_Nil_conv)
  moreover have "list_all latin1_space s \<Longrightarrow> rtrim s = []" using rtrim_append [of "[]" s] by simp
  ultimately show ?case using Cons by (auto simp: rtrim_Cons trimmed_rtrim rtrim_idem)
qed simp

lemma latin1_space_blank [simp]: "latin1_space (CHR '' '')"
  by (simp add: latin1_space_def)

lemma squeeze_word: "list_all (\<lambda>c. \<not> latin1_space c) p \<Longrightarrow> squeeze (p @ q) = p @ squeeze q"
  by (induction p) auto

lemma squeeze_blank: "q \<noteq> [] \<Longrightarrow> \<not> latin1_space (hd q) \<Longrightarrow> squeeze (CHR '' '' # q) = CHR '' '' # squeeze q"
  by simp

text \<open>Text that \<^verbatim>\<open>simplified\<close> leaves alone, and keys and values that reading back does not change.\<close>

definition plain_text :: "string \<Rightarrow> bool" where
  "plain_text s \<longleftrightarrow> trimmed s = s \<and> squeeze s = s \<and> CHR 0x0D \<notin> set s \<and> CHR 0x0A \<notin> set s"

definition plain_value :: "string \<times> string \<Rightarrow> bool" where
  "plain_value kv \<longleftrightarrow> trimmed (fst kv) = fst kv \<and> CHR '':'' \<notin> set (fst kv) \<and> trimmed (snd kv) = snd kv \<and>
     CHR 0x0D \<notin> set (fst kv @ snd kv) \<and> CHR 0x0A \<notin> set (fst kv @ snd kv)"

definition plain_response :: "http_response_header \<Rightarrow> bool" where
  "plain_response h \<longleftrightarrow> hhValid h \<and> hrMajorVersion h \<in> {0..9} \<and> hrMinorVersion h \<in> {0..9} \<and>
     0 \<le> hrStatusCode h \<and> hrStatusCode h < 2 ^ 31 \<and> plain_text (hrReasonPhrase h) \<and>
     CHR ''%'' \<notin> set (hrReasonPhrase h) \<and> list_all plain_value (hhValues h)"

definition value_line :: "string \<times> string \<Rightarrow> string" where
  "value_line kv = fst kv @ '': '' @ snd kv"

lemma hh_text_lines: "hh_text kvs = concat (map (\<lambda>l. l @ CRLF) (map value_line kvs))"
  by (induction kvs) (auto simp: hh_text_def value_line_def)

lemma clean_value_line:
  assumes "plain_value kv"
  shows "clean_line (value_line kv)"
proof (cases "fst kv = []")
  case False
  then show ?thesis using assms trimmed_ends(1) [of "fst kv"]
    by (cases "fst kv") (auto simp: plain_value_def clean_line_def value_line_def)
qed (use assms in \<open>auto simp: plain_value_def clean_line_def value_line_def latin1_space_def\<close>)

lemma parse_value_line:
  assumes "plain_value kv"
  shows "hh_parseLine (value_line kv) h = (True, h\<lparr> hhValues := hhValues h @ [kv] \<rparr>)"
    and "hh_parseLine (rtrim (value_line kv)) h = (True, h\<lparr> hhValues := hhValues h @ [kv] \<rparr>)"
proof -
  have p: "hh_parseLine (fst kv @ CHR '':'' # w) h = (True, h\<lparr> hhValues := hhValues h @ [(fst kv, trimmed w)] \<rparr>)" for w
    using assms by (simp add: hh_parseLine_def index_of_start plain_value_def hh_addValue_def)
  have v: "trimmed (snd kv) = snd kv" using assms by (simp add: plain_value_def)
  show "hh_parseLine (value_line kv) h = (True, h\<lparr> hhValues := hhValues h @ [kv] \<rparr>)"
    using p [of "'' '' @ snd kv"] v by (simp add: value_line_def)
  have "\<not> latin1_space CHR '':''" by (simp add: latin1_space_def)
  then have "rtrim (value_line kv) = fst kv @ CHR '':'' # rtrim ('' '' @ snd kv)"
    by (simp add: value_line_def rtrim_append rtrim_Cons)
  then show "hh_parseLine (rtrim (value_line kv)) h = (True, h\<lparr> hhValues := hhValues h @ [kv] \<rparr>)"
    using p [of "rtrim ('' '' @ snd kv)"] v by (simp add: trimmed_of_rtrim)
qed

lemma parse_lines_append:
  "parse_lines pl n (ls @ ls') h =
     (case parse_lines pl n ls h of (True, h') \<Rightarrow> parse_lines pl (n + length ls) ls' h' | r \<Rightarrow> r)"
  by (induction pl n ls h rule: parse_lines.induct) (auto split: prod.splits bool.splits)

lemma parse_value_lines:
  "0 < n \<Longrightarrow> list_all plain_value kvs \<Longrightarrow>
   parse_lines hr_parseLine n (map value_line kvs) h = (True, h\<lparr> hhValues := hhValues h @ kvs \<rparr>)"
  by (induction kvs arbitrary: n h) (auto simp: hr_parseLine_def parse_value_line)

subsection \<open>Status lines\<close>

definition status_line :: "nat \<Rightarrow> nat \<Rightarrow> nat \<Rightarrow> string \<Rightarrow> string" where
  "status_line a b n r = ''HTTP/'' @ [digit a, CHR ''.'', digit b, CHR '' ''] @ dec n @ CHR '' '' # r"

lemma digit_no_space: "is_digit c \<Longrightarrow> \<not> latin1_space c"
  by (auto simp: is_digit_def latin1_space_def)

lemma not_space_HTTP: "list_all (\<lambda>c. \<not> latin1_space c) ''HTTP/.''"
  by (simp add: latin1_space_def)

lemma simplified_status_line:
  assumes "a < 10" "b < 10" "plain_text r"
  shows "simplified (status_line a b n r) =
      ''HTTP/'' @ [digit a, CHR ''.'', digit b, CHR '' ''] @ dec n @ (if r = [] then [] else CHR '' '' # r)"
    (is "_ = ?s")
proof -
  let ?p = "''HTTP/'' @ [digit a, CHR ''.'', digit b]"
  have p: "list_all (\<lambda>c. \<not> latin1_space c) ?p"
    using assms not_space_HTTP by (simp add: digit_no_space)
  have d: "list_all (\<lambda>c. \<not> latin1_space c) (dec n)"
    using dec_digits [of n] by (auto simp: list_all_iff digit_no_space)
  have r: "rtrim r = r" "r \<noteq> [] \<Longrightarrow> \<not> latin1_space (hd r)" "squeeze r = r" "list_all latin1_space r \<Longrightarrow> r = []"
    using assms(3) trimmed_ends [of r] trimmed_not_all_space [of r] by (cases "r = []"; auto simp: plain_text_def)+
  have dn: "\<not> list_all latin1_space (dec n)" "rtrim (dec n) = dec n"
  proof -
    show "\<not> list_all latin1_space (dec n)" using d by (cases "dec n") auto
    have "\<not> latin1_space (hd (rev (dec n)))" using d by (cases "dec n" rule: rev_cases) auto
    then show "rtrim (dec n) = dec n" by (cases "rev (dec n)") (auto simp: rtrim_def rev_swap)
  qed
  have front: "dropWhile latin1_space (status_line a b n r) = status_line a b n r"
    by (simp add: status_line_def latin1_space_def)
  have "rtrim ('' '' @ r) = (if r = [] then [] else CHR '' '' # r)" using r by (auto simp: rtrim_Cons)
  then have "trimmed (status_line a b n r) = ?s"
    unfolding trimmed_rtrim front unfolding status_line_def
    using dn r(4) by (auto simp: rtrim_append rtrim_Cons)
  moreover have "squeeze ?s = ?s"
  proof -
    have t: "squeeze (if r = [] then [] else CHR '' '' # r) = (if r = [] then [] else CHR '' '' # r)"
      using r(2,3) by simp
    have "squeeze (dec n @ x) = dec n @ squeeze x" for x by (rule squeeze_word [OF d])
    moreover have "squeeze (CHR '' '' # dec n @ x) = CHR '' '' # squeeze (dec n @ x)" for x
      using d by (intro squeeze_blank) (auto simp: list_all_iff)
    ultimately have "squeeze (?p @ CHR '' '' # dec n @ (if r = [] then [] else CHR '' '' # r)) =
        ?p @ CHR '' '' # dec n @ (if r = [] then [] else CHR '' '' # r)"
      by (simp only: squeeze_word [OF p] t)
    then show ?thesis by simp
  qed
  ultimately show ?thesis by (simp add: simplified_def)
qed

lemma statusLine_status_line:
  assumes "a < 10" "b < 10" "plain_text r" "n < 2 ^ 31" "simplified line = simplified (status_line a b n r)"
  shows "hr_statusLine line h = (True, h\<lparr> hrMajorVersion := int a, hrMinorVersion := int b, hrStatusCode := int n,
    hrReasonPhrase := r \<rparr>)"
proof -
  obtain c cs where dc: "dec n = c # cs" by (cases "dec n") auto
  then have c: "is_digit c" using dec_digits [of n] by simp
  have ns: "CHR '' '' \<notin> set (dec n)" by (rule dec_no_sep) (simp add: is_digit_def)
  let ?p = "''HTTP/'' @ [digit a, CHR ''.'', digit b, CHR '' '']"
  have l: "simplified line = ?p @ dec n @ (if r = [] then [] else CHR '' '' # r)"
    using assms by (simp add: simplified_status_line)
  have "length ?p = 9" by simp
  then have i: "index_of (CHR '' '') 9 (?p @ dec n @ CHR '' '' # r) = Some (9 + length (dec n))"
      "index_of (CHR '' '') 9 (?p @ dec n) = None"
    using ns index_of_found [of ?p 9] index_of_none [of ?p 9] by blast+
  show ?thesis
  proof (cases "r = []")
    case True
    then show ?thesis using assms(1,2) c i(2) to_int_dec [OF assms(4)] unfolding hr_statusLine_def l
      by (simp add: Let_def dc)
  next
    case False
    have "drop (11 + length cs) (?p @ (c # cs) @ CHR '' '' # r) = r" by (simp add: eval_nat_numeral)
    then show ?thesis using False assms(1,2) c i(1) to_int_dec [OF assms(4)] unfolding hr_statusLine_def l
      by (simp add: Let_def dc mid_def)
  qed
qed

subsection \<open>A response header and back\<close>

definition response_lines :: "http_response_header \<Rightarrow> string list" where
  "response_lines h = status_line (nat (hrMajorVersion h)) (nat (hrMinorVersion h)) (nat (hrStatusCode h)) (hrReasonPhrase h) #
     map value_line (hhValues h)"

definition response_text :: "http_response_header \<Rightarrow> string" where
  "response_text h = concat (map (\<lambda>l. l @ CRLF) (response_lines h))"

lemma hr_toString_lines:
  assumes "plain_response h"
  shows "hr_toString h = response_text h @ CRLF"
proof -
  have digits: "CHR ''%'' \<notin> set (dec n)" for n by (rule dec_no_sep) (simp add: is_digit_def)
  have one: "dec (nat i) = [digit (nat i)]" if "i \<in> {0..9}" for i
    using that by (subst dec.simps) auto
  have m: "dec_int i = dec (nat i)" if "0 \<le> i" for i using that by (simp add: dec_int_def)
  have a: "dec_int (hrMajorVersion h) = [digit (nat (hrMajorVersion h))]"
    "dec_int (hrMinorVersion h) = [digit (nat (hrMinorVersion h))]"
    "dec_int (hrStatusCode h) = dec (nat (hrStatusCode h))"
    using assms by (auto simp: plain_response_def m one)
  have p: "CHR ''%'' \<notin> set (dec_int (hrMajorVersion h))" "CHR ''%'' \<notin> set (dec_int (hrMinorVersion h))"
    "CHR ''%'' \<notin> set (dec_int (hrStatusCode h))" "CHR ''%'' \<notin> set (hrReasonPhrase h)"
    using assms digits by (auto simp: plain_response_def m)
  show ?thesis
    unfolding hr_toString_def qarg_status_line [OF p] unfolding a
    using assms by (simp add: hh_toString_def plain_response_def hh_text_lines response_text_def response_lines_def status_line_def)
qed

lemma clean_status_line:
  assumes "a < 10" "b < 10" "plain_text r"
  shows "clean_line (status_line a b n r)"
proof -
  have "c \<notin> set (dec n)" "c \<noteq> digit a" "c \<noteq> digit b" if "c \<in> {CHR 0x0D, CHR 0x0A}" for c
    using that assms by (auto intro!: dec_no_sep simp: is_digit_def dest: is_digit_digit [unfolded is_digit_def])
  from this [of "CHR 0x0D"] this [of "CHR 0x0A"] show ?thesis using assms(3)
    by (auto simp: clean_line_def status_line_def plain_text_def latin1_space_def)
qed

lemma simplified_rtrim: "simplified (rtrim s) = simplified s"
  by (simp add: simplified_def trimmed_of_rtrim)

lemma clean_response_lines:
  assumes "plain_response h"
  shows "list_all clean_line (response_lines h)"
  using assms clean_status_line [of "nat (hrMajorVersion h)" "nat (hrMinorVersion h)" "hrReasonPhrase h"]
  by (auto simp: plain_response_def response_lines_def list_all_iff clean_value_line)

text \<open>The lines of a header, with or without an empty line behind them, give the header.\<close>

lemma hr_new_text:
  assumes "plain_response h" "list_all latin1_space t"
  shows "hr_new fresh (response_text h @ t) = h"
proof -
  obtain a b n where ab: "a < 10" "b < 10" "n < 2 ^ 31" and h: "hrMajorVersion h = int a" "hrMinorVersion h = int b"
      "hrStatusCode h = int n"
    using assms(1) by (auto simp: plain_response_def
      intro: that [of "nat (hrMajorVersion h)" "nat (hrMinorVersion h)" "nat (hrStatusCode h)"])
  have r: "plain_text (hrReasonPhrase h)" and kvs: "list_all plain_value (hhValues h)" and valid: "hhValid h"
    using assms(1) by (simp_all add: plain_response_def)
  let ?l = "status_line a b n (hrReasonPhrase h)"
  let ?f = "fresh\<lparr> hhValues := [], hhValid := True, hrReasonPhrase := [] \<rparr>"
  have lines: "response_lines h = ?l # map value_line (hhValues h)" by (simp add: response_lines_def h)
  have first: "hr_parseLine 0 line g = (True, g\<lparr> hrMajorVersion := int a, hrMinorVersion := int b, hrStatusCode := int n,
      hrReasonPhrase := hrReasonPhrase h \<rparr>)" if "line = ?l \<or> line = rtrim ?l" for line and g :: http_response_header
    using that statusLine_status_line [OF ab(1,2) r ab(3)] by (auto simp: hr_parseLine_def simplified_rtrim)
  have whole: "?f\<lparr> hrMajorVersion := int a, hrMinorVersion := int b, hrStatusCode := int n,
      hrReasonPhrase := hrReasonPhrase h, hhValues := hhValues h \<rparr> = h"
    using valid h by (cases h) simp
  have neat: "list_all clean_line (?l # map value_line (hhValues h))"
    using clean_response_lines [OF assms(1)] by (simp add: lines)
  show ?thesis
  proof (cases "hhValues h" rule: rev_cases)
    case Nil
    then have "header_lines (response_text h @ t) = [rtrim ?l]"
      using header_lines_text [of "[]" ?l t] neat assms(2) by (simp add: response_text_def lines)
    moreover have "?f\<lparr> hrMajorVersion := int a, hrMinorVersion := int b, hrStatusCode := int n,
        hrReasonPhrase := hrReasonPhrase h \<rparr> = h"
      using valid h Nil by (cases h) simp
    ultimately show ?thesis using first [of "rtrim ?l"] by (simp add: hr_new_def hh_parse_def)
  next
    case (snoc kvs kv)
    then have "header_lines (response_text h @ t) = ?l # map value_line kvs @ [rtrim (value_line kv)]"
      using header_lines_text [of "?l # map value_line kvs" "value_line kv" t] neat assms(2)
      by (simp add: response_text_def lines)
    moreover have "list_all plain_value kvs" "plain_value kv" using kvs snoc by simp_all
    ultimately show ?thesis using first [of ?l] whole snoc
      by (simp add: hr_new_def hh_parse_def parse_lines_append parse_value_lines parse_value_line hr_parseLine_def [of "Suc _"])
  qed
qed

text \<open>
  C16. A response header that is written out and parsed again is the header itself, whatever the fresh
  object held: for a valid header with one-digit versions, a status code that is an \<^verbatim>\<open>int\<close> of at least
  0, a reason phrase with single blanks between its words and no per cent sign (a per cent sign would be
  taken for a place marker), and keys and values without line breaks and without spaces at their ends.\<close>

theorem response_header_round_trip:
  assumes "plain_response h"
  shows "hr_new fresh (hr_toString h) = h"
  unfolding hr_toString_lines [OF assms] by (rule hr_new_text [OF assms]) simp

theorem response_header_round_trip_witness:
  "hr_new \<lparr> hhValues = [(''x'', ''y'')], hhValid = False, hrStatusCode = 7, hrReasonPhrase = ''z'', hrMajorVersion = 3,
      hrMinorVersion = 4 \<rparr>
    (hr_toString (hr_setStatusLine 404 ''Not Found'' 1 1
      \<lparr> hhValues = [(''Content-Length'', ''12''), (''X-Empty'', [])], hhValid = False, hrStatusCode = 0, hrReasonPhrase = [],
        hrMajorVersion = 0, hrMinorVersion = 0 \<rparr>)) =
   \<lparr> hhValues = [(''Content-Length'', ''12''), (''X-Empty'', [])], hhValid = True, hrStatusCode = 404,
     hrReasonPhrase = ''Not Found'', hrMajorVersion = 1, hrMinorVersion = 1 \<rparr>"
  by (subst response_header_round_trip)
    (simp_all add: plain_response_def plain_text_def plain_value_def trimmed_def latin1_space_def hr_setStatusLine_def)

end
