(* ===== verification/Http_Ntlm.thy ===== *)
theory Http_Ntlm
  imports Http_Header
begin

text \<open>
  The NTLM messages of the HTTP authenticator (the second half of \<^verbatim>\<open>qhttp/qhttpauthenticator.cpp\<close>,
  without \<^verbatim>\<open>NTLMV1_CLIENT\<close>).  Octets are characters, a \<^verbatim>\<open>QString\<close> is its UTF-16 code units.  The hash
  functions, the case table and the clock are those of Qt: the record \<open>ntlm_env\<close>.
\<close>

type_synonym octets = string

record ntlm_env =
  neMd4 :: "octets \<Rightarrow> octets"
  neMd5 :: "octets \<Rightarrow> octets"
  neUpper :: "u16 list \<Rightarrow> u16 list"
  neNow :: nat
  neFill :: "nat \<Rightarrow> char"

subsection \<open>Data streams\<close>

definition octet :: "nat \<Rightarrow> char" where
  "octet n = char_of (n mod 256)"

definition le16 :: "nat \<Rightarrow> octets" where
  "le16 n = [octet n, octet (n div 2 ^ 8)]"

definition le32 :: "nat \<Rightarrow> octets" where
  "le32 n = le16 n @ le16 (n div 2 ^ 16)"

definition le64 :: "nat \<Rightarrow> octets" where
  "le64 n = le32 n @ le32 (n div 2 ^ 32)"

definition zeros :: "nat \<Rightarrow> octets" where
  "zeros n = replicate n (CHR 0x00)"

text \<open>Reading: a number that is cut off is 0.\<close>

definition get16 :: "octets \<Rightarrow> nat \<times> octets" where
  "get16 s = (case s of a # b # r \<Rightarrow> (of_char a + 2 ^ 8 * of_char b, r) | _ \<Rightarrow> (0, []))"

definition get32 :: "octets \<Rightarrow> nat \<times> octets" where
  "get32 s = (case s of a # b # c # d # r \<Rightarrow>
       (of_char a + 2 ^ 8 * of_char b + 2 ^ 16 * of_char c + 2 ^ 24 * of_char d, r) | _ \<Rightarrow> (0, []))"

text \<open>\<^verbatim>\<open>QByteArray::mid\<close>.\<close>

definition qba_mid :: "int \<Rightarrow> nat \<Rightarrow> octets \<Rightarrow> octets" where
  "qba_mid pos len s =
     (if int (length s) < pos then []
      else if pos < 0 then (if int (length s) \<le> pos + int len then s else take (nat (pos + int len)) s)
      else take len (drop (nat pos) s))"

definition to_int32 :: "nat \<Rightarrow> int" where
  "to_int32 n = (if n mod 2 ^ 32 < 2 ^ 31 then int (n mod 2 ^ 32) else int (n mod 2 ^ 32) - 2 ^ 32)"

definition utf16 :: "string \<Rightarrow> u16 list" where
  "utf16 s = map of_char s"

definition utf16_toLatin1 :: "u16 list \<Rightarrow> octets" where
  "utf16_toLatin1 s = map (\<lambda>u. if u < 256 then char_of (unat u) else CHR ''?'') s"

definition qStringAsUcs2Le :: "u16 list \<Rightarrow> octets" where
  "qStringAsUcs2Le s = concat (map (\<lambda>u. le16 (unat u)) s)"

fun qStringFromUcs2Le :: "octets \<Rightarrow> u16 list" where
  "qStringFromUcs2Le (a # b # r) = of_nat (of_char a + 2 ^ 8 * of_char b) # qStringFromUcs2Le r"
| "qStringFromUcs2Le _ = []"

subsection \<open>Blocks\<close>

definition NTLMSSP_NEGOTIATE_UNICODE :: nat where "NTLMSSP_NEGOTIATE_UNICODE = 0x00000001"
definition NTLMSSP_NEGOTIATE_OEM :: nat where "NTLMSSP_NEGOTIATE_OEM = 0x00000002"
definition NTLMSSP_REQUEST_TARGET :: nat where "NTLMSSP_REQUEST_TARGET = 0x00000004"
definition NTLMSSP_NEGOTIATE_NTLM :: nat where "NTLMSSP_NEGOTIATE_NTLM = 0x00000200"
definition AVTIMESTAMP :: nat where "AVTIMESTAMP = 7"

definition ntlm_magic :: octets where
  "ntlm_magic = ''NTLMSSP'' @ [CHR 0x00]"

record ntlm_buffer =
  nbLen :: nat
  nbMaxLen :: nat
  nbOffset :: nat

definition no_buffer :: ntlm_buffer where
  "no_buffer = \<lparr> nbLen = 0, nbMaxLen = 0, nbOffset = 0 \<rparr>"

definition put_buffer :: "ntlm_buffer \<Rightarrow> octets" where
  "put_buffer b = le16 (nbLen b) @ le16 (nbMaxLen b) @ le32 (nbOffset b)"

definition get_buffer :: "octets \<Rightarrow> ntlm_buffer \<times> octets" where
  "get_buffer s =
     (let (l, s) = get16 s; (m, s) = get16 s; (off, s) = get32 s
      in (\<lparr> nbLen = l, nbMaxLen = m, nbOffset = off \<rparr>, s))"

definition qStreamNtlmString :: "u16 list \<Rightarrow> bool \<Rightarrow> octets" where
  "qStreamNtlmString s unicode = (if \<not> unicode then utf16_toLatin1 s else concat (map (\<lambda>u. le16 (unat u)) s))"

text \<open>Descriptors start at even offsets; the result is the offset behind the data.\<close>

definition qEncodeNtlmBuffer :: "nat \<Rightarrow> octets \<Rightarrow> ntlm_buffer \<times> nat" where
  "qEncodeNtlmBuffer offset s =
     (let b = \<lparr> nbLen = length s mod 2 ^ 16, nbMaxLen = length s mod 2 ^ 16, nbOffset = 2 * ((offset + 1) div 2) \<rparr>
      in (b, nbOffset b + nbLen b))"

definition qEncodeNtlmString :: "nat \<Rightarrow> u16 list \<Rightarrow> bool \<Rightarrow> ntlm_buffer \<times> nat" where
  "qEncodeNtlmString offset s unicode =
     (if \<not> unicode then qEncodeNtlmBuffer offset (utf16_toLatin1 s)
      else
        let b = \<lparr> nbLen = 2 * length s mod 2 ^ 16, nbMaxLen = 2 * length s mod 2 ^ 16, nbOffset = 2 * ((offset + 1) div 2) \<rparr>
        in (b, nbOffset b + nbLen b))"

text \<open>The first message, with nothing in it but its flags.\<close>

definition put_phase1 :: "nat \<Rightarrow> ntlm_buffer \<Rightarrow> ntlm_buffer \<Rightarrow> octets" where
  "put_phase1 flags domain workstation =
     ntlm_magic @ le32 1 @ le32 flags @ put_buffer domain @ put_buffer workstation"

definition qNtlmPhase1 :: octets where
  "qNtlmPhase1 =
     put_phase1 (NTLMSSP_NEGOTIATE_UNICODE + NTLMSSP_NEGOTIATE_NTLM + NTLMSSP_REQUEST_TARGET) no_buffer no_buffer"

record ntlm_phase2 =
  n2Flags :: nat
  n2Challenge :: octets
  n2TargetName :: "u16 list"
  n2InfoLen :: nat
  n2InfoBuff :: octets

definition qNtlmDecodePhase2 :: "octets \<Rightarrow> ntlm_phase2 option" where
  "qNtlmDecodePhase2 d =
     (if length d < 48 \<or> take 8 d \<noteq> ntlm_magic then None
      else
        let (typ, s) = get32 (drop 8 d);
            (name, s) = get_buffer s;
            (flags, s) = get32 s;
            challenge = take 8 s;
            (info, s) = get_buffer (drop 16 s)
        in if typ \<noteq> 2 then None
           else if 0 < nbLen name \<and> length d \<le> (nbLen name + nbOffset name) mod 2 ^ 32 then None
           else if 0 < nbLen info \<and> length d < (nbLen info + nbOffset info) mod 2 ^ 32 then None
           else Some
             \<lparr> n2Flags = flags, n2Challenge = challenge,
               n2TargetName = (if 0 < nbLen name then qStringFromUcs2Le (qba_mid (to_int32 (nbOffset name)) (nbLen name) d) else []),
               n2InfoLen = nbLen info,
               n2InfoBuff = (if 0 < nbLen info then qba_mid (to_int32 (nbOffset info)) (nbLen info) d else []) \<rparr>)"

subsection \<open>Answers to a challenge\<close>

definition xor_octet :: "char \<Rightarrow> char \<Rightarrow> char" where
  "xor_octet a b = char_of ((of_char a :: nat) XOR of_char b)"

definition qEncodeHmacMd5 :: "ntlm_env \<Rightarrow> octets \<Rightarrow> octets \<Rightarrow> octets" where
  "qEncodeHmacMd5 env key message =
     (let key = (if 64 < length key then neMd5 env key else key);
          key = take 64 (key @ zeros (64 - length key));
          ipad = map2 xor_octet key (replicate 64 (CHR 0x36));
          opad = map2 xor_octet key (replicate 64 (CHR 0x5C));
          hMsg = neMd5 env (ipad @ message)
      in neMd5 env (opad @ hMsg))"

text \<open>The attribute list of the target: identifier, length, data, up to the identifier 0 or its end.\<close>

function qExtractServerTime :: "ntlm_env \<Rightarrow> octets \<Rightarrow> octets" where
  "qExtractServerTime env s =
     (let (avId, s1) = get16 s; (avLen, s2) = get16 s1
      in if avId = 0 then []
         else if avId = AVTIMESTAMP then take avLen s2 @ map (neFill env) [length s2..<avLen]
         else qExtractServerTime env (drop avLen s2))"
  by pat_completeness auto
termination
  by (relation "measure (\<lambda>(env, s). length s)") (auto simp: get16_def split: list.splits)

declare qExtractServerTime.simps [simp del]

definition qEncodeNtlmv2Response :: "ntlm_env \<Rightarrow> octets \<Rightarrow> octets \<Rightarrow> ntlm_phase2 \<Rightarrow> octets" where
  "qEncodeNtlmv2Response env v2Hash clientCh ch =
     (let timeArray = (if n2InfoLen ch \<noteq> 0 then qExtractServerTime env (n2InfoBuff ch) else []);
          temp = [CHR 0x01, CHR 0x01] @ zeros 6 @
            (if timeArray \<noteq> [] then timeArray
             else le64 ((neNow env mod 2 ^ 32 + 11644473600) mod 2 ^ 64 * 10000000 mod 2 ^ 64)) @
            clientCh @ zeros 4 @ (if 0 < n2InfoLen ch then n2InfoBuff ch else []) @ zeros 4
      in qEncodeHmacMd5 env v2Hash (n2Challenge ch @ temp) @ temp)"

definition qEncodeLmv2Response :: "ntlm_env \<Rightarrow> octets \<Rightarrow> octets \<Rightarrow> ntlm_phase2 \<Rightarrow> octets" where
  "qEncodeLmv2Response env v2Hash clientCh ch = qEncodeHmacMd5 env v2Hash (n2Challenge ch @ clientCh) @ clientCh"

text \<open>The credentials that the answer is made from.\<close>

record ntlm_user =
  nuUser :: "u16 list"
  nuPassword :: "u16 list"
  nuDomain :: "u16 list"
  nuWorkstation :: "u16 list"
  nuCnonce :: octets

definition clientChallenge :: "ntlm_user \<Rightarrow> octets" where
  "clientChallenge ctx = drop (length (nuCnonce ctx) - 8) (nuCnonce ctx)"

definition qCreatev2Hash :: "ntlm_env \<Rightarrow> ntlm_user \<Rightarrow> u16 list \<Rightarrow> octets" where
  "qCreatev2Hash env ctx domainStr =
     qEncodeHmacMd5 env (neMd4 env (qStringAsUcs2Le (nuPassword ctx)))
       (qStringAsUcs2Le (neUpper env (nuUser ctx)) @ qStringAsUcs2Le domainStr)"

text \<open>The third message: its descriptors and what they describe.\<close>

record ntlm_phase3 =
  n3LmResponse :: ntlm_buffer
  n3NtlmResponse :: ntlm_buffer
  n3Domain :: ntlm_buffer
  n3User :: ntlm_buffer
  n3Workstation :: ntlm_buffer
  n3SessionKey :: ntlm_buffer
  n3Flags :: nat
  n3LmResponseBuf :: octets
  n3NtlmResponseBuf :: octets
  n3DomainStr :: "u16 list"
  n3UserStr :: "u16 list"
  n3WorkstationStr :: "u16 list"

definition put_phase3 :: "ntlm_phase3 \<Rightarrow> octets" where
  "put_phase3 b =
     (let unicode = odd (n3Flags b)
      in ntlm_magic @ le32 3 @ put_buffer (n3LmResponse b) @ put_buffer (n3NtlmResponse b) @ put_buffer (n3Domain b) @
         put_buffer (n3User b) @ put_buffer (n3Workstation b) @ put_buffer (n3SessionKey b) @ le32 (n3Flags b) @
         qStreamNtlmString (n3DomainStr b) unicode @ qStreamNtlmString (n3UserStr b) unicode @
         qStreamNtlmString (n3WorkstationStr b) unicode @ n3LmResponseBuf b @ n3NtlmResponseBuf b)"

definition ntlm_phase3_block :: "ntlm_env \<Rightarrow> ntlm_user \<Rightarrow> ntlm_phase2 \<Rightarrow> ntlm_phase3" where
  "ntlm_phase3_block env ctx ch =
     (let unicode = odd (n2Flags ch);
          flags = NTLMSSP_NEGOTIATE_NTLM + (if unicode then NTLMSSP_NEGOTIATE_UNICODE else NTLMSSP_NEGOTIATE_OEM);
          domainStr = (if nuDomain ctx = [] \<and> of_char (CHR ''@'') \<notin> set (nuUser ctx) then n2TargetName ch else nuDomain ctx);
          (domain, offset) = qEncodeNtlmString 64 domainStr unicode;
          (user, offset) = qEncodeNtlmString offset (nuUser ctx) unicode;
          (workstation, offset) = qEncodeNtlmString offset (nuWorkstation ctx) unicode;
          v2Hash = qCreatev2Hash env ctx domainStr;
          lm = (if 0 < n2InfoLen ch then [] else qEncodeLmv2Response env v2Hash (clientChallenge ctx) ch);
          (lmResponse, offset) = qEncodeNtlmBuffer offset lm;
          nt = qEncodeNtlmv2Response env v2Hash (clientChallenge ctx) ch;
          (ntlmResponse, offset) = qEncodeNtlmBuffer offset nt
      in \<lparr> n3LmResponse = lmResponse, n3NtlmResponse = ntlmResponse, n3Domain = domain, n3User = user,
           n3Workstation = workstation, n3SessionKey = no_buffer, n3Flags = flags, n3LmResponseBuf = lm,
           n3NtlmResponseBuf = nt, n3DomainStr = domainStr, n3UserStr = nuUser ctx, n3WorkstationStr = nuWorkstation ctx \<rparr>)"

definition qNtlmPhase3 :: "ntlm_env \<Rightarrow> ntlm_user \<Rightarrow> octets \<Rightarrow> octets" where
  "qNtlmPhase3 env ctx phase2data =
     (case qNtlmDecodePhase2 phase2data of None \<Rightarrow> [] | Some ch \<Rightarrow> put_phase3 (ntlm_phase3_block env ctx ch))"

subsection \<open>Descriptors of the third message\<close>

text \<open>
  In a message with Unicode strings every descriptor tells where its data is: the data is written in the
  order of the offsets and all lengths are even.  Strings of an odd number of octets, as the other coding
  allows them, break this, because the offsets are rounded up and the data is not.
\<close>

definition described :: "octets \<Rightarrow> ntlm_buffer \<Rightarrow> octets" where
  "described m b = take (nbLen b) (drop (nbOffset b) m)"

lemma length_le: "length (le16 n) = 2" "length (le32 n) = 4"
  by (simp_all add: le16_def le32_def)

lemma length_put_buffer: "length (put_buffer b) = 8"
  by (simp add: put_buffer_def length_le)

lemma described_piece:
  "m = a @ x @ y \<Longrightarrow> nbOffset b = length a \<Longrightarrow> nbLen b = length x \<Longrightarrow> described m b = x"
  by (simp add: described_def)

lemma length_unicode: "length (qStreamNtlmString s True) = 2 * length s"
  by (induction s) (simp_all add: qStreamNtlmString_def length_le)

lemma encode_string_even:
  assumes "even offset" "2 * length s < 2 ^ 16"
  shows "qEncodeNtlmString offset s True =
    (\<lparr> nbLen = 2 * length s, nbMaxLen = 2 * length s, nbOffset = offset \<rparr>, offset + 2 * length s)"
  using assms by (auto simp: qEncodeNtlmString_def Let_def elim!: evenE)

lemma encode_buffer_even:
  assumes "even offset" "length s < 2 ^ 16"
  shows "qEncodeNtlmBuffer offset s = (\<lparr> nbLen = length s, nbMaxLen = length s, nbOffset = offset \<rparr>, offset + length s)"
  using assms by (auto simp: qEncodeNtlmBuffer_def Let_def elim!: evenE)

lemma phase3_descriptors:
  fixes env :: ntlm_env and ctx :: ntlm_user and ch :: ntlm_phase2
  defines "b \<equiv> ntlm_phase3_block env ctx ch"
  assumes unicode: "odd (n2Flags ch)"
    and small: "2 * length (n3DomainStr b) < 2 ^ 16" "2 * length (n3UserStr b) < 2 ^ 16" "2 * length (n3WorkstationStr b) < 2 ^ 16"
      "length (n3LmResponseBuf b) < 2 ^ 16" "length (n3NtlmResponseBuf b) < 2 ^ 16" "even (length (n3LmResponseBuf b))"
  shows "described (put_phase3 b) (n3Domain b) = qStreamNtlmString (n3DomainStr b) True"
    and "described (put_phase3 b) (n3User b) = qStreamNtlmString (n3UserStr b) True"
    and "described (put_phase3 b) (n3Workstation b) = qStreamNtlmString (n3WorkstationStr b) True"
    and "described (put_phase3 b) (n3LmResponse b) = n3LmResponseBuf b"
    and "described (put_phase3 b) (n3NtlmResponse b) = n3NtlmResponseBuf b"
proof -
  let ?d = "2 * length (n3DomainStr b)" and ?u = "2 * length (n3UserStr b)" and ?w = "2 * length (n3WorkstationStr b)"
    and ?l = "length (n3LmResponseBuf b)"
  have f: "odd (n3Flags b)"
    using unicode by (simp add: b_def ntlm_phase3_block_def Let_def case_prod_beta NTLMSSP_NEGOTIATE_NTLM_def NTLMSSP_NEGOTIATE_UNICODE_def)
  have bufs: "n3Domain b = fst (qEncodeNtlmString 64 (n3DomainStr b) True)"
      "n3User b = fst (qEncodeNtlmString (snd (qEncodeNtlmString 64 (n3DomainStr b) True)) (n3UserStr b) True)"
      "n3Workstation b = fst (qEncodeNtlmString (snd (qEncodeNtlmString (snd (qEncodeNtlmString 64 (n3DomainStr b) True))
         (n3UserStr b) True)) (n3WorkstationStr b) True)"
      "n3LmResponse b = fst (qEncodeNtlmBuffer (snd (qEncodeNtlmString (snd (qEncodeNtlmString (snd (qEncodeNtlmString 64
         (n3DomainStr b) True)) (n3UserStr b) True)) (n3WorkstationStr b) True)) (n3LmResponseBuf b))"
      "n3NtlmResponse b = fst (qEncodeNtlmBuffer (snd (qEncodeNtlmBuffer (snd (qEncodeNtlmString (snd (qEncodeNtlmString
         (snd (qEncodeNtlmString 64 (n3DomainStr b) True)) (n3UserStr b) True)) (n3WorkstationStr b) True)) (n3LmResponseBuf b)))
         (n3NtlmResponseBuf b))"
    using unicode by (simp_all add: b_def ntlm_phase3_block_def Let_def case_prod_beta)
  note d = encode_string_even [of 64, OF _ small(1), simplified]
  note u = encode_string_even [of "64 + ?d", OF _ small(2), simplified]
  note w = encode_string_even [of "64 + ?d + ?u", OF _ small(3), simplified]
  note l = encode_buffer_even [of "64 + ?d + ?u + ?w", OF _ small(4), simplified]
  note n = encode_buffer_even [of "64 + ?d + ?u + ?w + ?l", OF _ small(5), simplified, OF small(6)]
  let ?h = "ntlm_magic @ le32 3 @ put_buffer (n3LmResponse b) @ put_buffer (n3NtlmResponse b) @ put_buffer (n3Domain b) @
    put_buffer (n3User b) @ put_buffer (n3Workstation b) @ put_buffer (n3SessionKey b) @ le32 (n3Flags b)"
  have h: "length ?h = 64" by (simp add: length_put_buffer length_le ntlm_magic_def)
  have m: "put_phase3 b = ?h @ qStreamNtlmString (n3DomainStr b) True @ qStreamNtlmString (n3UserStr b) True @
      qStreamNtlmString (n3WorkstationStr b) True @ n3LmResponseBuf b @ n3NtlmResponseBuf b"
    using f by (simp add: put_phase3_def)
  note sizes = length_put_buffer length_le length_unicode ntlm_magic_def
  show "described (put_phase3 b) (n3Domain b) = qStreamNtlmString (n3DomainStr b) True"
    by (rule described_piece [of _ "?h" _ "qStreamNtlmString (n3UserStr b) True @ qStreamNtlmString (n3WorkstationStr b) True @ n3LmResponseBuf b @ n3NtlmResponseBuf b"])
      (simp_all only: m append_assoc append_Nil2, simp_all add: bufs(1) d u w l n sizes)
  show "described (put_phase3 b) (n3User b) = qStreamNtlmString (n3UserStr b) True"
    by (rule described_piece [of _ "?h @ qStreamNtlmString (n3DomainStr b) True" _ "qStreamNtlmString (n3WorkstationStr b) True @ n3LmResponseBuf b @ n3NtlmResponseBuf b"])
      (simp_all only: m append_assoc append_Nil2, simp_all add: bufs(2) d u w l n sizes)
  show "described (put_phase3 b) (n3Workstation b) = qStreamNtlmString (n3WorkstationStr b) True"
    by (rule described_piece [of _ "?h @ qStreamNtlmString (n3DomainStr b) True @ qStreamNtlmString (n3UserStr b) True" _ "n3LmResponseBuf b @ n3NtlmResponseBuf b"])
      (simp_all only: m append_assoc append_Nil2, simp_all add: bufs(3) d u w l n sizes)
  show "described (put_phase3 b) (n3LmResponse b) = n3LmResponseBuf b"
    by (rule described_piece [of _ "?h @ qStreamNtlmString (n3DomainStr b) True @ qStreamNtlmString (n3UserStr b) True @ qStreamNtlmString (n3WorkstationStr b) True" _ "n3NtlmResponseBuf b"])
      (simp_all only: m append_assoc append_Nil2, simp_all add: bufs(4) d u w l n sizes)
  show "described (put_phase3 b) (n3NtlmResponse b) = n3NtlmResponseBuf b"
    by (rule described_piece [of _ "?h @ qStreamNtlmString (n3DomainStr b) True @ qStreamNtlmString (n3UserStr b) True @ qStreamNtlmString (n3WorkstationStr b) True @ n3LmResponseBuf b" _ "[]"])
      (simp_all only: m append_assoc append_Nil2, simp_all add: bufs(5) d u w l n sizes)
qed

text \<open>Without Unicode, the data behind a string of odd length is one octet in front of its descriptor.\<close>

lemma odd_offset_gap:
  "odd offset \<Longrightarrow> nbOffset (fst (qEncodeNtlmBuffer offset s)) = offset + 1"
  by (auto simp: qEncodeNtlmBuffer_def Let_def elim!: oddE)

end
