(* ===== verification/Http_Authenticator.thy ===== *)
theory Http_Authenticator
  imports Http_Ntlm
begin

text \<open>
  The answers to requests for credentials (\<^verbatim>\<open>QHttpAuthenticatorPrivate\<close> in
  \<^verbatim>\<open>qhttp/qhttpauthenticator.cpp\<close>): which method a response asks for, the options of a challenge and
  the value of the header that answers it.
\<close>

subsection \<open>Methods\<close>

datatype auth_method = AuthNone | Basic | Plain | Login | Ntlm | CramMd5 | DigestMd5

fun method_rank :: "auth_method \<Rightarrow> nat" where
  "method_rank AuthNone = 0"
| "method_rank Basic = 1"
| "method_rank Plain = 2"
| "method_rank Login = 3"
| "method_rank Ntlm = 4"
| "method_rank CramMd5 = 5"
| "method_rank DigestMd5 = 6"

lemma method_rank_inject: "method_rank m = method_rank m' \<longleftrightarrow> m = m'"
  by (cases m; cases m') simp_all

instantiation auth_method :: linorder
begin

definition less_eq_auth_method :: "auth_method \<Rightarrow> auth_method \<Rightarrow> bool" where
  "less_eq_auth_method m m' \<longleftrightarrow> method_rank m \<le> method_rank m'"

definition less_auth_method :: "auth_method \<Rightarrow> auth_method \<Rightarrow> bool" where
  "less_auth_method m m' \<longleftrightarrow> method_rank m < method_rank m'"

instance
  by standard (auto simp: less_eq_auth_method_def less_auth_method_def method_rank_inject [symmetric])

end

datatype auth_phase = AuthStart | AuthPhase2 | AuthDone | AuthInvalid

record http_auth =
  haUser :: string
  haExtractedUser :: string
  haPassword :: string
  haOptions :: "string \<rightharpoonup> string"
  haMethod :: auth_method
  haRealm :: string
  haChallenge :: octets
  haPhase :: auth_phase
  haCnonce :: octets
  haNonceCount :: nat
  haWorkstation :: string
  haUserDomain :: string

definition ha_new :: "octets \<Rightarrow> http_auth" where
  "ha_new cnonce = \<lparr> haUser = [], haExtractedUser = [], haPassword = [], haOptions = Map.empty, haMethod = AuthNone,
     haRealm = [], haChallenge = [], haPhase = AuthStart, haCnonce = cnonce, haNonceCount = 0, haWorkstation = [],
     haUserDomain = [] \<rparr>"

text \<open>The owner of the shared data; \<open>None\<close> is the null authenticator.\<close>

definition ha_detach :: "octets \<Rightarrow> http_auth option \<Rightarrow> http_auth" where
  "ha_detach cnonce d = (case d of None \<Rightarrow> ha_new cnonce | Some a \<Rightarrow> a\<lparr> haPhase := AuthStart \<rparr>)"

definition ha_setUser :: "octets \<Rightarrow> string \<Rightarrow> http_auth option \<Rightarrow> http_auth option" where
  "ha_setUser cnonce user d =
     (let a = ha_detach cnonce d
      in Some (case haMethod a of
           Ntlm \<Rightarrow>
             (case index_of (CHR 0x5C) 0 user of
                Some pos \<Rightarrow> a\<lparr> haRealm := [], haUserDomain := take pos user, haExtractedUser := drop (pos + 1) user,
                  haUser := user \<rparr>
              | None \<Rightarrow> a\<lparr> haExtractedUser := user, haUser := user, haRealm := [], haUserDomain := [] \<rparr>)
         | _ \<Rightarrow> a\<lparr> haUser := user, haUserDomain := [] \<rparr>))"

definition ha_setPassword :: "octets \<Rightarrow> string \<Rightarrow> http_auth option \<Rightarrow> http_auth option" where
  "ha_setPassword cnonce password d = Some ((ha_detach cnonce d)\<lparr> haPassword := password \<rparr>)"

subsection \<open>Challenges\<close>

text \<open>
  A value up to the closing quotation mark or, without quotation marks, up to a comma; a backslash takes
  the next character as it is.
\<close>

fun challenge_value :: "bool \<Rightarrow> octets \<Rightarrow> octets \<times> octets" where
  "challenge_value quote [] = ([], [])"
| "challenge_value quote (c # cs) =
     (if c = CHR 0x5C \<and> cs \<noteq> [] then map_prod (Cons (hd cs)) id (challenge_value quote (tl cs))
      else if c = (if quote then CHR 0x22 else CHR '','') then ([], c # cs)
      else map_prod (Cons c) id (challenge_value quote cs))"

lemma challenge_value_rest: "length (snd (challenge_value quote s)) \<le> length s"
  by (induction quote s rule: challenge_value.induct) auto

function challenge_options :: "octets \<Rightarrow> (octets \<times> octets) list" where
  "challenge_options s =
     (let s = dropWhile (\<lambda>c. c \<in> {CHR '' '', CHR 0x0A, CHR 0x0D}) s;
          key = takeWhile (\<lambda>c. c \<noteq> CHR ''='') s;
          s = drop (length key + 1) s
      in if s = [] then []
         else
           let quote = (hd s = CHR 0x22);
               s = (if quote then tl s else s)
           in if s = [] then []
              else
                let (val, s) = challenge_value quote s
                in (key, val) # challenge_options (drop 1 (dropWhile (\<lambda>c. c \<noteq> CHR '','') s)))"
  by pat_completeness auto
termination
proof (relation "measure length", goal_cases)
  case (2 s x xa xb xc xd xe p y)
  have "length y \<le> length xd" using 2(8,9) challenge_value_rest [of xc xd] by (metis snd_conv)
  moreover have "length (dropWhile (\<lambda>c. c \<noteq> CHR '','') y) \<le> length y" by (rule length_dropWhile_le)
  moreover have "length xd \<le> length xb" unfolding 2(6) by simp
  moreover have "length x \<le> length s" unfolding 2(1) by (rule length_dropWhile_le)
  moreover have "length xb < length x" using 2(4) unfolding 2(3) by simp
  ultimately show ?case by simp
qed simp

declare challenge_options.simps [simp del]

text \<open>\<^verbatim>\<open>QHash\<close>: the last value of a key.\<close>

definition parseDigestAuthenticationChallenge :: "octets \<Rightarrow> octets \<rightharpoonup> octets" where
  "parseDigestAuthenticationChallenge challenge =
     (let options = map_of (rev (challenge_options challenge));
          qop = (case options ''qop'' of None \<Rightarrow> [] | Some v \<Rightarrow> v)
      in if qop \<noteq> [] then (if ''auth'' \<notin> set (split_on (CHR '','') qop) then Map.empty else options(''qop'' \<mapsto> ''auth''))
         else options)"

definition option_value :: "(octets \<rightharpoonup> octets) \<Rightarrow> octets \<Rightarrow> octets" where
  "option_value options k = (case options k of None \<Rightarrow> [] | Some v \<Rightarrow> v)"

text \<open>The text of a header as UTF-8, and the lower case of \<^verbatim>\<open>QByteArray\<close>.\<close>

definition toUtf8 :: "string \<Rightarrow> octets" where
  "toUtf8 s = concat (map (\<lambda>c. let n = of_char c :: nat
     in if n < 128 then [c] else [char_of (0xC0 + n div 64), char_of (0x80 + n mod 64)]) s)"

definition qba_toLower :: "octets \<Rightarrow> octets" where
  "qba_toLower s = map latin1_lower s"

definition qba_space :: "char \<Rightarrow> bool" where
  "qba_space c \<longleftrightarrow> (let n = of_char c :: nat in 9 \<le> n \<and> n \<le> 13 \<or> n = 32)"

definition qba_trimmed :: "octets \<Rightarrow> octets" where
  "qba_trimmed s = rev (dropWhile qba_space (rev (dropWhile qba_space s)))"

definition starts_with :: "octets \<Rightarrow> octets \<Rightarrow> bool" where
  "starts_with p s \<longleftrightarrow> take (length p) s = p"

text \<open>The strongest method that the headers offer, and the header value behind its name.\<close>

definition offered_method :: "octets \<Rightarrow> (octets \<times> octets) list \<Rightarrow> auth_method \<times> octets" where
  "offered_method search values =
     foldl (\<lambda>(method, headerVal) current.
       if qba_toLower (fst current) \<noteq> search then (method, headerVal)
       else
         let str = qba_toLower (snd current)
         in if method < Basic \<and> starts_with ''basic'' str then (Basic, drop 6 (snd current))
            else if method < Ntlm \<and> starts_with ''ntlm'' str then (Ntlm, drop 5 (snd current))
            else if method < DigestMd5 \<and> starts_with ''digest'' str then (DigestMd5, drop 7 (snd current))
            else (method, headerVal)) (AuthNone, []) values"

definition ha_parseHttpResponse :: "(string \<times> string) list \<Rightarrow> bool \<Rightarrow> http_auth \<Rightarrow> http_auth" where
  "ha_parseHttpResponse values isProxy a =
     (let (method, headerVal) = offered_method (if isProxy then ''proxy-authenticate'' else ''www-authenticate'')
            (map (\<lambda>(k, v). (k, toUtf8 v)) values);
          a = a\<lparr> haMethod := method, haChallenge := qba_trimmed headerVal \<rparr>;
          options = parseDigestAuthenticationChallenge (haChallenge a);
          realm = option_value options ''realm'';
          noUser = (haUser a = [] \<and> haPassword a = [])
      in case method of
           Basic \<Rightarrow>
             let a = a\<lparr> haRealm := realm, haOptions := (haOptions a)(''realm'' \<mapsto> realm) \<rparr>
             in (if noUser then a\<lparr> haPhase := AuthDone \<rparr> else a)
         | Ntlm \<Rightarrow> a
         | DigestMd5 \<Rightarrow>
             let a = a\<lparr> haRealm := realm, haOptions := (haOptions a)(''realm'' \<mapsto> realm) \<rparr>;
                 a = (if qba_toLower (option_value options ''stale'') = ''true'' then a\<lparr> haPhase := AuthStart \<rparr> else a)
             in (if noUser then a\<lparr> haPhase := AuthDone \<rparr> else a)
         | _ \<Rightarrow> a\<lparr> haRealm := [], haChallenge := [], haPhase := AuthInvalid \<rparr>)"

subsection \<open>Answers\<close>

definition base64_digit :: "nat \<Rightarrow> char" where
  "base64_digit n = ''ABCDEFGHIJKLMNOPQRSTUVWXYZabcdefghijklmnopqrstuvwxyz0123456789+/'' ! (n mod 64)"

fun toBase64 :: "octets \<Rightarrow> octets" where
  "toBase64 [] = []"
| "toBase64 [a] =
     (let n = of_char a * 2 ^ 16 :: nat in [base64_digit (n div 2 ^ 18), base64_digit (n div 2 ^ 12), CHR ''='', CHR ''=''])"
| "toBase64 [a, b] =
     (let n = of_char a * 2 ^ 16 + of_char b * 2 ^ 8 :: nat
      in [base64_digit (n div 2 ^ 18), base64_digit (n div 2 ^ 12), base64_digit (n div 2 ^ 6), CHR ''=''])"
| "toBase64 (a # b # c # r) =
     (let n = of_char a * 2 ^ 16 + of_char b * 2 ^ 8 + of_char c :: nat
      in [base64_digit (n div 2 ^ 18), base64_digit (n div 2 ^ 12), base64_digit (n div 2 ^ 6), base64_digit n] @ toBase64 r)"

definition base64_value :: "char \<Rightarrow> nat option" where
  "base64_value c = find (\<lambda>n. base64_digit n = c) [0..<64]"

text \<open>\<^verbatim>\<open>fromBase64\<close> skips what is not a digit and drops bits that do not make an octet.\<close>

fun base64_octets :: "nat list \<Rightarrow> octets" where
  "base64_octets (a # b # c # d # r) =
     (let n = a * 2 ^ 18 + b * 2 ^ 12 + c * 2 ^ 6 + d in [octet (n div 2 ^ 16), octet (n div 2 ^ 8), octet n] @ base64_octets r)"
| "base64_octets [a, b, c] = (let n = a * 2 ^ 18 + b * 2 ^ 12 + c * 2 ^ 6 in [octet (n div 2 ^ 16), octet (n div 2 ^ 8)])"
| "base64_octets [a, b] = [octet ((a * 2 ^ 18 + b * 2 ^ 12) div 2 ^ 16)]"
| "base64_octets _ = []"

definition fromBase64 :: "octets \<Rightarrow> octets" where
  "fromBase64 s = base64_octets (List.map_filter base64_value s)"

fun hexDigits :: "nat \<Rightarrow> octets" where
  "hexDigits n = (if n < 16 then [''0123456789abcdef'' ! n] else hexDigits (n div 16) @ [''0123456789abcdef'' ! (n mod 16)])"

declare hexDigits.simps [simp del]

definition toHex :: "octets \<Rightarrow> octets" where
  "toHex s = concat (map (\<lambda>c. let n = of_char c :: nat in [''0123456789abcdef'' ! (n div 16), ''0123456789abcdef'' ! (n mod 16)]) s)"

definition digestMd5ResponseHelper ::
    "ntlm_env \<Rightarrow> octets \<Rightarrow> octets \<Rightarrow> octets \<Rightarrow> octets \<Rightarrow> octets \<Rightarrow> octets \<Rightarrow> octets \<Rightarrow> octets \<Rightarrow> octets \<Rightarrow> octets \<Rightarrow>
     octets \<Rightarrow> octets" where
  "digestMd5ResponseHelper env alg userName realm password nonce nonceCount cNonce qop meth digestUri hEntity =
     (let ha1 = neMd5 env (userName @ '':'' @ realm @ '':'' @ password);
          ha1 = (if qba_toLower alg = ''md5-sess'' then neMd5 env (toHex ha1 @ '':'' @ nonce @ '':'' @ cNonce) else ha1);
          ha1 = toHex ha1;
          ha2hex = toHex (neMd5 env (meth @ '':'' @ digestUri @ (if qba_toLower qop = ''auth-int'' then '':'' @ hEntity else [])))
      in toHex (neMd5 env (ha1 @ '':'' @ nonce @ '':'' @
           (if qop \<noteq> [] then nonceCount @ '':'' @ cNonce @ '':'' @ qop @ '':'' else []) @ ha2hex)))"

definition digestMd5Response :: "ntlm_env \<Rightarrow> octets \<Rightarrow> octets \<Rightarrow> http_auth \<Rightarrow> octets \<times> http_auth" where
  "digestMd5Response env meth path a =
     (let options = parseDigestAuthenticationChallenge (haChallenge a);
          q = (\<lambda>s. [CHR 0x22] @ s @ [CHR 0x22]);
          a = a\<lparr> haNonceCount := haNonceCount a + 1 \<rparr>;
          count = hexDigits (haNonceCount a);
          count = replicate (8 - length count) (CHR ''0'') @ count;
          val = option_value options;
          response = digestMd5ResponseHelper env (val ''algorithm'') (haUser a) (haRealm a) (haPassword a) (val ''nonce'') count
            (haCnonce a) (val ''qop'') meth path []
      in (''username='' @ q (haUser a) @ '', '' @ ''realm='' @ q (haRealm a) @ '', '' @ ''nonce='' @ q (val ''nonce'') @ '', '' @
          ''uri='' @ q path @ '', '' @
          (if val ''opaque'' \<noteq> [] then ''opaque='' @ q (val ''opaque'') @ '', '' else []) @
          ''response='' @ q response @
          (if val ''algorithm'' \<noteq> [] then '', algorithm='' @ val ''algorithm'' else []) @
          (if val ''qop'' \<noteq> [] then '', qop='' @ val ''qop'' @ '', '' @ ''nc='' @ count @ '', '' @ ''cnonce='' @ q (haCnonce a)
           else []), a))"

definition contains :: "octets \<Rightarrow> octets \<Rightarrow> bool" where
  "contains p s \<longleftrightarrow> list_ex (\<lambda>i. starts_with p (drop i s)) [0..<length s + 1]"

definition ntlm_user_of :: "http_auth \<Rightarrow> ntlm_user" where
  "ntlm_user_of a = \<lparr> nuUser = utf16 (haExtractedUser a), nuPassword = utf16 (haPassword a), nuDomain = utf16 (haUserDomain a),
     nuWorkstation = utf16 (haWorkstation a), nuCnonce = haCnonce a \<rparr>"

definition ha_calculateResponse :: "ntlm_env \<Rightarrow> octets \<Rightarrow> octets \<Rightarrow> http_auth \<Rightarrow> octets \<times> http_auth" where
  "ha_calculateResponse env requestMethod path a =
     (case haMethod a of
        AuthNone \<Rightarrow> ([], a\<lparr> haPhase := AuthDone \<rparr>)
      | Plain \<Rightarrow> ([CHR 0x00] @ toUtf8 (haUser a) @ [CHR 0x00] @ toUtf8 (haPassword a), a\<lparr> haPhase := AuthDone \<rparr>)
      | Basic \<Rightarrow> (''Basic '' @ toBase64 (haUser a @ '':'' @ haPassword a), a\<lparr> haPhase := AuthDone \<rparr>)
      | Login \<Rightarrow>
          if contains ''VXNlciBOYW1lAA=='' (haChallenge a) then (toBase64 (toUtf8 (haUser a)), a\<lparr> haPhase := AuthPhase2 \<rparr>)
          else if contains ''UGFzc3dvcmQA'' (haChallenge a) then (toBase64 (toUtf8 (haPassword a)), a\<lparr> haPhase := AuthDone \<rparr>)
          else ([], a)
      | CramMd5 \<Rightarrow> ([], a)
      | DigestMd5 \<Rightarrow>
          let (response, a) = digestMd5Response env requestMethod path a
          in (''Digest '' @ response, a\<lparr> haPhase := AuthDone \<rparr>)
      | Ntlm \<Rightarrow>
          if haChallenge a = []
          then (''NTLM '' @ toBase64 qNtlmPhase1, a\<lparr> haPhase := (if haUser a = [] then AuthDone else AuthPhase2) \<rparr>)
          else (''NTLM '' @ toBase64 (qNtlmPhase3 env (ntlm_user_of a) (fromBase64 (haChallenge a))), a\<lparr> haPhase := AuthDone \<rparr>))"

subsection \<open>A challenge and back\<close>

text \<open>A challenge as a server writes it, with quotation marks and backslashes escaped.\<close>

definition escaped :: "octets \<Rightarrow> octets" where
  "escaped v = concat (map (\<lambda>c. if c \<in> {CHR 0x22, CHR 0x5C} then [CHR 0x5C, c] else [c]) v)"

definition challenge_item :: "octets \<times> octets \<Rightarrow> octets" where
  "challenge_item kv = fst kv @ [CHR ''='', CHR 0x22] @ escaped (snd kv) @ [CHR 0x22]"

fun challenge_text :: "(octets \<times> octets) list \<Rightarrow> octets" where
  "challenge_text [] = []"
| "challenge_text [kv] = challenge_item kv"
| "challenge_text (kv # kvs) = challenge_item kv @ '', '' @ challenge_text kvs"

definition challenge_key :: "octets \<Rightarrow> bool" where
  "challenge_key k \<longleftrightarrow> k \<noteq> [] \<and> CHR ''='' \<notin> set k \<and> hd k \<notin> {CHR '' '', CHR 0x0A, CHR 0x0D}"

lemma challenge_value_escaped: "challenge_value True (escaped v @ CHR 0x22 # r) = (v, CHR 0x22 # r)"
  by (induction v) (auto simp: escaped_def)

lemma challenge_options_item:
  assumes "challenge_key k"
  shows "challenge_options (challenge_item (k, v) @ r) =
      (k, v) # challenge_options (drop 1 (dropWhile (\<lambda>c. c \<noteq> CHR '','') r))"
    and "challenge_options (CHR '' '' # s) = challenge_options s"
proof -
  obtain c cs where k: "k = c # cs" using assms by (cases k) (auto simp: challenge_key_def)
  have tw: "takeWhile (\<lambda>c. c \<noteq> CHR ''='') (k @ CHR ''='' # x) = k" for x
    using assms by (subst takeWhile_append2) (auto simp: challenge_key_def)
  have "dropWhile (\<lambda>c. c \<in> {CHR '' '', CHR 0x0A, CHR 0x0D}) (k @ x) = k @ x" for x
    using assms unfolding k by (simp add: challenge_key_def)
  then show "challenge_options (challenge_item (k, v) @ r) =
      (k, v) # challenge_options (drop 1 (dropWhile (\<lambda>c. c \<noteq> CHR '','') r))"
    by (subst challenge_options.simps) (simp add: challenge_item_def tw challenge_value_escaped Let_def)
  show "challenge_options (CHR '' '' # s) = challenge_options s"
    by (subst (1 2) challenge_options.simps) simp
qed

lemma challenge_options_Nil [simp]: "challenge_options [] = []"
  by (subst challenge_options.simps) simp

lemma challenge_read_back:
  "list_all (challenge_key \<circ> fst) kvs \<Longrightarrow> challenge_options (challenge_text kvs) = kvs"
proof (induction kvs rule: challenge_text.induct)
  case (2 kv)
  then show ?case using challenge_options_item(1) [of "fst kv" "snd kv" "[]"] by simp
next
  case (3 kv kv' kvs)
  then show ?case using challenge_options_item(1) [of "fst kv" "snd kv" "'', '' @ challenge_text (kv' # kvs)"]
    by (simp add: challenge_options_item(2) [of "fst kv"])
qed simp

text \<open>
  Without credentials every request for a password ends in an error, except for the first one with
  NTLM, which is answered with the first message of that method.
\<close>

lemma no_user_phase:
  assumes "haUser a = []" "haPassword a = []" "haPhase a = AuthStart"
  shows "haPhase (ha_parseHttpResponse kvs isProxy a) =
    (case haMethod (ha_parseHttpResponse kvs isProxy a) of
       Ntlm \<Rightarrow> AuthStart | Basic \<Rightarrow> AuthDone | DigestMd5 \<Rightarrow> AuthDone | _ \<Rightarrow> AuthInvalid)"
proof -
  let ?s = "if isProxy then ''proxy-authenticate'' else ''www-authenticate''"
  obtain m v where m: "offered_method ?s (map (\<lambda>(k, v). (k, toUtf8 v)) kvs) = (m, v)" by fastforce
  show ?thesis unfolding ha_parseHttpResponse_def m using assms by (cases m) (simp_all add: Let_def)
qed

end
