(* ===== verification/Http_Client.thy ===== *)
theory Http_Client
  imports Http_Authenticator
begin

text \<open>
  The HTTP client (\<^verbatim>\<open>QHttp\<close> and \<^verbatim>\<open>QHttpPrivate\<close> in \<^verbatim>\<open>qhttp/qhttp.cpp\<close>): the queue of requests, the
  connection, the reader of responses and the sender of request bodies.  There is no TLS.  The
  socket is its state, the octets that it has received, those that were written to it and the number of
  them that are not sent yet; to close it takes effect at once.  The buffer of the body is the queue of
  bytes that \<open>Ring_Buffer\<close> shows the ring buffer to be.  A device that a body is read from is its content
  and a position in it, and a device that a body is written to is its content.  Only \<^verbatim>\<open>done\<close> has a slot, the function \<open>heDone\<close> of the
  environment; all signals are logged.
\<close>

subsection \<open>State\<close>

datatype http_state = Unconnected | HostLookup | Connecting | Sending | Reading | Connected | Closing

datatype http_error =
    HttpNoError
  | UnknownError
  | HostNotFound
  | ConnectionRefused
  | UnexpectedClose
  | InvalidResponseHeader
  | WrongContentLength
  | Aborted
  | AuthenticationRequiredError
  | ProxyAuthenticationRequiredError

datatype socket_error =
    ConnectionRefusedError
  | HostNotFoundError
  | RemoteHostClosedError
  | SocketProxyAuthenticationRequired string
  | OtherSocketError

text \<open>
  The body of a request: none (a null device, or one that cannot be opened), an array, or a device.  The
  body of the response may go to a device.
\<close>

datatype http_data = NullData | ByteData octets | DeviceData octets

text \<open>A proxy of Qt.\<close>

datatype proxy_type = DefaultProxy | NoProxy | HttpProxy | HttpCachingProxy | OtherProxy

record http_proxy =
  pxType :: proxy_type
  pxHost :: string
  pxPort :: nat
  pxUser :: string
  pxPassword :: string

definition proxy_default :: http_proxy where
  "proxy_default = \<lparr> pxType = DefaultProxy, pxHost = [], pxPort = 0, pxUser = [], pxPassword = [] \<rparr>"

datatype http_request_kind =
    PGHRequest http_request_header http_data "octets option"
  | NormalRequest http_request_header http_data "octets option"
  | SetHostRequest string nat
  | SetUserRequest string string
  | SetProxyRequest http_proxy
  | CloseRequest

record http_request =
  rqId :: nat
  rqFinished :: bool
  rqKind :: http_request_kind

datatype http_signal =
    StateChanged http_state
  | ResponseHeaderReceived http_response_header
  | ReadyRead
  | DataSendProgress int int
  | DataReadProgress int int
  | RequestStarted nat
  | RequestFinished nat bool
  | Done bool

text \<open>Queued invocations.\<close>

datatype http_call = CallStartNextRequest | CallDoFinished | CallSendRequest | CallContinuePost

datatype socket_state = NoSocket | SockUnconnected | SockConnecting | SockConnected

record http_client =
  hcSocket :: socket_state
  hcOpen :: bool
  hcPeer :: "string \<times> nat"
  hcIn :: octets
  hcSent :: octets
  hcToWrite :: nat
  hcReconnectAttempts :: int
  hcPending :: "http_request list"
  hcNextId :: nat
  hcState :: http_state
  hcError :: http_error
  hcErrorString :: string
  hcHostName :: "string option"
  hcPort :: nat
  hcBuffer :: octets
  hcToDevice :: "octets option"
  hcPostDevice :: "(octets \<times> nat) option"
  hcBytesDone :: int
  hcBytesTotal :: int
  hcChunkedSize :: int
  hcHeader :: http_request_header
  hcReadHeader :: bool
  hcHeaderStr :: string
  hcResponse :: http_response_header
  hcRba :: octets
  hcAuthenticator :: "http_auth option"
  hcProxyAuthenticator :: "http_auth option"
  hcProxy :: http_proxy
  hcRepost :: bool
  hcPendingPost :: bool
  hcContinueTimer :: bool
  hcHasFinishedWithError :: bool
  hcCalls :: "http_call list"
  hcOut :: "http_signal list"

text \<open>
  The clock and the hashes of Qt, the memory of a new response header, the proxy of the application, the
  absolute URL of a path at a host and a port (0 for none), and the slot.  A device cannot be
  read where \<open>heReadFails\<close> says so, and \<open>heWrite\<close> is the result of writing to one (-1 for an error).
\<close>

record http_env = ntlm_env +
  heCnonce :: octets
  heFresh :: http_response_header
  heApplicationProxy :: http_proxy
  heUrl :: "string \<Rightarrow> nat \<Rightarrow> string \<Rightarrow> string"
  heReadFails :: "octets \<Rightarrow> nat \<Rightarrow> bool"
  heWrite :: "octets \<Rightarrow> octets \<Rightarrow> int"
  heDone :: "bool \<Rightarrow> http_client \<Rightarrow> http_client"

definition hc_emit :: "http_signal \<Rightarrow> http_client \<Rightarrow> http_client" where
  "hc_emit sig h = h\<lparr> hcOut := hcOut h @ [sig] \<rparr>"

definition hc_invoke :: "http_call \<Rightarrow> http_client \<Rightarrow> http_client" where
  "hc_invoke c h = h\<lparr> hcCalls := hcCalls h @ [c] \<rparr>"

definition hc_setState :: "http_state \<Rightarrow> http_client \<Rightarrow> http_client" where
  "hc_setState s h = hc_emit (StateChanged s) (h\<lparr> hcState := s \<rparr>)"

text \<open>A new client, with the memory of the members that are not initialised.\<close>

definition hc_new :: "http_client \<Rightarrow> string \<Rightarrow> nat \<Rightarrow> http_client" where
  "hc_new fresh host port =
     fresh\<lparr> hcSocket := NoSocket, hcOpen := False, hcIn := [], hcSent := [], hcToWrite := 0, hcReconnectAttempts := 2, hcPending := [],
       hcState := Unconnected, hcError := HttpNoError, hcErrorString := ''Unknown error'', hcHostName := Some host,
       hcPort := (if port mod 2 ^ 16 = 0 then 80 else port mod 2 ^ 16), hcBuffer := [],
       hcToDevice := None, hcPostDevice := None, hcBytesDone := 0,
       hcChunkedSize := -1, hcHeaderStr := [], hcRba := [], hcAuthenticator := None, hcProxyAuthenticator := None, hcProxy := proxy_default,
       hcRepost := False, hcPendingPost := False, hcContinueTimer := False, hcCalls := [CallDoFinished], hcOut := [] \<rparr>"

definition hc_bytesAvailable :: "http_client \<Rightarrow> int" where
  "hc_bytesAvailable h = int (length (hcRba h))"

definition hc_read :: "nat \<Rightarrow> http_client \<Rightarrow> octets \<times> http_client" where
  "hc_read maxlen h =
     (let n = min maxlen (length (hcRba h))
      in (take n (hcRba h), h\<lparr> hcRba := drop n (hcRba h), hcBytesDone := hcBytesDone h + int n \<rparr>))"

definition hc_readAll :: "http_client \<Rightarrow> octets \<times> http_client" where
  "hc_readAll h = hc_read (length (hcRba h)) h"

subsection \<open>The end of a request\<close>

definition hc_finishedWithError :: "http_env \<Rightarrow> string \<Rightarrow> http_error \<Rightarrow> http_client \<Rightarrow> http_client" where
  "hc_finishedWithError env detail code h =
     (case hcPending h of
        [] \<Rightarrow> h
      | r # rs \<Rightarrow>
          let h = h\<lparr> hcHasFinishedWithError := True, hcError := code, hcErrorString := detail \<rparr>;
              h = (if \<not> rqFinished r then hc_emit (RequestFinished (rqId r) True) (h\<lparr> hcPending := r\<lparr> rqFinished := True \<rparr> # rs \<rparr>)
                   else h);
              h = h\<lparr> hcPending := [] \<rparr>
          in heDone env (hcHasFinishedWithError h) (hc_emit (Done (hcHasFinishedWithError h)) h))"

text \<open>\<^verbatim>\<open>_q_slotClosed\<close>.\<close>

definition hc_slotClosed :: "http_env \<Rightarrow> http_client \<Rightarrow> http_client" where
  "hc_slotClosed env h =
     (let h1 =
        (if hcState h = Reading then
           (if hh_hasKey ''content-length'' (hcResponse h) \<and>
               hcBytesDone h + hc_bytesAvailable h \<noteq> int (hh_contentLength (hcResponse h))
            then hc_finishedWithError env ''Wrong content length'' WrongContentLength h else h)
         else if hcState h \<in> {Connecting, Sending}
         then hc_finishedWithError env ''Server closed connection unexpectedly'' UnexpectedClose h
         else h);
        h1 = h1\<lparr> hcPostDevice := None \<rparr>;
        h2 = (if hcState h1 \<noteq> Closing then hc_setState Closing h1 else h1)
      in hc_invoke CallDoFinished h2)"

text \<open>
  \<^verbatim>\<open>QAbstractSocket\<close>: to close a connection empties the buffers and emits \<^verbatim>\<open>disconnected\<close>, to which
  \<open>slot\<close> is connected unless the signals are blocked; \<^verbatim>\<open>abort\<close> does nothing without a connection.
\<close>

definition sock_close :: "(http_client \<Rightarrow> http_client) \<Rightarrow> http_client \<Rightarrow> http_client" where
  "sock_close slot h =
     (let h' = h\<lparr> hcOpen := False, hcIn := [], hcToWrite := 0, hcSocket := SockUnconnected \<rparr>
      in if hcSocket h = SockConnected then slot h' else h')"

definition sock_abort :: "(http_client \<Rightarrow> http_client) \<Rightarrow> http_client \<Rightarrow> http_client" where
  "sock_abort slot h = (if hcSocket h \<in> {NoSocket, SockUnconnected} then h else sock_close slot h)"

definition sock_connectToHost :: "string \<Rightarrow> nat \<Rightarrow> http_client \<Rightarrow> http_client" where
  "sock_connectToHost host port h =
     h\<lparr> hcSocket := SockConnecting, hcOpen := True, hcIn := [], hcToWrite := 0, hcPeer := (host, port) \<rparr>"

definition hc_closeConn :: "http_env \<Rightarrow> http_client \<Rightarrow> http_client" where
  "hc_closeConn env h =
     (if hcState h \<in> {Closing, Unconnected} then h
      else
        let h = hc_setState Closing (h\<lparr> hcPostDevice := None \<rparr>)
        in if hcSocket h = NoSocket \<or> \<not> hcOpen h then hc_invoke CallDoFinished h
           else sock_close (hc_slotClosed env) h)"

subsection \<open>Sending\<close>

text \<open>\<^verbatim>\<open>write\<close> of the socket.\<close>

definition sock_write :: "octets \<Rightarrow> http_client \<Rightarrow> http_client" where
  "sock_write s h = h\<lparr> hcSent := hcSent h @ s, hcToWrite := hcToWrite h + length s \<rparr>"

text \<open>
  \<^verbatim>\<open>_q_slotConnected\<close>: the body in a device follows later, and only after an answer or two seconds where
  the header expects \<^verbatim>\<open>100-continue\<close>.
\<close>

definition expects_continue :: "http_request_header \<Rightarrow> bool" where
  "expects_continue header \<longleftrightarrow> contains ''100-continue'' (toLower (hh_value ''expect'' header))"

definition hc_slotConnected :: "http_client \<Rightarrow> http_client" where
  "hc_slotConnected h =
     (let h = (if hcState h \<noteq> Sending then hc_setState Sending (h\<lparr> hcBytesDone := 0 \<rparr>) else h);
          str = hq_toString (hcHeader h);
          h = sock_write str (h\<lparr> hcBytesTotal := int (length str) \<rparr>)
      in case hcPostDevice h of
           None \<Rightarrow> sock_write (hcBuffer h) (h\<lparr> hcBytesTotal := hcBytesTotal h + int (length (hcBuffer h)) \<rparr>)
         | Some (content, pos) \<Rightarrow>
             let h = h\<lparr> hcPostDevice := Some (content, 0), hcBytesTotal := hcBytesTotal h + int (length content) \<rparr>
             in if expects_continue (hcHeader h) then h\<lparr> hcPendingPost := True, hcContinueTimer := True \<rparr> else h)"

text \<open>
  \<^verbatim>\<open>_q_slotSendRequest\<close>: the proxy that is used, whether the request goes through it, and the request as
  such a proxy expects it.
\<close>

definition used_proxy :: "http_env \<Rightarrow> http_client \<Rightarrow> http_proxy" where
  "used_proxy env h = (if pxType (hcProxy h) = DefaultProxy then heApplicationProxy env else hcProxy h)"

definition hc_chooseProxy :: "http_env \<Rightarrow> http_client \<Rightarrow> bool \<times> http_client" where
  "hc_chooseProxy env h =
     (let px = used_proxy env h
      in if pxType px \<in> {HttpCachingProxy, HttpProxy}
         then if pxHost px = [] then (False, h\<lparr> hcProxy := px\<lparr> pxType := NoProxy \<rparr> \<rparr>)
              else (True, h\<lparr> hcProxy := px\<lparr> pxType := HttpCachingProxy \<rparr> \<rparr>)
         else (False, h\<lparr> hcProxy := px \<rparr>))"

definition hc_proxyRequest :: "http_env \<Rightarrow> string \<Rightarrow> http_client \<Rightarrow> http_client" where
  "hc_proxyRequest env host h =
     (let header = hcHeader h;
          request = heUrl env host (if hcPort h \<noteq> 0 \<and> hcPort h \<noteq> 80 then hcPort h else 0) (hqPath header);
          header = hq_setRequest (hqMethod header) request (hqMajorVersion header) (hqMinorVersion header) header;
          header = hh_setValue ''Proxy-Connection'' ''keep-alive'' header;
          h = h\<lparr> hcHeader := header \<rparr>
      in case hcProxyAuthenticator h of
           None \<Rightarrow> h
         | Some a \<Rightarrow>
             if haMethod a = AuthNone then h
             else
               let (response, a) = ha_calculateResponse (ntlm_env.truncate env) (hqMethod header) (hqPath header) a
               in h\<lparr> hcProxyAuthenticator := Some a, hcHeader := hh_setValue ''Proxy-Authorization'' response header \<rparr>)"

definition hc_authorize :: "http_env \<Rightarrow> http_client \<Rightarrow> http_client" where
  "hc_authorize env h =
     (case hcAuthenticator h of
        None \<Rightarrow> h
      | Some a \<Rightarrow>
          if haMethod a = AuthNone then h
          else
            let (response, a) = ha_calculateResponse (ntlm_env.truncate env) (hqMethod (hcHeader h)) (hqPath (hcHeader h)) a
            in h\<lparr> hcAuthenticator := Some a, hcHeader := hh_setValue ''Authorization'' response (hcHeader h) \<rparr>)"

definition hc_slotSendRequest :: "http_env \<Rightarrow> http_client \<Rightarrow> http_client" where
  "hc_slotSendRequest env h =
     (case hcHostName h of
        None \<Rightarrow> hc_finishedWithError env ''No server set to connect to'' UnknownError h
      | Some host \<Rightarrow>
          let (cachingProxyInUse, h) = hc_chooseProxy env h;
              h = (if cachingProxyInUse then hc_proxyRequest env host h else h);
              connection = (if cachingProxyInUse then (pxHost (hcProxy h), pxPort (hcProxy h)) else (host, hcPort h));
              h = hc_authorize env h
          in if hcPeer h \<noteq> connection \<or> hcSocket h \<noteq> SockConnected
             then sock_connectToHost (fst connection) (snd connection) (hc_setState Connecting (sock_abort id h))
             else hc_slotConnected h)"

subsection \<open>Starting requests\<close>

text \<open>\<^verbatim>\<open>QHttpNormalRequest::start\<close>: a socket is made if there is none.\<close>

definition hc_startNormal ::
    "http_env \<Rightarrow> http_request_header \<Rightarrow> http_data \<Rightarrow> octets option \<Rightarrow> http_client \<Rightarrow> http_client" where
  "hc_startNormal env header data to h =
     (let h = (if hcSocket h = NoSocket then h\<lparr> hcSocket := SockUnconnected, hcOpen := False \<rparr> else h);
          h = h\<lparr> hcHeader := header \<rparr>;
          h = (case data of
                 ByteData b \<Rightarrow>
                   h\<lparr> hcBuffer := b, hcHeader := hh_setContentLength (int (length b)) (hcHeader h), hcPostDevice := None \<rparr>
               | DeviceData c \<Rightarrow>
                   h\<lparr> hcBuffer := [], hcPostDevice := Some (c, 0),
                      hcHeader := hh_setContentLength (int (length c)) (hcHeader h) \<rparr>
               | NullData \<Rightarrow> h\<lparr> hcBuffer := [], hcPostDevice := None \<rparr>)
      in hc_slotSendRequest env (h\<lparr> hcToDevice := to, hcReconnectAttempts := 2 \<rparr>))"

text \<open>\<^verbatim>\<open>QHttpPGHRequest::start\<close> sets the header \<^verbatim>\<open>Host\<close> of the request itself.\<close>

definition host_value :: "http_client \<Rightarrow> string" where
  "host_value h =
     (let host = (case hcHostName h of None \<Rightarrow> [] | Some s \<Rightarrow> s)
      in if hcPort h \<noteq> 0 \<and> hcPort h \<noteq> 80 then host @ '':'' @ dec (hcPort h) else host)"

definition hc_startPGH ::
    "http_env \<Rightarrow> http_request_header \<Rightarrow> http_data \<Rightarrow> octets option \<Rightarrow> http_client \<Rightarrow> http_client" where
  "hc_startPGH env header data to h =
     (let header = hh_setValue ''Host'' (host_value h) header
      in hc_startNormal env header data to
           (h\<lparr> hcPending := (hd (hcPending h))\<lparr> rqKind := PGHRequest header data to \<rparr> # tl (hcPending h) \<rparr>))"

text \<open>What the requests without a response set, before they end.\<close>

definition hc_startSetHost :: "string \<Rightarrow> nat \<Rightarrow> http_client \<Rightarrow> http_client" where
  "hc_startSetHost host port h = h\<lparr> hcHostName := Some host, hcPort := port \<rparr>"

definition hc_startSetUser :: "http_env \<Rightarrow> string \<Rightarrow> string \<Rightarrow> http_client \<Rightarrow> http_client" where
  "hc_startSetUser env user password h =
     h\<lparr> hcAuthenticator := ha_setPassword (heCnonce env) password (ha_setUser (heCnonce env) user (hcAuthenticator h)) \<rparr>"

definition hc_startSetProxy :: "http_env \<Rightarrow> http_proxy \<Rightarrow> http_client \<Rightarrow> http_client" where
  "hc_startSetProxy env px h =
     (let d = hcProxyAuthenticator h;
          d = (if pxUser px \<noteq> [] then ha_setUser (heCnonce env) (pxUser px) d else d);
          d = (if pxPassword px \<noteq> [] then ha_setPassword (heCnonce env) (pxPassword px) d else d)
      in h\<lparr> hcProxy := px, hcProxyAuthenticator := d \<rparr>)"

text \<open>\<^verbatim>\<open>_q_startNextRequest\<close> up to the request itself, and the end of a request up to the next one.\<close>

definition hc_prepareNext :: "http_client \<Rightarrow> http_client" where
  "hc_prepareNext h =
     (let h = h\<lparr> hcError := HttpNoError, hcErrorString := ''Unknown error'' \<rparr>;
          h = (if hc_bytesAvailable h \<noteq> 0 then snd (hc_readAll h) else h)
      in hc_emit (RequestStarted (rqId (hd (hcPending h)))) h)"

definition hc_removeFinished :: "http_client \<Rightarrow> http_client" where
  "hc_removeFinished h =
     (let r = hd (hcPending h);
          h = hc_emit (RequestFinished (rqId r) False)
            (h\<lparr> hcPending := r\<lparr> rqFinished := True \<rparr> # tl (hcPending h), hcHasFinishedWithError := False \<rparr>)
      in h\<lparr> hcPending := tl (hcPending h) \<rparr>)"

lemma prepareNext_pending [simp]: "hcPending (hc_prepareNext h) = hcPending h"
  by (simp add: hc_prepareNext_def hc_emit_def hc_readAll_def hc_read_def Let_def)

lemma removeFinished_pending [simp]: "hcPending (hc_removeFinished h) = tl (hcPending h)"
  by (simp add: hc_removeFinished_def hc_emit_def Let_def)

function hc_startNextRequest :: "http_env \<Rightarrow> http_client \<Rightarrow> http_client"
  and hc_finishedWithSuccess :: "http_env \<Rightarrow> http_client \<Rightarrow> http_client" where
  "hc_startNextRequest env h =
     (case hcPending h of
        [] \<Rightarrow> h
      | r # rs \<Rightarrow>
          let h1 = hc_prepareNext h
          in (case rqKind r of
                PGHRequest header data to \<Rightarrow> hc_startPGH env header data to h1
              | NormalRequest header data to \<Rightarrow> hc_startNormal env header data to h1
              | SetHostRequest host port \<Rightarrow>
                  hc_finishedWithSuccess env (hc_startSetHost host port h1)
              | SetUserRequest user password \<Rightarrow>
                  hc_finishedWithSuccess env (hc_startSetUser env user password h1)
              | SetProxyRequest px \<Rightarrow> hc_finishedWithSuccess env (hc_startSetProxy env px h1)
              | CloseRequest \<Rightarrow> hc_closeConn env h1))"
| "hc_finishedWithSuccess env h =
     (if hcPending h = [] \<or> rqFinished (hd (hcPending h)) then h
      else
        let h1 = hc_removeFinished h
        in if hcPending h1 = [] then heDone env False (hc_emit (Done False) h1) else hc_startNextRequest env h1)"
  by pat_completeness auto
termination
  by (relation "measure (case_sum (\<lambda>(_, h). 2 * length (hcPending h)) (\<lambda>(_, h). 2 * length (hcPending h) - 1))")
    (auto simp: neq_Nil_conv hc_startSetHost_def hc_startSetUser_def hc_startSetProxy_def Let_def)

declare hc_startNextRequest.simps [simp del] hc_finishedWithSuccess.simps [simp del]

text \<open>\<^verbatim>\<open>_q_slotDoFinished\<close>.\<close>

definition hc_slotDoFinished :: "http_env \<Rightarrow> http_client \<Rightarrow> http_client" where
  "hc_slotDoFinished env h =
     (if hcState h = Connected then hc_finishedWithSuccess env h
      else if hcState h \<noteq> Unconnected then hc_finishedWithSuccess env (hc_setState Unconnected h)
      else h)"

subsection \<open>Reading a header\<close>

definition LF :: char where
  "LF = CHR 0x0A"

text \<open>\<^verbatim>\<open>canReadLine\<close> and \<^verbatim>\<open>readLine\<close> of the socket.\<close>

definition first_line :: "octets \<Rightarrow> octets \<times> octets" where
  "first_line s = (takeWhile (\<lambda>c. c \<noteq> LF) s @ [LF], tl (dropWhile (\<lambda>c. c \<noteq> LF) s))"

lemma first_line_length: "LF \<in> set s \<Longrightarrow> length (snd (first_line s)) < length s"
  unfolding first_line_def
  using length_dropWhile_le [of "\<lambda>c. c \<noteq> LF" s] by (cases "dropWhile (\<lambda>c. c \<noteq> LF) s") (auto simp: dropWhile_eq_Nil_conv)

text \<open>Lines up to an empty one: whether it came, the rest of the input, and the lines so far.\<close>

function header_input :: "octets \<Rightarrow> string \<Rightarrow> bool \<times> octets \<times> string" where
  "header_input s hs =
     (if LF \<notin> set s then (False, s, hs)
      else
        let (tmp, rest) = first_line s
        in if tmp \<in> {CRLF, [LF], []} then (True, rest, hs) else header_input rest (hs @ tmp))"
  by pat_completeness auto
termination
  by (relation "measure (\<lambda>(s, hs). length s)") (auto dest!: first_line_length simp: prod_eq_iff)

declare header_input.simps [simp del]

lemma header_input_length: "fst (header_input s hs) \<Longrightarrow> length (fst (snd (header_input s hs))) < length s"
proof (induction s hs rule: header_input.induct)
  case (1 s hs)
  show ?case
  proof (cases "LF \<in> set s")
    case True
    obtain tmp rest where l: "first_line s = (tmp, rest)" by fastforce
    then have "length rest < length s" using first_line_length [OF True] by simp
    moreover have "fst (header_input rest (hs @ tmp)) \<Longrightarrow>
        length (fst (snd (header_input rest (hs @ tmp)))) < length rest" if "tmp \<notin> {CRLF, [LF], []}"
      using 1(1) True l that by metis
    ultimately show ?thesis using True l 1(2) by (subst (asm) (2) header_input.simps, subst header_input.simps) (auto split: if_splits)
  qed (use 1(2) in \<open>simp add: header_input.simps [of s]\<close>)
qed

text \<open>
  A response that asks for credentials: whether the handler ends there.  Nobody is connected to the
  signals that offer to change the credentials.
\<close>

definition hc_credentials :: "http_env \<Rightarrow> http_client \<Rightarrow> bool \<times> http_client" where
  "hc_credentials env h =
     (let proxy = (hrStatusCode (hcResponse h) = 407);
          auth = (case (if proxy then hcProxyAuthenticator h else hcAuthenticator h) of
            None \<Rightarrow> ha_new (heCnonce env) | Some a \<Rightarrow> a);
          auth = ha_parseHttpResponse (hhValues (hcResponse h)) proxy auth;
          h = (if proxy then h\<lparr> hcProxyAuthenticator := Some auth \<rparr> else h\<lparr> hcAuthenticator := Some auth \<rparr>)
      in case haPhase auth of
           AuthDone \<Rightarrow>
             (True, hc_closeConn env
               (if proxy then hc_finishedWithError env ''Proxy authentication required'' ProxyAuthenticationRequiredError h
                else hc_finishedWithError env ''Authentication required'' AuthenticationRequiredError h))
         | AuthInvalid \<Rightarrow>
             (True, hc_closeConn env (hc_finishedWithError env ''Unknown authentication method'' AuthenticationRequiredError h))
         | _ \<Rightarrow>
             if toLower (hh_value ''proxy-connection'' (hcResponse h)) = ''close'' \<or>
                toLower (hh_value ''connection'' (hcResponse h)) = ''close''
             then (True, hc_slotSendRequest env (sock_close id (hc_setState Closing h)))
             else (False, h\<lparr> hcRepost := True \<rparr>))"

text \<open>A complete response header other than 100: whether the body is to be read.\<close>

definition hc_responseHeader :: "http_env \<Rightarrow> http_client \<Rightarrow> bool \<times> http_client" where
  "hc_responseHeader env h =
     (let (stop, h) =
        (if hrStatusCode (hcResponse h) \<in> {401, 407} then hc_credentials env h else (False, h\<lparr> hcBuffer := [] \<rparr>))
      in if stop then (False, h)
         else
           let h = h\<lparr> hcContinueTimer := False, hcPendingPost := False, hcReadHeader := False \<rparr>;
               h = (if hh_hasKey ''transfer-encoding'' (hcResponse h) \<and>
                      contains ''chunked'' (toLower (hh_value ''transfer-encoding'' (hcResponse h)))
                    then h\<lparr> hcChunkedSize := 0 \<rparr> else h);
               h = (if \<not> hcRepost h then hc_emit (ResponseHeaderReceived (hcResponse h)) h else h)
           in (hcState h \<notin> {Unconnected, Closing}, h))"

text \<open>
  The loop over headers; a response 100 that the body of the request waits for lets it be sent, and
  another one puts the old state back.
\<close>

function hc_readHeaders :: "http_env \<Rightarrow> http_state \<Rightarrow> http_client \<Rightarrow> bool \<times> http_client" where
  "hc_readHeaders env oldState h =
     (if \<not> hcReadHeader h then (True, h)
      else
        let (end, rest, hs) = header_input (hcIn h) (hcHeaderStr h);
            h1 = h\<lparr> hcIn := rest, hcHeaderStr := hs \<rparr>
        in if \<not> end then (False, h1)
           else
             let h2 = h1\<lparr> hcResponse := hr_new (heFresh env) hs, hcHeaderStr := [] \<rparr>
             in if \<not> hhValid (hcResponse h2)
                then (False, hc_closeConn env (hc_finishedWithError env ''Invalid HTTP response header'' InvalidResponseHeader h2))
                else if hrStatusCode (hcResponse h2) \<noteq> 100 then hc_responseHeader env h2
                else if hcPendingPost h2
                then (False, hc_invoke CallContinuePost (h2\<lparr> hcBuffer := [], hcContinueTimer := False \<rparr>))
                else hc_readHeaders env oldState (h2\<lparr> hcBuffer := [], hcState := oldState \<rparr>))"
  by pat_completeness auto
termination
  by (relation "measure (\<lambda>(env, s, h). length (hcIn h))") (auto simp: header_input_length prod_eq_iff)

declare hc_readHeaders.simps [simp del]

subsection \<open>Reading a body\<close>

definition hex_value :: "char \<Rightarrow> nat option" where
  "hex_value c =
     (let n = of_char c :: nat
      in if 48 \<le> n \<and> n \<le> 57 then Some (n - 48)
         else if 65 \<le> n \<and> n \<le> 70 then Some (n - 55)
         else if 97 \<le> n \<and> n \<le> 102 then Some (n - 87)
         else None)"

definition unhex :: "string \<Rightarrow> nat" where
  "unhex = foldl (\<lambda>a c. 16 * a + (case hex_value c of None \<Rightarrow> 0 | Some d \<Rightarrow> d)) 0"

text \<open>\<^verbatim>\<open>toInt(&ok, 16)\<close>: spaces at both ends, a sign, perhaps \<^verbatim>\<open>0x\<close>, digits, in the range of \<^verbatim>\<open>int\<close>.\<close>

definition hex_toInt :: "string \<Rightarrow> int option" where
  "hex_toInt s =
     (let t = trimmed s;
          (neg, ds) = (case t of [] \<Rightarrow> (False, [])
             | c # cs \<Rightarrow> if c = CHR ''-'' then (True, cs) else if c = CHR ''+'' then (False, cs) else (False, t));
          ds = (if take 2 ds \<in> {''0x'', ''0X''} then drop 2 ds else ds);
          v = (if neg then - int (unhex ds) else int (unhex ds))
      in if ds \<noteq> [] \<and> list_all (\<lambda>c. hex_value c \<noteq> None) ds \<and> - (2 ^ 31) \<le> v \<and> v < 2 ^ 31 then Some v else None)"

text \<open>The size of a chunk in front of extensions.\<close>

definition chunk_size :: "octets \<Rightarrow> int option" where
  "chunk_size line = hex_toInt (takeWhile (\<lambda>c. c \<noteq> CHR '';'') line)"

function read_trailer :: "octets \<Rightarrow> int \<times> octets" where
  "read_trailer s =
     (if LF \<notin> set s then (-2, s)
      else let (line, rest) = first_line s in if line \<in> {CRLF, [LF]} then (-1, rest) else read_trailer rest)"
  by pat_completeness auto
termination
  by (relation "measure length") (auto dest!: first_line_length simp: prod_eq_iff)

declare read_trailer.simps [simp del]

lemma read_trailer_length: "length (snd (read_trailer s)) \<le> length s"
proof (induction s rule: read_trailer.induct)
  case (1 s)
  obtain line rest where l: "first_line s = (line, rest)" by fastforce
  show ?case
  proof (cases "LF \<in> set s")
    case True
    then have "length rest < length s" using first_line_length [OF True] l by simp
    then show ?thesis using 1 True l by (subst read_trailer.simps) fastforce
  qed (simp add: read_trailer.simps [of s])
qed

text \<open>
  The loop over chunks, from the input, the rest of the chunk and the data so far; the size is 0
  before the line with the size of a chunk, -2 in the trailer and -1 behind it.
\<close>

datatype chunk_result = ChunkInvalid | ChunkMore | ChunkEnd

definition chunk_start :: "octets \<Rightarrow> int \<Rightarrow> (int \<times> octets) option" where
  "chunk_start s sz =
     (if sz \<noteq> 0 then Some (sz, s)
      else
        let (line, rest) = first_line s
        in map_option (\<lambda>k. (if k = 0 then -2 else k, rest)) (chunk_size line))"

definition chunk_read :: "octets \<Rightarrow> int \<Rightarrow> octets \<Rightarrow> (chunk_result \<times> octets \<times> int \<times> octets) + (octets \<times> int \<times> octets)" where
  "chunk_read s sz arr =
     (let n = int (length s);
          n' = (if n = sz \<or> n = sz + 1 then sz - 1 else n)
      in if n = 0 \<or> n' = 0 then Inl (ChunkMore, s, sz, arr)
         else
           let toRead = nat (if sz < 0 then n' else min n' sz);
               arr' = arr @ take toRead s;
               s' = drop toRead s;
               sz' = sz - int toRead
           in if sz' = 0 \<and> 2 \<le> n' - int toRead
              then (if take 2 s' \<noteq> CRLF then Inl (ChunkInvalid, drop 2 s', sz', arr') else Inr (drop 2 s', sz', arr'))
              else Inr (s', sz', arr'))"

definition chunk_step :: "octets \<Rightarrow> int \<Rightarrow> octets \<Rightarrow> (chunk_result \<times> octets \<times> int \<times> octets) + (octets \<times> int \<times> octets)" where
  "chunk_step s sz arr =
     (if sz = 0 \<and> LF \<notin> set s then Inl (ChunkMore, s, sz, arr)
      else case chunk_start s sz of
        None \<Rightarrow> Inl (ChunkInvalid, snd (first_line s), 0, arr)
      | Some (sz1, s1) \<Rightarrow>
          let (sz2, s2) = (if sz1 = -2 then read_trailer s1 else (sz1, s1))
          in if sz2 = -1 then Inl (ChunkEnd, s2, sz2, arr) else chunk_read s2 sz2 arr)"

lemma chunk_start_length:
  "chunk_start s sz = Some (k, r) \<Longrightarrow> \<not> (sz = 0 \<and> LF \<notin> set s) \<Longrightarrow> length r \<le> length s"
  using first_line_length [of s] by (auto simp: chunk_start_def split_beta split: if_splits)

lemma chunk_start_nonzero: "chunk_start s sz = Some (k, r) \<Longrightarrow> k \<noteq> 0"
  by (auto simp: chunk_start_def split_beta split: if_splits)

lemma read_trailer_size: "fst (read_trailer s) \<in> {-1, -2}"
proof (induction s rule: read_trailer.induct)
  case (1 s)
  obtain line rest where l: "first_line s = (line, rest)" by fastforce
  show ?case using 1 l by (subst read_trailer.simps) auto
qed

lemma chunk_read_length:
  assumes "chunk_read s sz arr = Inr (s', sz', arr')" "sz \<noteq> 0"
  shows "length s' < length s"
proof -
  define n where "n = int (length s)"
  define n' where "n' = (if n = sz \<or> n = sz + 1 then sz - 1 else n)"
  define toRead where "toRead = nat (if sz < 0 then n' else min n' sz)"
  have n: "n \<noteq> 0" "n' \<noteq> 0" "s' = drop toRead s \<or> s' = drop 2 (drop toRead s)"
    using assms(1) unfolding n_def n'_def toRead_def chunk_read_def Let_def by (auto split: if_split_asm)
  have "0 < n" using n(1) by (simp add: n_def)
  then have "0 < toRead" using assms(2) n(2) by (simp add: toRead_def n'_def split: if_split_asm)
  moreover have "0 < length s" using n(1) by (simp add: n_def)
  ultimately have "length (drop toRead s) < length s" "length (drop 2 (drop toRead s)) < length s"
    unfolding length_drop by linarith+
  then show ?thesis using n(3) by auto
qed

lemma chunk_step_length:
  assumes "chunk_step s sz arr = Inr (s', sz', arr')"
  shows "length s' < length s"
proof -
  obtain sz1 s1 where st: "chunk_start s sz = Some (sz1, s1)" and ns: "\<not> (sz = 0 \<and> LF \<notin> set s)"
    using assms by (auto simp: chunk_step_def split: if_splits option.splits)
  obtain sz2 s2 where tr: "(if sz1 = -2 then read_trailer s1 else (sz1, s1)) = (sz2, s2)" by fastforce
  have len: "length s2 \<le> length s" "sz2 \<noteq> 0"
    using chunk_start_length [OF st ns] chunk_start_nonzero [OF st] tr read_trailer_length [of s1] read_trailer_size [of s1]
    by (auto split: if_splits)
  have "chunk_read s2 sz2 arr = Inr (s', sz', arr')"
    using assms ns unfolding chunk_step_def st option.case prod.case tr Let_def by (auto split: if_split_asm)
  from chunk_read_length [OF this len(2)] len(1) show ?thesis by simp
qed

function chunk_loop :: "octets \<Rightarrow> int \<Rightarrow> octets \<Rightarrow> chunk_result \<times> octets \<times> int \<times> octets" where
  "chunk_loop s sz arr =
     (case chunk_step s sz arr of Inl result \<Rightarrow> result | Inr (s', sz', arr') \<Rightarrow> chunk_loop s' sz' arr')"
  by pat_completeness auto
termination
  by (relation "measure (\<lambda>(s, sz, arr). length s)") (auto dest: chunk_step_length)

declare chunk_loop.simps [simp del]

text \<open>\<^verbatim>\<open>_q_slotReadyRead\<close> behind the header.\<close>

definition hc_method :: "http_client \<Rightarrow> string" where
  "hc_method h =
     (case hcPending h of
        [] \<Rightarrow> []
      | r # _ \<Rightarrow> (case rqKind r of PGHRequest header _ _ \<Rightarrow> hqMethod header | NormalRequest header _ _ \<Rightarrow> hqMethod header | _ \<Rightarrow> []))"

text \<open>The octets that go to the device or to the buffer; the signals tell how much there is.\<close>

definition hc_store :: "http_env \<Rightarrow> octets \<Rightarrow> http_client \<Rightarrow> http_client" where
  "hc_store env arr h =
     (if arr = [] \<or> hcRepost h then h
      else
        let total = (if hh_hasContentLength (hcResponse h) then int (hh_contentLength (hcResponse h)) else 0)
        in case hcToDevice h of
             Some content \<Rightarrow>
               let written = heWrite env content arr;
                   h = h\<lparr> hcToDevice := Some (content @ take (nat written) arr) \<rparr>;
                   h = (if written = -1 \<or> written < int (length arr)
                        then hc_finishedWithError env ''Error writing response to device'' UnknownError h
                        else h\<lparr> hcBytesDone := hcBytesDone h + written \<rparr>)
               in hc_emit (DataReadProgress (hcBytesDone h) total) h
           | None \<Rightarrow>
               let h = h\<lparr> hcRba := hcRba h @ arr \<rparr>
               in hc_emit ReadyRead (hc_emit (DataReadProgress (hcBytesDone h + hc_bytesAvailable h) total) h))"

definition hc_everythingRead :: "http_env \<Rightarrow> http_client \<Rightarrow> http_client" where
  "hc_everythingRead env h =
     (if hcRepost h then hc_slotSendRequest env h
      else if toLower (hh_value ''connection'' (hcResponse h)) = ''close'' then hc_closeConn env h
      else hc_invoke CallDoFinished (hc_setState Connected h))"

definition hc_readBody :: "http_env \<Rightarrow> http_client \<Rightarrow> http_client" where
  "hc_readBody env h =
     (if hc_method h = ''HEAD'' \<or> hrStatusCode (hcResponse h) \<in> {304, 204, 205} then hc_everythingRead env h
      else if hcChunkedSize h \<noteq> -1 then
        (let (result, rest, sz, arr) = chunk_loop (hcIn h) (hcChunkedSize h) [];
             h = h\<lparr> hcIn := rest, hcChunkedSize := sz \<rparr>
         in case result of
              ChunkInvalid \<Rightarrow> hc_closeConn env (hc_finishedWithError env ''Invalid HTTP chunked body'' WrongContentLength h)
            | ChunkMore \<Rightarrow> hc_store env arr h
            | ChunkEnd \<Rightarrow> hc_everythingRead env (hc_store env arr h))
      else if hh_hasContentLength (hcResponse h) then
        (let cl = int (hh_contentLength (hcResponse h)); avail = int (length (hcIn h))
         in if hcRepost h \<and> avail < cl then h
            else
              let n = min (cl - hcBytesDone h) avail;
                  everythingRead = (hcBytesDone h + hc_bytesAvailable h + n = cl);
                  h = hc_store env (take (nat n) (hcIn h)) (h\<lparr> hcIn := drop (nat n) (hcIn h) \<rparr>)
              in if everythingRead then hc_everythingRead env h else h)
      else hc_store env (hcIn h) (h\<lparr> hcIn := [] \<rparr>))"

text \<open>\<^verbatim>\<open>_q_slotReadyRead\<close>.\<close>

definition hc_slotReadyRead :: "http_env \<Rightarrow> http_client \<Rightarrow> http_client" where
  "hc_slotReadyRead env h =
     (let oldState = hcState h;
          h = (if hcState h \<noteq> Reading
               then (hc_setState Reading h)\<lparr> hcReadHeader := True, hcHeaderStr := [], hcBytesDone := 0, hcChunkedSize := -1,
                      hcRepost := False \<rparr>
               else h);
          (go, h) = hc_readHeaders env oldState h
      in if go then hc_readBody env h else h)"

subsection \<open>Errors of the socket\<close>

definition hc_slotError :: "http_env \<Rightarrow> socket_error \<Rightarrow> http_client \<Rightarrow> http_client" where
  "hc_slotError env err h =
     (let h = h\<lparr> hcPostDevice := None \<rparr>
      in if hcState h \<notin> {Connecting, Reading, Sending} then hc_closeConn env h
      else
        case err of
          ConnectionRefusedError \<Rightarrow>
            hc_closeConn env (hc_finishedWithError env ''Connection refused (or timed out)'' ConnectionRefused h)
        | HostNotFoundError \<Rightarrow>
            hc_closeConn env (hc_finishedWithError env (qarg ''Host %1 not found'' (fst (hcPeer h))) HostNotFound h)
        | RemoteHostClosedError \<Rightarrow>
            if hcState h = Sending then
              (let attempts = hcReconnectAttempts h; h = h\<lparr> hcReconnectAttempts := attempts - 1 \<rparr>
               in if attempts \<noteq> 0
                  then hc_invoke CallSendRequest (sock_abort id (hc_setState Unconnected (hc_setState Closing h)))
                  else hc_closeConn env h)
            else hc_closeConn env h
        | SocketProxyAuthenticationRequired detail \<Rightarrow>
            hc_closeConn env (hc_finishedWithError env detail ProxyAuthenticationRequiredError h)
        | OtherSocketError \<Rightarrow> hc_closeConn env (hc_finishedWithError env ''HTTP request failed'' UnknownError h))"

subsection \<open>The body of a request\<close>

text \<open>\<^verbatim>\<open>postMoreData\<close>: the next piece of the device, when all is sent that was written before.\<close>

definition hc_postMoreData :: "http_env \<Rightarrow> http_client \<Rightarrow> http_client" where
  "hc_postMoreData env h =
     (if hcPendingPost h then h
      else
        case hcPostDevice h of
          None \<Rightarrow> h
        | Some (content, pos) \<Rightarrow>
            if hcToWrite h \<noteq> 0 then h
            else if heReadFails env content pos then hc_closeConn env h
            else
              let arr = take (min 4096 (length content - pos)) (drop pos content);
                  pos = pos + length arr
              in sock_write arr (h\<lparr> hcPostDevice := (if pos = length content then None else Some (content, pos)) \<rparr>))"

text \<open>\<^verbatim>\<open>_q_slotBytesWritten\<close> and \<^verbatim>\<open>_q_continuePost\<close>.\<close>

definition hc_slotBytesWritten :: "http_env \<Rightarrow> nat \<Rightarrow> http_client \<Rightarrow> http_client" where
  "hc_slotBytesWritten env written h =
     (let h = h\<lparr> hcBytesDone := hcBytesDone h + int written \<rparr>
      in hc_postMoreData env (hc_emit (DataSendProgress (hcBytesDone h) (hcBytesTotal h)) h))"

definition hc_continuePost :: "http_env \<Rightarrow> http_client \<Rightarrow> http_client" where
  "hc_continuePost env h =
     (if hcPendingPost h then hc_slotBytesWritten env 0 (hc_setState Sending (h\<lparr> hcPendingPost := False \<rparr>)) else h)"

subsection \<open>Requests of the program\<close>

definition hc_enqueue :: "http_request_kind \<Rightarrow> http_client \<Rightarrow> http_client" where
  "hc_enqueue kind h =
     (let h = h\<lparr> hcPending := hcPending h @ [\<lparr> rqId = hcNextId h, rqFinished = False, rqKind = kind \<rparr>],
                hcNextId := hcNextId h + 1 \<rparr>
      in if length (hcPending h) = 1 then hc_invoke CallStartNextRequest h else h)"

text \<open>\<^verbatim>\<open>addRequest\<close>: a request with an empty path asks for the root.\<close>

definition root_path :: "http_request_header \<Rightarrow> http_request_header" where
  "root_path header =
     (if hqPath header = []
      then hq_setRequest (hqMethod header) ''/'' (hqMajorVersion header) (hqMinorVersion header) header else header)"

fun hc_addRequest :: "http_request_kind \<Rightarrow> http_client \<Rightarrow> http_client" where
  "hc_addRequest (PGHRequest header data to) h = hc_enqueue (PGHRequest (root_path header) data to) h"
| "hc_addRequest (NormalRequest header data to) h = hc_enqueue (NormalRequest (root_path header) data to) h"
| "hc_addRequest kind h = hc_enqueue kind h"

definition keep_alive_header :: "string \<Rightarrow> string \<Rightarrow> http_request_header" where
  "keep_alive_header meth path = hh_setValue ''Connection'' ''Keep-Alive'' (hq_new meth path 1 1)"

text \<open>The program asks for responses in the buffer, \<^verbatim>\<open>get(path)\<close>.\<close>

definition hc_get_to :: "string \<Rightarrow> octets option \<Rightarrow> http_client \<Rightarrow> http_client" where
  "hc_get_to path to h = hc_addRequest (PGHRequest (keep_alive_header ''GET'' path) NullData to) h"

definition hc_get :: "string \<Rightarrow> http_client \<Rightarrow> http_client" where
  "hc_get path h = hc_get_to path None h"

definition hc_post :: "string \<Rightarrow> octets \<Rightarrow> octets option \<Rightarrow> http_client \<Rightarrow> http_client" where
  "hc_post path b to h = hc_addRequest (PGHRequest (keep_alive_header ''POST'' path) (ByteData b) to) h"

definition hc_post_device :: "string \<Rightarrow> octets \<Rightarrow> octets option \<Rightarrow> http_client \<Rightarrow> http_client" where
  "hc_post_device path c to h = hc_addRequest (PGHRequest (keep_alive_header ''POST'' path) (DeviceData c) to) h"

definition hc_head :: "string \<Rightarrow> http_client \<Rightarrow> http_client" where
  "hc_head path h = hc_addRequest (PGHRequest (keep_alive_header ''HEAD'' path) NullData None) h"

definition hc_request :: "http_request_header \<Rightarrow> http_data \<Rightarrow> octets option \<Rightarrow> http_client \<Rightarrow> http_client" where
  "hc_request header data to h = hc_addRequest (NormalRequest header data to) h"

definition hc_setHost :: "string \<Rightarrow> nat \<Rightarrow> http_client \<Rightarrow> http_client" where
  "hc_setHost host port h = hc_addRequest (SetHostRequest host port) h"

definition hc_setUser :: "string \<Rightarrow> string \<Rightarrow> http_client \<Rightarrow> http_client" where
  "hc_setUser user password h = hc_addRequest (SetUserRequest user password) h"

definition hc_setProxy :: "http_proxy \<Rightarrow> http_client \<Rightarrow> http_client" where
  "hc_setProxy px h = hc_addRequest (SetProxyRequest px) h"

definition hc_setProxy_host :: "string \<Rightarrow> nat \<Rightarrow> string \<Rightarrow> string \<Rightarrow> http_client \<Rightarrow> http_client" where
  "hc_setProxy_host host port user password h =
     hc_setProxy \<lparr> pxType = HttpProxy, pxHost = host, pxPort = port, pxUser = user, pxPassword = password \<rparr> h"

definition hc_close :: "http_client \<Rightarrow> http_client" where
  "hc_close h = hc_addRequest CloseRequest h"

definition hc_clearPendingRequests :: "http_client \<Rightarrow> http_client" where
  "hc_clearPendingRequests h = h\<lparr> hcPending := take 1 (hcPending h) \<rparr>"

definition hc_abort :: "http_env \<Rightarrow> http_client \<Rightarrow> http_client" where
  "hc_abort env h =
     (if hcPending h = [] then h
      else hc_closeConn env (sock_abort (hc_slotClosed env)
        (hc_clearPendingRequests (hc_finishedWithError env ''Request aborted'' Aborted h))))"

definition hc_currentId :: "http_client \<Rightarrow> nat" where
  "hc_currentId h = (case hcPending h of [] \<Rightarrow> 0 | r # _ \<Rightarrow> rqId r)"

text \<open>The devices of the current request: what it reads from, and what it writes to.\<close>

definition hc_currentSourceDevice :: "http_client \<Rightarrow> octets option" where
  "hc_currentSourceDevice h =
     (case map rqKind (hcPending h) of
        PGHRequest _ (DeviceData c) _ # _ \<Rightarrow> Some c | NormalRequest _ (DeviceData c) _ # _ \<Rightarrow> Some c | _ \<Rightarrow> None)"

definition hc_currentDestinationDevice :: "http_client \<Rightarrow> octets option" where
  "hc_currentDestinationDevice h =
     (case map rqKind (hcPending h) of
        PGHRequest _ _ to # _ \<Rightarrow> to | NormalRequest _ _ to # _ \<Rightarrow> to | _ \<Rightarrow> None)"

definition hc_hasPendingRequests :: "http_client \<Rightarrow> bool" where
  "hc_hasPendingRequests h \<longleftrightarrow> 1 < length (hcPending h)"

subsection \<open>Events\<close>

text \<open>
  What the event loop and the network deliver.  A connection that is lost gives an error and, unless the
  client has closed it then, the end of the connection; a server that closes it is one of the errors.
\<close>

datatype http_event =
    EvCall
  | EvConnected
  | EvReadyRead octets
  | EvBytesWritten nat
  | EvContinueTimer
  | EvConnectFailed socket_error
  | EvConnectionLost socket_error

definition hc_call :: "http_env \<Rightarrow> http_client \<Rightarrow> http_client" where
  "hc_call env h =
     (case hcCalls h of
        [] \<Rightarrow> h
      | c # cs \<Rightarrow>
          let h = h\<lparr> hcCalls := cs \<rparr>
          in case c of
               CallStartNextRequest \<Rightarrow> hc_startNextRequest env h
             | CallDoFinished \<Rightarrow> hc_slotDoFinished env h
             | CallSendRequest \<Rightarrow> hc_slotSendRequest env h
             | CallContinuePost \<Rightarrow> hc_continuePost env h)"

definition hc_connectionLost :: "http_env \<Rightarrow> socket_error \<Rightarrow> http_client \<Rightarrow> http_client" where
  "hc_connectionLost env err h =
     (let h = hc_slotError env err h
      in if hcSocket h = SockConnected then hc_slotClosed env (h\<lparr> hcSocket := SockUnconnected \<rparr>) else h)"

fun hc_step :: "http_env \<Rightarrow> http_client \<Rightarrow> http_event \<Rightarrow> http_client" where
  "hc_step env h EvCall = hc_call env h"
| "hc_step env h EvConnected =
     (if hcSocket h = SockConnecting then hc_slotConnected (h\<lparr> hcSocket := SockConnected \<rparr>) else h)"
| "hc_step env h (EvReadyRead s) =
     (if hcSocket h = SockConnected \<and> hcOpen h then hc_slotReadyRead env (h\<lparr> hcIn := hcIn h @ s \<rparr>) else h)"
| "hc_step env h (EvBytesWritten n) = 
     (if hcSocket h = SockConnected then hc_slotBytesWritten env n (h\<lparr> hcToWrite := hcToWrite h - n \<rparr>) else h)"
| "hc_step env h EvContinueTimer =
     (if hcContinueTimer h then hc_continuePost env (h\<lparr> hcContinueTimer := False \<rparr>) else h)"
| "hc_step env h (EvConnectFailed err) =
     (if hcSocket h = SockConnecting then hc_slotError env err (h\<lparr> hcSocket := SockUnconnected \<rparr>) else h)"
| "hc_step env h (EvConnectionLost err) = (if hcSocket h = SockConnected then hc_connectionLost env err h else h)"

abbreviation hc_run :: "http_env \<Rightarrow> http_client \<Rightarrow> http_event list \<Rightarrow> http_client" where
  "hc_run env \<equiv> run (hc_step env)"

end
