(* ===== verification/Http_Exchange.thy ===== *)
theory Http_Exchange
  imports Http_Client
begin

text \<open>
  One exchange of the HTTP client: what a request puts on the wire, and the body that comes back, for
  any cut of the response into segments.  The locale \<open>body_reading\<close> is the contract between the reader
  of headers and a reader of bodies; it is interpreted for bodies with a length and for chunked ones.
\<close>

subsection \<open>Lines\<close>

lemma first_line_append: "LF \<in> set s \<Longrightarrow> first_line (s @ t) = (fst (first_line s), snd (first_line s) @ t)"
  by (simp add: first_line_def takeWhile_append1 dropWhile_append1)

lemma first_line_line: "LF \<notin> set l \<Longrightarrow> first_line (l @ LF # r) = (l @ [LF], r)"
  by (auto simp: first_line_def takeWhile_append takeWhile_eq_all_conv dropWhile_append dropWhile_eq_Nil_conv)

lemma header_input_more:
  "header_input s hs = (False, s', hs') \<Longrightarrow> header_input (s @ t) hs = header_input (s' @ t) hs'"
proof (induction s hs rule: header_input.induct)
  case (1 s hs)
  show ?case
  proof (cases "LF \<in> set s")
    case True
    obtain l r where l: "first_line s = (l, r)" by fastforce
    have n: "l \<notin> {CRLF, [LF], []}" using 1(2) True l by (subst (asm) header_input.simps) (auto split: if_splits)
    then have "header_input r (hs @ l) = (False, s', hs')"
      using 1(2) True l by (subst (asm) header_input.simps) (auto split: if_splits)
    then have "header_input (r @ t) (hs @ l) = header_input (s' @ t) hs'" using 1(1) True l n by metis
    moreover have "header_input (s @ t) hs = header_input (r @ t) (hs @ l)"
      using True l n first_line_append [OF True, of t] by (subst header_input.simps) auto
    ultimately show ?thesis by simp
  next
    case False
    then show ?thesis using 1(2) by (subst (asm) header_input.simps) auto
  qed
qed

lemma header_input_end:
  "header_input s hs = (True, s', hs') \<Longrightarrow> header_input (s @ t) hs = (True, s' @ t, hs')"
proof (induction s hs rule: header_input.induct)
  case (1 s hs)
  then have True: "LF \<in> set s" by (subst (asm) (2) header_input.simps) (auto split: if_splits)
  obtain l r where l: "first_line s = (l, r)" by fastforce
  show ?case
  proof (cases "l \<in> {CRLF, [LF], []}")
    case empty: True
    then show ?thesis using 1(2) True l first_line_append [OF True, of t]
      by (subst header_input.simps, subst (asm) header_input.simps) (auto split: if_splits)
  next
    case False
    then have "header_input r (hs @ l) = (True, s', hs')"
      using 1(2) True l by (subst (asm) header_input.simps) (auto split: if_splits)
    then have "header_input (r @ t) (hs @ l) = (True, s' @ t, hs')" using 1(1) True l False by metis
    moreover have "header_input (s @ t) hs = header_input (r @ t) (hs @ l)"
      using True l False first_line_append [OF True, of t] by (subst header_input.simps) auto
    ultimately show ?thesis by simp
  qed
qed

lemma header_input_lines:
  "list_all clean_line ls \<Longrightarrow>
   header_input (concat (map (\<lambda>l. l @ CRLF) ls) @ CRLF @ t) hs = (True, t, hs @ concat (map (\<lambda>l. l @ CRLF) ls))"
proof (induction ls arbitrary: hs)
  case Nil
  have "first_line (CRLF @ t) = (CRLF, t)" using first_line_line [of "[CHR 0x0D]" t] by (simp add: LF_def)
  then show ?case by (subst header_input.simps) (simp add: LF_def)
next
  case (Cons l ls)
  let ?r = "concat (map (\<lambda>l. l @ CRLF) ls) @ CRLF @ t"
  have "first_line (l @ CRLF @ ?r) = (l @ CRLF, ?r)"
    using Cons(2) first_line_line [of "l @ [CHR 0x0D]" ?r] by (simp add: LF_def clean_line_def)
  moreover have "l @ CRLF \<notin> {CRLF, [LF], []}" using Cons(2) by (auto simp: LF_def clean_line_def)
  ultimately have "header_input (l @ CRLF @ ?r) hs = header_input ?r (hs @ l @ CRLF)"
    by (subst header_input.simps) (simp add: LF_def)
  then show ?case using Cons by simp
qed

lemma header_input_response:
  assumes "plain_response r"
  shows "header_input (response_text r @ CRLF @ t) [] = (True, t, response_text r)"
  using header_input_lines [OF clean_response_lines [OF assms], of t "[]"] by (simp add: response_text_def)

subsection \<open>Chunked bodies\<close>

text \<open>
  The chunked coding: for every chunk a line with its size (perhaps with extensions), its data and a line
  end; a line with the size 0 and an empty line at the end.
\<close>

inductive chunk_text :: "octets \<Rightarrow> octets \<Rightarrow> bool" where
  last_chunk: "LF \<notin> set l \<Longrightarrow> chunk_size (l @ CRLF) = Some 0 \<Longrightarrow> chunk_text (l @ CRLF @ CRLF) []"
| chunk: "LF \<notin> set l \<Longrightarrow> chunk_size (l @ CRLF) = Some (int (length x)) \<Longrightarrow> x \<noteq> [] \<Longrightarrow> chunk_text w d \<Longrightarrow>
    chunk_text (l @ CRLF @ x @ CRLF @ w) (x @ d)"

text \<open>The coding that servers use: sizes in hexadecimal digits.\<close>

fun standard_chunks :: "octets list \<Rightarrow> octets" where
  "standard_chunks [] = ''0'' @ CRLF @ CRLF"
| "standard_chunks (x # xs) = hexDigits (length x) @ CRLF @ x @ CRLF @ standard_chunks xs"

lemma hex_digit_value: "n < 16 \<Longrightarrow> hex_value (''0123456789abcdef'' ! n) = Some n"
proof -
  have "\<forall>n \<in> set [0..<16]. hex_value (''0123456789abcdef'' ! n) = Some n" by code_simp
  then show "n < 16 \<Longrightarrow> hex_value (''0123456789abcdef'' ! n) = Some n" by simp
qed

lemma unhex_digits: "unhex (hexDigits n) = n \<and> list_all (\<lambda>c. hex_value c \<noteq> None) (hexDigits n) \<and> hexDigits n \<noteq> []"
proof (induction n rule: hexDigits.induct)
  case (1 n)
  show ?case
  proof (cases "n < 16")
    case True
    then show ?thesis by (simp add: hexDigits.simps [of n] unhex_def hex_digit_value)
  next
    case False
    then have "unhex (hexDigits n) = 16 * unhex (hexDigits (n div 16)) + n mod 16"
      by (subst hexDigits.simps) (simp add: unhex_def hex_digit_value)
    moreover have "list_all (\<lambda>c. hex_value c \<noteq> None) (hexDigits n)"
      using 1 False by (subst hexDigits.simps) (simp add: hex_digit_value)
    ultimately show ?thesis using 1 False by (simp add: hexDigits.simps [of n])
  qed
qed

lemma hex_value_plain:
  "hex_value c \<noteq> None \<Longrightarrow> \<not> latin1_space c \<and> c \<notin> {CHR ''-'', CHR ''+'', CHR '';'', CHR ''x'', CHR ''X'', LF}"
  by (auto simp: hex_value_def latin1_space_def LF_def Let_def split: if_splits)

lemma chunk_size_digits:
  assumes "n < 2 ^ 31"
  shows "chunk_size (hexDigits n @ CRLF) = Some (int n)" and "LF \<notin> set (hexDigits n)"
proof -
  obtain c cs where d: "hexDigits n = c # cs" using unhex_digits [of n] by (cases "hexDigits n") auto
  have plain: "\<not> latin1_space a \<and> a \<notin> {CHR ''-'', CHR ''+'', CHR '';'', CHR ''x'', CHR ''X'', LF}" if "a \<in> set (hexDigits n)" for a
    using that unhex_digits [of n] hex_value_plain by (auto simp: list_all_iff)
  have tw: "takeWhile (\<lambda>c. c \<noteq> CHR '';'') (hexDigits n @ CRLF) = hexDigits n @ CRLF"
    using plain by (subst takeWhile_append2) auto
  have "rtrim (hexDigits n) = hexDigits n"
    using plain by (cases "hexDigits n" rule: rev_cases) (auto simp: rtrim_def)
  then have tr: "trimmed (hexDigits n @ CRLF) = hexDigits n"
    using plain [of c] d by (simp add: trimmed_rtrim rtrim_append [of "c # cs" CRLF, simplified])
  have "take 2 (c # cs) \<notin> {''0x'', ''0X''}" using plain [of "hd cs"] d by (cases cs) auto
  then show "chunk_size (hexDigits n @ CRLF) = Some (int n)"
    unfolding chunk_size_def tw hex_toInt_def tr using assms plain [of c] unhex_digits [of n] d by (auto simp: Let_def)
  show "LF \<notin> set (hexDigits n)" using plain by blast
qed

lemma chunk_text_standard:
  "list_all (\<lambda>x. x \<noteq> [] \<and> length x < 2 ^ 31) xs \<Longrightarrow> chunk_text (standard_chunks xs) (concat xs)"
proof (induction xs)
  case Nil
  have "hexDigits 0 = ''0''" by (simp add: hexDigits.simps)
  then show ?case using last_chunk [of "''0''"] chunk_size_digits [of 0] by simp
next
  case (Cons x xs)
  then show ?case using chunk [of "hexDigits (length x)" x "standard_chunks xs" "concat xs"] chunk_size_digits [of "length x"]
    by simp
qed

text \<open>What the reader waits for, from the size that it keeps: the input that is to come and its data.\<close>

inductive chunk_wait :: "int \<Rightarrow> octets \<Rightarrow> octets \<Rightarrow> bool" where
  at_size: "chunk_text w d \<Longrightarrow> chunk_wait 0 w d"
| in_chunk: "x \<noteq> [] \<Longrightarrow> chunk_text w d \<Longrightarrow> chunk_wait (int (length x)) (x @ CRLF @ w) (x @ d)"
| in_trailer: "chunk_wait (-2) CRLF []"

lemma line_prefix:
  assumes "s @ f = l @ CRLF @ w" "LF \<notin> set l"
  shows "LF \<notin> set s \<or> (\<exists>s'. s = l @ CRLF @ s' \<and> s' @ f = w)"
proof -
  have w: "l @ CRLF @ w = (l @ [CHR 0x0D]) @ LF # w" by (simp add: LF_def)
  from assms(1)[unfolded w] consider us where "s = (l @ [CHR 0x0D]) @ us" "us @ f = LF # w"
    | us where "s @ us = l @ [CHR 0x0D]"
    unfolding append_eq_append_conv2 by metis
  then show ?thesis
  proof cases
    case 1
    then show ?thesis using assms(2) by (cases us) (auto simp: LF_def)
  next
    case 2
    then have "set s \<subseteq> set (l @ [CHR 0x0D])" by (metis Un_upper1 set_append)
    then show ?thesis using assms(2) by (auto simp: LF_def)
  qed
qed

text \<open>Enough of the future to go on: everything is there, or a line end is still to come.\<close>

abbreviation far :: "octets \<Rightarrow> bool" where
  "far f \<equiv> f = [] \<or> 2 \<le> length f"

lemma read_trailer_simps [simp]: "read_trailer CRLF = (-1, [])" "read_trailer [] = (-2, [])"
proof -
  have "first_line CRLF = (CRLF, [])" using first_line_line [of "[CHR 0x0D]" "[]"] by (simp add: LF_def)
  then show "read_trailer CRLF = (-1, [])" by (subst read_trailer.simps) (simp add: LF_def)
  show "read_trailer [] = (-2, [])" by (subst read_trailer.simps) simp
qed

lemma far_end:
  assumes "s @ f = CRLF" "far f"
  shows "f = [] \<and> s = CRLF \<or> f = CRLF \<and> s = []"
proof -
  have l: "length s + length f = 2" using arg_cong [OF assms(1), of length] by simp
  have "length s = 0" if "f \<noteq> []" using that assms(2) l by linarith
  then show ?thesis using assms(1) by (cases "f = []") auto
qed

text \<open>One turn of the loop inside of a chunk.\<close>

lemma chunk_read_data:
  assumes "s @ f = x @ CRLF @ w" "x \<noteq> []" "chunk_text w d" "sz = int (length x)"
  shows "f \<noteq> [] \<and> chunk_read s sz arr = Inl (ChunkMore, s, sz, arr) \<or>
    (\<exists>s' sz' d1 d2. chunk_read s sz arr = Inr (s', sz', arr @ d1) \<and> x @ d = d1 @ d2 \<and> chunk_wait sz' (s' @ f) d2)"
proof -
  have w2: "2 \<le> length w" using assms(3) by (cases rule: chunk_text.cases) auto
  consider "s = []" | "s \<noteq> []" "length s < length x" | "length s = length x \<or> length s = length x + 1"
    | "length x + 2 \<le> length s"
    by fastforce
  then show ?thesis
  proof cases
    case 1
    then show ?thesis using assms(1,2) by (auto simp: chunk_read_def)
  next
    case 2
    then obtain y where y: "x = s @ y" "f = y @ CRLF @ w" "y \<noteq> []"
      using assms(1) by (auto simp: append_eq_append_conv2)
    have "chunk_read s sz arr = Inr ([], int (length y), arr @ s)" using 2 y assms(4) by (simp add: chunk_read_def Let_def)
    moreover have "chunk_wait (int (length y)) ([] @ f) (y @ d)"
      using in_chunk [OF y(3) assms(3)] y(2) by simp
    ultimately show ?thesis using y(1) by (metis append.assoc)
  next
    case 3
    then obtain u where u: "s = x @ u" "u @ f = CRLF @ w" "length u \<le> 1"
      using assms(1) by (auto simp: append_eq_append_conv2)
    then have f: "f \<noteq> []" using w2 by (auto dest: arg_cong [of _ _ length])
    show ?thesis
    proof (cases "length x = 1")
      case True
      then have "chunk_read s sz arr = Inl (ChunkMore, s, sz, arr)" using 3 assms(4) by (auto simp: chunk_read_def)
      then show ?thesis using f by blast
    next
      case False
      then obtain y c where y: "x = y @ [c]" "y \<noteq> []" using assms(2) by (cases x rule: rev_cases) auto
      have "chunk_read s sz arr = Inr ([c] @ u, 1, arr @ y)" using 3 u(1) y assms(4) by (auto simp: chunk_read_def Let_def)
      moreover have "chunk_wait 1 (([c] @ u) @ f) ([c] @ d)"
        using in_chunk [of "[c]" w d] assms(3) u(2) by simp
      ultimately show ?thesis using y(1) by (metis append.assoc)
    qed
  next
    case 4
    then obtain u where u: "s = x @ CRLF @ u" "u @ f = w"
      using assms(1) by (auto simp: append_eq_append_conv2 append_eq_Cons_conv)
    have "chunk_read s sz arr = Inr (u, 0, arr @ x)" using u assms(2,4) by (simp add: chunk_read_def Let_def min_def)
    then show ?thesis using at_size [OF assms(3)] u(2) by blast
  qed
qed

lemma chunk_step_wait:
  assumes "chunk_wait sz (s @ f) d" "far f"
  shows "(f = [] \<and> d = [] \<and> chunk_step s sz arr = Inl (ChunkEnd, [], -1, arr)) \<or>
    (f \<noteq> [] \<and> (\<exists>s' sz'. chunk_step s sz arr = Inl (ChunkMore, s', sz', arr) \<and> chunk_wait sz' (s' @ f) d)) \<or>
    (\<exists>s' sz' d1 d2. chunk_step s sz arr = Inr (s', sz', arr @ d1) \<and> d = d1 @ d2 \<and> chunk_wait sz' (s' @ f) d2)"
  using assms(1)
proof (cases rule: chunk_wait.cases)
  case at_size
  from at_size(2) show ?thesis
  proof (cases rule: chunk_text.cases)
    case (last_chunk l)
    show ?thesis
    proof (cases "LF \<in> set s")
      case False
      then have "f \<noteq> []" using last_chunk by (auto simp: LF_def)
      then show ?thesis using False at_size assms(1) by (simp add: chunk_step_def)
    next
      case True
      then obtain s' where s': "s = l @ CRLF @ s'" "s' @ f = CRLF" using line_prefix last_chunk by metis
      have fl: "first_line s = (l @ CRLF, s')"
        using first_line_line [of "l @ [CHR 0x0D]" s'] last_chunk(3) s'(1) by (simp add: LF_def)
      then have st: "chunk_start s 0 = Some (-2, s')" using last_chunk by (simp add: chunk_start_def)
      show ?thesis using far_end [OF s'(2) assms(2)] True st at_size last_chunk(2) chunk_wait.in_trailer
        by (auto simp: chunk_step_def chunk_read_def)
    qed
  next
    case (chunk l x w d')
    show ?thesis
    proof (cases "LF \<in> set s")
      case False
      then have "f \<noteq> []" using chunk by (auto simp: LF_def)
      then show ?thesis using False at_size assms(1) by (simp add: chunk_step_def)
    next
      case True
      then obtain s' where s': "s = l @ CRLF @ s'" "s' @ f = x @ CRLF @ w" using line_prefix chunk by metis
      have fl: "first_line s = (l @ CRLF, s')"
        using first_line_line [of "l @ [CHR 0x0D]" s'] chunk(3) s'(1) by (simp add: LF_def)
      then have st: "chunk_start s 0 = Some (int (length x), s')" using chunk by (simp add: chunk_start_def)
      have "chunk_step s sz arr = chunk_read s' (int (length x)) arr"
        using True st at_size chunk(5) by (simp add: chunk_step_def)
      then show ?thesis
        using chunk_read_data [OF s'(2) chunk(5,6) refl, of arr] chunk_wait.in_chunk [OF chunk(5,6)] chunk(2) s'(2) by metis
    qed
  qed
next
  case (in_chunk x w d')
  have "f \<noteq> [] \<and> chunk_step s sz arr = Inl (ChunkMore, s, sz, arr) \<or>
    (\<exists>s' sz' d1 d2. chunk_step s sz arr = Inr (s', sz', arr @ d1) \<and> x @ d' = d1 @ d2 \<and> chunk_wait sz' (s' @ f) d2)"
    using chunk_read_data [OF in_chunk(2,4,5,1), of arr] in_chunk(1,4) by (simp add: chunk_step_def chunk_start_def)
  then show ?thesis using assms(1) in_chunk(3) by blast
next
  case in_trailer
  show ?thesis using far_end [OF in_trailer(2) assms(2)] in_trailer(1,3) chunk_wait.in_trailer
    by (auto simp: chunk_step_def chunk_start_def chunk_read_def)
qed

lemma chunk_loop_wait:
  assumes "chunk_wait sz (s @ f) d" "far f"
  shows "if f = [] then chunk_loop s sz arr = (ChunkEnd, [], -1, arr @ d)
    else \<exists>s' sz' d1 d2. chunk_loop s sz arr = (ChunkMore, s', sz', arr @ d1) \<and> d = d1 @ d2 \<and> chunk_wait sz' (s' @ f) d2"
  using assms(1)
proof (induction s sz arr arbitrary: d rule: chunk_loop.induct)
  case (1 s sz arr)
  from chunk_step_wait [OF 1(2) assms(2), of arr] consider
      "f = []" "d = []" "chunk_step s sz arr = Inl (ChunkEnd, [], -1, arr)"
    | s' sz' where "f \<noteq> []" "chunk_step s sz arr = Inl (ChunkMore, s', sz', arr)" "chunk_wait sz' (s' @ f) d"
    | s' sz' d1 d2 where "chunk_step s sz arr = Inr (s', sz', arr @ d1)" "d = d1 @ d2" "chunk_wait sz' (s' @ f) d2"
    by blast
  then show ?case
  proof cases
    case 1
    then show ?thesis by (simp add: chunk_loop.simps [of s])
  next
    case (2 s' sz')
    then show ?thesis by (simp add: chunk_loop.simps [of s])
  next
    case (3 s' sz' d1 d2)
    have l: "chunk_loop s sz arr = chunk_loop s' sz' (arr @ d1)" using 3(1) by (simp add: chunk_loop.simps [of s])
    show ?thesis using 1(1) [OF 3(1) refl refl 3(3)] unfolding l 3(2)
      by (auto split: if_split_asm)
  qed
qed

subsection \<open>The frame of an exchange\<close>

text \<open>Signals before the end of a request.\<close>

fun quiet :: "http_signal \<Rightarrow> bool" where
  "quiet (RequestFinished _ _) = False"
| "quiet (Done _) = False"
| "quiet _ = True"

text \<open>What stays as it is in the client \<open>g\<close> while the response comes in.\<close>

definition frame :: "http_client \<Rightarrow> http_client \<Rightarrow> bool" where
  "frame g h \<longleftrightarrow> hcSocket h = SockConnected \<and> hcOpen h \<and> hcPending h = hcPending g \<and> hc_method h \<noteq> ''HEAD'' \<and> hcCalls h = [] \<and>
     hcToDevice h = None \<and> hcSent h = hcSent g \<and> hcHostName h = hcHostName g \<and> hcPort h = hcPort g \<and> hcAuthenticator h = hcAuthenticator g \<and>
     hcProxy h = hcProxy g \<and>
     (\<exists>sigs. hcOut h = hcOut g @ sigs \<and> list_all quiet sigs)"

definition in_body :: "http_client \<Rightarrow> http_response_header \<Rightarrow> http_client \<Rightarrow> bool" where
  "in_body g r h \<longleftrightarrow> frame g h \<and> hcState h = Reading \<and> \<not> hcReadHeader h \<and> hcResponse h = r \<and> \<not> hcRepost h \<and>
     hcBytesDone h = 0"

text \<open>The whole body is in the buffer and the end of the request is queued.\<close>

definition exchange_read :: "http_client \<Rightarrow> http_response_header \<Rightarrow> octets \<Rightarrow> http_client \<Rightarrow> bool" where
  "exchange_read g r body h \<longleftrightarrow> frame g (h\<lparr> hcCalls := [] \<rparr>) \<and> hcCalls h = [CallDoFinished] \<and> hcState h = Connected \<and>
     hcResponse h = r \<and> hcRba h = body"

lemma method_update [simp]:
  "hc_method (h\<lparr> hcIn := s \<rparr>) = hc_method h" "hc_method (h\<lparr> hcChunkedSize := sz \<rparr>) = hc_method h"
  "hc_method (h\<lparr> hcOut := out \<rparr>) = hc_method h" "hc_method (h\<lparr> hcResponse := r \<rparr>) = hc_method h"
  "hc_method (h\<lparr> hcHeaderStr := hs \<rparr>) = hc_method h" "hc_method (h\<lparr> hcBuffer := b \<rparr>) = hc_method h"
  "hc_method (h\<lparr> hcReadHeader := rh \<rparr>) = hc_method h" "hc_method (h\<lparr> hcCalls := cs \<rparr>) = hc_method h"
  "hc_method (h\<lparr> hcState := st \<rparr>) = hc_method h" "hc_method (h\<lparr> hcRba := rba \<rparr>) = hc_method h"
  "hc_method (h\<lparr> hcPendingPost := pp \<rparr>) = hc_method h" "hc_method (h\<lparr> hcContinueTimer := ct \<rparr>) = hc_method h"
  "hc_method (h\<lparr> hcRepost := rp \<rparr>) = hc_method h" "hc_method (h\<lparr> hcBytesDone := n \<rparr>) = hc_method h"
  by (simp_all add: hc_method_def)

lemma frame_cong:
  "frame g h \<Longrightarrow> hcSocket h' = hcSocket h \<Longrightarrow> hcOpen h' = hcOpen h \<Longrightarrow> hcPending h' = hcPending h \<Longrightarrow>
   hcCalls h' = hcCalls h \<Longrightarrow> hcSent h' = hcSent h \<Longrightarrow> hcHostName h' = hcHostName h \<Longrightarrow> hcPort h' = hcPort h \<Longrightarrow>
   hcAuthenticator h' = hcAuthenticator h \<Longrightarrow> hcProxy h' = hcProxy h \<Longrightarrow> hcToDevice h' = hcToDevice h \<Longrightarrow>
   \<exists>sigs. hcOut h' = hcOut h @ sigs \<and> list_all quiet sigs \<Longrightarrow> frame g h'"
  by (auto simp: frame_def hc_method_def [of h] hc_method_def [of h'])

lemma frame_store:
  "frame g h \<Longrightarrow> frame g (hc_store env arr h)"
  by (rule frame_cong [of g h]) (auto simp: frame_def hc_store_def hc_emit_def Let_def)

lemma store_fields:
  "hcToDevice h = None \<Longrightarrow> hcState (hc_store env arr h) = hcState h"
  "hcToDevice h = None \<Longrightarrow> hcReadHeader (hc_store env arr h) = hcReadHeader h"
  "hcToDevice h = None \<Longrightarrow> hcResponse (hc_store env arr h) = hcResponse h"
  "hcToDevice h = None \<Longrightarrow> hcRepost (hc_store env arr h) = hcRepost h"
  "hcToDevice h = None \<Longrightarrow> hcBytesDone (hc_store env arr h) = hcBytesDone h"
  "hcToDevice h = None \<Longrightarrow> hcChunkedSize (hc_store env arr h) = hcChunkedSize h"
  "hcToDevice h = None \<Longrightarrow> hcIn (hc_store env arr h) = hcIn h"
  "hcToDevice h = None \<Longrightarrow> hcPending (hc_store env arr h) = hcPending h"
  "hcToDevice h = None \<Longrightarrow> \<not> hcRepost h \<Longrightarrow> hcRba (hc_store env arr h) = hcRba h @ arr"
  by (simp_all add: hc_store_def hc_emit_def Let_def)

text \<open>Responses whose body the client reads and that keep the connection.\<close>

definition plain_reply :: "http_response_header \<Rightarrow> bool" where
  "plain_reply r \<longleftrightarrow> plain_response r \<and> hrStatusCode r \<notin> {100, 204, 205, 304, 401, 407} \<and>
     toLower (hh_value ''connection'' r) \<noteq> ''close''"

definition is_chunked :: "http_response_header \<Rightarrow> bool" where
  "is_chunked r \<longleftrightarrow> hh_hasKey ''transfer-encoding'' r \<and> contains ''chunked'' (toLower (hh_value ''transfer-encoding'' r))"

lemma everythingRead_connected:
  assumes "in_body g r h" "plain_reply r" "hcRba h = body"
  shows "exchange_read g r body (hc_everythingRead env h)"
proof -
  have "frame g ((hc_invoke CallDoFinished (hc_setState Connected h))\<lparr> hcCalls := [] \<rparr>)"
    by (rule frame_cong [of g h]) (use assms in \<open>auto simp: in_body_def frame_def hc_invoke_def hc_setState_def hc_emit_def\<close>)
  moreover have "hcCalls h = []" using assms by (simp add: in_body_def frame_def)
  ultimately show ?thesis using assms
    by (simp add: in_body_def hc_everythingRead_def plain_reply_def exchange_read_def hc_invoke_def hc_setState_def hc_emit_def)
qed

subsection \<open>Readers of bodies\<close>

text \<open>
  The contract of a reader: \<open>waits f h\<close> says that the client waits for the octets \<open>f\<close>.  It does so
  behind the header; every segment that leaves at least \<open>least\<close> octets leaves it waiting for them, and
  the last one ends the exchange with the body in the buffer.
\<close>

locale body_reading =
  fixes env :: http_env
    and least :: nat
    and accepts :: "http_response_header \<Rightarrow> octets \<Rightarrow> octets \<Rightarrow> bool"
    and waits :: "http_client \<Rightarrow> http_response_header \<Rightarrow> octets \<Rightarrow> octets \<Rightarrow> http_client \<Rightarrow> bool"
  assumes least_pos: "0 < least"
    and reply: "accepts r payload body \<Longrightarrow> plain_reply r"
    and start: "accepts r payload body \<Longrightarrow> in_body g r h \<Longrightarrow> hcIn h = [] \<Longrightarrow> hcRba h = [] \<Longrightarrow>
      hcChunkedSize h = (if is_chunked r then 0 else -1) \<Longrightarrow> waits g r body payload h"
    and body_frame: "waits g r body f h \<Longrightarrow> in_body g r h"
    and more: "waits g r body (s @ f) h \<Longrightarrow> least \<le> length f \<Longrightarrow>
      waits g r body f (hc_readBody env (h\<lparr> hcIn := hcIn h @ s \<rparr>))"
    and last_part: "waits g r body s h \<Longrightarrow> exchange_read g r body (hc_readBody env (h\<lparr> hcIn := hcIn h @ s \<rparr>))"
begin

text \<open>The client waits for the rest of the header: \<open>f\<close> is all that is still to come.\<close>

definition header_waits ::
    "http_client \<Rightarrow> http_response_header \<Rightarrow> octets \<Rightarrow> octets \<Rightarrow> http_client \<Rightarrow> bool" where
  "header_waits g r payload f h \<longleftrightarrow> frame g h \<and> hcState h \<in> {Sending, Reading} \<and> hcRba h = [] \<and>
     header_input (hcIn h @ f) (if hcState h = Reading then hcHeaderStr h else []) = (True, payload, response_text r) \<and>
     (hcState h = Reading \<longrightarrow> hcReadHeader h \<and> hcChunkedSize h = -1 \<and> \<not> hcRepost h \<and> hcBytesDone h = 0)"

lemma header_segment:
  assumes "header_waits g r payload (s @ f) h" "accepts r payload body"
  defines "h' \<equiv> hc_step env h (EvReadyRead s)"
  shows "f \<noteq> [] \<and> header_waits g r payload f h' \<or> (\<exists>h0 s0. h' = hc_readBody env (h0\<lparr> hcIn := hcIn h0 @ s0 \<rparr>) \<and> waits g r body (s0 @ f) h0)"
proof -
  define h1 where "h1 = (if hcState h \<noteq> Reading
    then (hc_setState Reading (h\<lparr> hcIn := hcIn h @ s \<rparr>))\<lparr> hcReadHeader := True, hcHeaderStr := [], hcBytesDone := 0,
      hcChunkedSize := -1, hcRepost := False \<rparr> else h\<lparr> hcIn := hcIn h @ s \<rparr>)"
  have fr: "frame g h" and rp: "plain_reply r" using assms reply by (simp_all add: header_waits_def)
  have h1: "frame g h1" "hcState h1 = Reading" "hcReadHeader h1" "hcBytesDone h1 = 0" "hcChunkedSize h1 = -1"
      "\<not> hcRepost h1" "hcRba h1 = []" "header_input (hcIn h1 @ f) (hcHeaderStr h1) = (True, payload, response_text r)"
    using assms(1) frame_cong [OF fr, of h1]
    by (auto simp: header_waits_def h1_def hc_setState_def hc_emit_def)
  have step: "h' = (let (go, h2) = hc_readHeaders env (hcState h) h1 in if go then hc_readBody env h2 else h2)"
    using fr by (simp add: h'_def frame_def hc_slotReadyRead_def h1_def Let_def)
  obtain e rest hs where i: "header_input (hcIn h1) (hcHeaderStr h1) = (e, rest, hs)" by (metis prod_cases3)
  show ?thesis
  proof (cases e)
    case False
    then have "hc_readHeaders env (hcState h) h1 = (False, h1\<lparr> hcIn := rest, hcHeaderStr := hs \<rparr>)"
      using i h1(3) by (subst hc_readHeaders.simps) simp
    then have "h' = h1\<lparr> hcIn := rest, hcHeaderStr := hs \<rparr>" by (simp add: step)
    moreover have "header_input (rest @ f) hs = (True, payload, response_text r)"
      using header_input_more [of "hcIn h1" "hcHeaderStr h1" rest hs f] i h1(8) False by simp
    moreover have "f \<noteq> []" using i h1(8) False by auto
    ultimately show ?thesis using h1 frame_cong [OF h1(1), of h'] by (simp add: header_waits_def)
  next
    case True
    then have rest: "rest @ f = payload" "hs = response_text r"
      using header_input_end [of "hcIn h1" "hcHeaderStr h1" rest hs f] i h1(8) by simp_all
    have r: "hr_new (heFresh env) hs = r" using rp hr_new_text [of r "[]"] by (simp add: plain_reply_def rest(2))
    define h2 where "h2 = (h1\<lparr> hcIn := rest, hcHeaderStr := hs \<rparr>)\<lparr> hcResponse := r, hcHeaderStr := [] \<rparr>"
    define h3 where "h3 = hc_emit (ResponseHeaderReceived r) (h2\<lparr> hcBuffer := [], hcContinueTimer := False, hcPendingPost := False, hcReadHeader := False,
      hcChunkedSize := (if is_chunked r then 0 else -1) \<rparr>)"
    have "hc_readHeaders env (hcState h) h1 = hc_responseHeader env h2"
      using i h1(3) True r rp by (subst hc_readHeaders.simps) (simp add: plain_reply_def plain_response_def h2_def)
    also have "hc_responseHeader env h2 = (True, h3)"
      using rp h1 by (auto simp: hc_responseHeader_def plain_reply_def is_chunked_def h2_def h3_def hc_emit_def)
    finally have h': "h' = hc_readBody env h3" by (simp add: step)
    have "frame g h3" by (rule frame_cong [OF h1(1)]) (simp_all add: h3_def h2_def hc_emit_def)
    then have "waits g r body payload (h3\<lparr> hcIn := [] \<rparr>)"
      using h1 by (intro start [OF assms(2)]) (auto simp: in_body_def h3_def h2_def hc_emit_def frame_def)
    moreover have "h3 = (h3\<lparr> hcIn := [] \<rparr>)\<lparr> hcIn := hcIn (h3\<lparr> hcIn := [] \<rparr>) @ rest \<rparr>"
      by (simp add: h3_def h2_def hc_emit_def)
    ultimately show ?thesis using h' rest(1) by metis
  qed
qed

lemma segments_read:
  "accepts r payload body \<Longrightarrow> waits g r body (concat segs) h \<or> header_waits g r payload (concat segs) h \<Longrightarrow> segs \<noteq> [] \<Longrightarrow> least \<le> length (last segs) \<Longrightarrow>
   exchange_read g r body (hc_run env h (map EvReadyRead segs)) "
proof (induction segs arbitrary: h)
  case (Cons s segs)
  let ?h' = "hc_step env h (EvReadyRead s)"
  have body_step: "?case" if "?h' = hc_readBody env (h0\<lparr> hcIn := hcIn h0 @ s0 \<rparr>)" "waits g r body (s0 @ concat segs) h0" for h0 s0
  proof (cases "segs = []")
    case True
    then show ?thesis using last_part [of g r body s0 h0] that by simp
  next
    case False
    then have "least \<le> length (last segs)" using Cons.prems by simp
    moreover have "length (last segs) \<le> length (concat segs)" using False
      by (metis append_butlast_last_id concat_append concat.simps(1,2) append_Nil2 length_append le_add2)
    ultimately have "waits g r body (concat segs) ?h'" using more [of g r body s0 "concat segs" h0] that by simp
    then show ?thesis using Cons.IH False Cons.prems by simp
  qed
  show ?case
  proof (cases "waits g r body (concat (s # segs)) h")
    case True
    then have "hcState h = Reading" "\<not> hcReadHeader h" "frame g h" using body_frame by (auto simp: in_body_def)
    then have "?h' = hc_readBody env (h\<lparr> hcIn := hcIn h @ s \<rparr>)"
      by (simp add: frame_def hc_slotReadyRead_def hc_readHeaders.simps)
    then show ?thesis using body_step [of h s] True by simp
  next
    case False
    then have "header_waits g r payload (s @ concat segs) h" using Cons.prems by simp
    from header_segment [OF this Cons.prems(1)] show ?thesis
    proof
      assume "concat segs \<noteq> [] \<and> header_waits g r payload (concat segs) ?h'"
      then show ?thesis using Cons.IH [of ?h'] Cons.prems by (cases "segs = []") simp_all
    next
      assume "\<exists>h0 s0. ?h' = hc_readBody env (h0\<lparr> hcIn := hcIn h0 @ s0 \<rparr>) \<and> waits g r body (s0 @ concat segs) h0"
      then show ?thesis using body_step by blast
    qed
  qed
qed simp

lemma response_read:
  assumes "accepts r payload body" "concat segs = hr_toString r @ payload" "least \<le> length (last segs)"
    and "frame g g" "hcState g = Sending" "hcIn g = []" "hcRba g = []"
  shows "exchange_read g r body (hc_run env g (map EvReadyRead segs))"
proof (rule segments_read [OF assms(1)])
  have "plain_response r" using reply [OF assms(1)] by (simp add: plain_reply_def)
  from header_input_response [OF this] hr_toString_lines [OF this]
  show "waits g r body (concat segs) g \<or> header_waits g r payload (concat segs) g"
    using assms by (simp add: header_waits_def)
  show "segs \<noteq> []" using assms(2) \<open>hr_toString r = response_text r @ CRLF\<close> by auto
qed (rule assms(3))

end

subsection \<open>Bodies with a length, and chunked ones\<close>

definition sized_reply :: "http_response_header \<Rightarrow> octets \<Rightarrow> octets \<Rightarrow> bool" where
  "sized_reply r payload body \<longleftrightarrow> plain_reply r \<and> \<not> is_chunked r \<and> hh_hasContentLength r \<and>
     hh_contentLength r = length body \<and> payload = body"

definition sized_waits :: "http_client \<Rightarrow> http_response_header \<Rightarrow> octets \<Rightarrow> octets \<Rightarrow> http_client \<Rightarrow> bool" where
  "sized_waits g r body f h \<longleftrightarrow> in_body g r h \<and> sized_reply r body body \<and> hcChunkedSize h = -1 \<and> hcIn h = [] \<and>
     hcRba h @ f = body"

definition chunked_reply :: "http_response_header \<Rightarrow> octets \<Rightarrow> octets \<Rightarrow> bool" where
  "chunked_reply r payload body \<longleftrightarrow> plain_reply r \<and> is_chunked r \<and> chunk_text payload body"

definition chunked_waits :: "http_client \<Rightarrow> http_response_header \<Rightarrow> octets \<Rightarrow> octets \<Rightarrow> http_client \<Rightarrow> bool" where
  "chunked_waits g r body f h \<longleftrightarrow> in_body g r h \<and> plain_reply r \<and>
     (\<exists>d. chunk_wait (hcChunkedSize h) (hcIn h @ f) d \<and> hcRba h @ d = body)"

lemma in_body_store:
  assumes "in_body g r h"
  shows "in_body g r (hc_store env arr (h\<lparr> hcIn := s, hcChunkedSize := sz \<rparr>))"
proof -
  have "frame g (h\<lparr> hcIn := s, hcChunkedSize := sz \<rparr>)"
    using assms by (simp add: in_body_def frame_def)
  from frame_store [OF this] show ?thesis using assms by (simp add: in_body_def frame_def store_fields)
qed

lemma readBody_sized:
  fixes env :: http_env
  assumes "sized_waits g r body (s @ f) h"
  defines "h' \<equiv> hc_store env s (h\<lparr> hcIn := [] \<rparr>)"
  shows "hc_readBody env (h\<lparr> hcIn := hcIn h @ s \<rparr>) = (if f = [] then hc_everythingRead env h' else h')"
    and "in_body g r h'" "hcRba h' = hcRba h @ s" "hcChunkedSize h' = -1" "hcIn h' = []"
proof -
  have h: "in_body g r h" "sized_reply r body body" "hcChunkedSize h = -1" "hcIn h = []" "hcRba h @ s @ f = body"
    using assms(1) by (simp_all add: sized_waits_def)
  have "int (length (hcRba h)) + int (length s) = int (length body) \<longleftrightarrow> f = []"
    using h(5) by auto
  moreover have "min (int (length body)) (int (length s)) = int (length s)" using h(5) by auto
  ultimately show "hc_readBody env (h\<lparr> hcIn := hcIn h @ s \<rparr>) = (if f = [] then hc_everythingRead env h' else h')"
    using h(1-4) by (simp add: hc_readBody_def in_body_def frame_def sized_reply_def plain_reply_def
        hc_bytesAvailable_def Let_def h'_def)
  show "in_body g r h'" using in_body_store [OF h(1), of env s "hcChunkedSize h" "[]"] by (simp add: h'_def)
  show "hcRba h' = hcRba h @ s" "hcChunkedSize h' = -1" "hcIn h' = []"
    using h(1,3) by (simp_all add: h'_def store_fields in_body_def frame_def)
qed

interpretation sized: body_reading env 1 sized_reply sized_waits for env
proof
  fix r payload body g h
  assume "sized_reply r payload body" "in_body g r h" "hcIn h = []" "hcRba h = []"
    "hcChunkedSize h = (if is_chunked r then 0 else -1)"
  then show "sized_waits g r body payload h" by (simp add: sized_waits_def sized_reply_def)
next
  fix g r body s f h
  assume w: "sized_waits g r body (s @ f) h" and "1 \<le> length f"
  then show "sized_waits g r body f (hc_readBody env (h\<lparr> hcIn := hcIn h @ s \<rparr>))"
    using readBody_sized(1) [OF w, of env] readBody_sized(2-) [OF w, of env] w by (auto simp: sized_waits_def)
next
  fix g r body s h
  assume w: "sized_waits g r body s h"
  then have w': "sized_waits g r body (s @ []) h" by simp
  show "exchange_read g r body (hc_readBody env (h\<lparr> hcIn := hcIn h @ s \<rparr>))"
    using readBody_sized(1) [OF w', of env] readBody_sized(2-) [OF w', of env] w
    by (auto simp: sized_waits_def sized_reply_def intro!: everythingRead_connected)
qed (auto simp: sized_reply_def sized_waits_def)

lemma readBody_chunked:
  assumes "chunked_waits g r body (s @ f) h" "far f"
  shows "f = [] \<and> exchange_read g r body (hc_readBody env (h\<lparr> hcIn := hcIn h @ s \<rparr>)) \<or>
    f \<noteq> [] \<and> chunked_waits g r body f (hc_readBody env (h\<lparr> hcIn := hcIn h @ s \<rparr>))"
proof -
  obtain d where h: "in_body g r h" "plain_reply r" "chunk_wait (hcChunkedSize h) ((hcIn h @ s) @ f) d" "hcRba h @ d = body"
    using assms(1) by (auto simp: chunked_waits_def)
  have sz: "hcChunkedSize h \<noteq> -1" using h(3) by (cases rule: chunk_wait.cases) auto
  obtain res s' sz' d1 where l: "chunk_loop (hcIn h @ s) (hcChunkedSize h) [] = (res, s', sz', d1)" by (metis prod_cases4)
  let ?h = "hc_store env d1 (h\<lparr> hcIn := s', hcChunkedSize := sz' \<rparr>)"
  have b: "hc_readBody env (h\<lparr> hcIn := hcIn h @ s \<rparr>) =
      (case res of
         ChunkInvalid \<Rightarrow> hc_closeConn env (hc_finishedWithError env ''Invalid HTTP chunked body'' WrongContentLength
           (h\<lparr> hcIn := s', hcChunkedSize := sz' \<rparr>))
       | ChunkMore \<Rightarrow> ?h
       | ChunkEnd \<Rightarrow> hc_everythingRead env ?h)"
    using h(1,2) sz l by (simp add: hc_readBody_def in_body_def frame_def plain_reply_def Let_def)
  have st: "in_body g r ?h" "hcRba ?h = hcRba h @ d1" "hcChunkedSize ?h = sz'" "hcIn ?h = s'"
    using in_body_store [OF h(1), of env d1 sz' s'] h(1) by (simp_all add: store_fields in_body_def frame_def)
  show ?thesis
  proof (cases "f = []")
    case True
    then have "res = ChunkEnd" "d1 = d" using chunk_loop_wait [OF h(3) assms(2), where arr = "[]"] l by simp_all
    then show ?thesis using everythingRead_connected [OF st(1) h(2)] st(2) h(4) True b by simp
  next
    case False
    then obtain d2 where "res = ChunkMore" "d = d1 @ d2" "chunk_wait sz' (s' @ f) d2"
      using chunk_loop_wait [OF h(3) assms(2), where arr = "[]"] l by auto
    then show ?thesis using st h(2,4) False b by (auto simp: chunked_waits_def)
  qed
qed

interpretation chunked: body_reading env 2 chunked_reply chunked_waits for env
proof
  fix r payload body g h
  assume "chunked_reply r payload body" "in_body g r h" "hcIn h = []" "hcRba h = []"
    "hcChunkedSize h = (if is_chunked r then 0 else -1)"
  then show "chunked_waits g r body payload h" by (auto simp: chunked_waits_def chunked_reply_def intro: at_size)
next
  fix g r body s f h
  assume "chunked_waits g r body (s @ f) h" "2 \<le> length f"
  then show "chunked_waits g r body f (hc_readBody env (h\<lparr> hcIn := hcIn h @ s \<rparr>))"
    using readBody_chunked [of g r body s f h env] by auto
next
  fix g r body s h
  assume "chunked_waits g r body s h"
  then show "exchange_read g r body (hc_readBody env (h\<lparr> hcIn := hcIn h @ s \<rparr>))"
    using readBody_chunked [of g r body s "[]" h env] by simp
qed (auto simp: chunked_reply_def chunked_waits_def)

subsection \<open>A request on the wire\<close>

text \<open>
  Requests that go to the server itself, and a client between two exchanges that nobody has asked for
  credentials.
\<close>

definition direct :: "http_env \<Rightarrow> http_client \<Rightarrow> bool" where
  "direct env h \<longleftrightarrow> pxType (used_proxy env h) \<notin> {HttpProxy, HttpCachingProxy}"

lemma direct_choose: "direct env h \<Longrightarrow> hc_chooseProxy env h = (False, h\<lparr> hcProxy := used_proxy env h \<rparr>)"
  by (simp add: direct_def hc_chooseProxy_def Let_def)

lemma direct_same: "hcProxy h' = hcProxy h \<Longrightarrow> direct env h' \<longleftrightarrow> direct env h"
  by (simp add: direct_def used_proxy_def)

lemma direct_used: "hcProxy h' = used_proxy env h \<Longrightarrow> direct env h' \<longleftrightarrow> direct env h"
  by (auto simp: direct_def used_proxy_def)

definition idle :: "http_env \<Rightarrow> http_client \<Rightarrow> bool" where
  "idle env h \<longleftrightarrow> direct env h \<and> hcPending h = [] \<and> hcCalls h = [] \<and> hcState h = Unconnected \<and> hcHostName h \<noteq> None \<and>
     hcSocket h \<in> {NoSocket, SockUnconnected} \<and> hcAuthenticator h = None"

definition request_text :: "string \<Rightarrow> http_client \<Rightarrow> string" where
  "request_text path h = ''GET '' @ path @ '' HTTP/1.1'' @ CRLF @ ''Connection: Keep-Alive'' @ CRLF @
     ''Host: '' @ host_value h @ CRLF @ CRLF"

lemma new_idle:
  "pxType (heApplicationProxy env) \<notin> {HttpProxy, HttpCachingProxy} \<Longrightarrow> idle env (hc_step env (hc_new fresh host port) EvCall)"
  by (simp add: idle_def direct_def used_proxy_def proxy_default_def hc_new_def hc_call_def hc_slotDoFinished_def)

lemma qarg_version:
  "qarg (qarg (qarg ('' HTTP/%3.%4'' @ CRLF @ ''%5'' @ CRLF) (dec_int 1)) (dec_int 1)) e =
    '' HTTP/1.1'' @ CRLF @ e @ CRLF"
proof -
  have dg: "is_digit CHR ''3''" "is_digit CHR ''4''" "is_digit CHR ''5''" "\<not> is_digit CHR ''.''" "\<not> is_digit CHR 0x0D"
      "digit_value CHR ''3'' = 3" "digit_value CHR ''4'' = 4" "digit_value CHR ''5'' = 5"
    by (simp_all add: is_digit_def digit_value_def)
  have one: "dec_int 1 = ''1''" by code_simp
  have p: "place_marker (CHR ''%'' # cs) = marker_digits (if cs \<noteq> [] \<and> hd cs = CHR ''L'' then tl cs else cs)" for cs
    by (simp add: place_marker.simps(2))
  show ?thesis unfolding one by (simp add: qarg_def p dg place_marker_no_percent min_def)
qed

lemma get_header_text:
  "hq_toString (hh_setValue ''Host'' host (keep_alive_header ''GET'' path)) =
    ''GET '' @ path @ '' HTTP/1.1'' @ CRLF @ ''Connection: Keep-Alive'' @ CRLF @ ''Host: '' @ host @ CRLF @ CRLF"
proof -
  have v: "hh_setValue ''Host'' host (keep_alive_header ''GET'' path) =
      \<lparr> hhValues = [(''Connection'', ''Keep-Alive''), (''Host'', host)], hhValid = True, hqMethod = ''GET'', hqPath = path,
        hqMajorVersion = 1, hqMinorVersion = 1 \<rparr>"
    by (simp add: keep_alive_header_def hq_new_def hh_setValue_def hh_addValue_def same_key_def toLower_def latin1_lower_def)
  show ?thesis unfolding v hq_toString_def using qarg_two [of "''GET''" path]
    by (simp add: qarg_version [simplified] hh_toString_def hh_text_def)
qed

text \<open>A request with the header \<^verbatim>\<open>Host\<close> up to the moment in which the connection stands.\<close>

definition sent_header :: "http_request_header \<Rightarrow> http_data \<Rightarrow> http_client \<Rightarrow> http_request_header" where
  "sent_header header data h =
     (let header = hh_setValue ''Host'' (host_value h) header
      in case data of
           NullData \<Rightarrow> header
         | ByteData b \<Rightarrow> hh_setContentLength (int (length b)) header
         | DeviceData c \<Rightarrow> hh_setContentLength (int (length c)) header)"

lemma send_connects:
  assumes "hcHostName h = Some host" "hcAuthenticator h = None" "hcSocket h = SockUnconnected" "direct env h"
  shows "hc_slotSendRequest env h =
    sock_connectToHost host (hcPort h) (hc_setState Connecting (h\<lparr> hcProxy := used_proxy env h \<rparr>))"
  using assms by (simp add: hc_slotSendRequest_def direct_choose hc_authorize_def sock_abort_def)

definition prepared :: "http_data \<Rightarrow> octets option \<Rightarrow> http_request_header \<Rightarrow> http_client \<Rightarrow> http_client" where
  "prepared data to header h =
     h\<lparr> hcHeader := header, hcToDevice := to, hcReconnectAttempts := 2,
       hcBuffer := (case data of ByteData b \<Rightarrow> b | _ \<Rightarrow> []), hcPostDevice := (case data of DeviceData c \<Rightarrow> Some (c, 0) | _ \<Rightarrow> None) \<rparr>"

lemma startPGH_prepared:
  assumes "hcSocket h \<in> {NoSocket, SockUnconnected}"
  obtains op where "hc_startPGH env header data to h = hc_slotSendRequest env (prepared data to (sent_header header data h)
    (h\<lparr> hcSocket := SockUnconnected, hcOpen := op,
       hcPending := (hd (hcPending h))\<lparr> rqKind := PGHRequest (hh_setValue ''Host'' (host_value h) header) data to \<rparr> # tl (hcPending h) \<rparr>))"
proof
  show "hc_startPGH env header data to h = hc_slotSendRequest env (prepared data to (sent_header header data h)
    (h\<lparr> hcSocket := SockUnconnected, hcOpen := (if hcSocket h = NoSocket then False else hcOpen h),
       hcPending := (hd (hcPending h))\<lparr> rqKind := PGHRequest (hh_setValue ''Host'' (host_value h) header) data to \<rparr> # tl (hcPending h) \<rparr>))"
    using assms
    by (cases h) (auto simp: hc_startPGH_def hc_startNormal_def prepared_def sent_header_def Let_def split: http_data.split)
qed

lemma pgh_connected:
  assumes "idle env h" "hqPath header \<noteq> []"
  obtains h3 where
    "hc_run env (hc_addRequest (PGHRequest header data to) h) [EvCall, EvConnected] = hc_slotConnected h3"
    "hcSocket h3 = SockConnected" "hcOpen h3" "hcSent h3 = hcSent h" "hcCalls h3 = []" "hcRba h3 = []" "hcState h3 = Connecting"
    "hcIn h3 = []" "hcToWrite h3 = 0" "hcHeader h3 = sent_header header data h" "hcToDevice h3 = to"
    "hcPending h3 = [\<lparr> rqId = hcNextId h, rqFinished = False,
       rqKind = PGHRequest (hh_setValue ''Host'' (host_value h) header) data to \<rparr>]"
    "hcBuffer h3 = (case data of ByteData b \<Rightarrow> b | _ \<Rightarrow> [])"
    "hcPostDevice h3 = (case data of DeviceData c \<Rightarrow> Some (c, 0) | _ \<Rightarrow> None)"
    "hcPendingPost h3 = hcPendingPost h" "hcHostName h3 = hcHostName h" "hcAuthenticator h3 = None" "hcProxy h3 = used_proxy env h"
    "hcOut h3 = hcOut h @ [RequestStarted (hcNextId h), StateChanged Connecting]"
proof -
  obtain host where host: "hcHostName h = Some host" using assms(1) by (auto simp: idle_def)
  let ?rq = "\<lparr> rqId = hcNextId h, rqFinished = False, rqKind = PGHRequest header data to \<rparr>"
  let ?h1 = "h\<lparr> hcPending := [?rq], hcNextId := hcNextId h + 1, hcCalls := [] \<rparr>"
  have 1: "hc_step env (hc_addRequest (PGHRequest header data to) h) EvCall = hc_startNextRequest env ?h1"
    using assms by (simp add: idle_def hc_enqueue_def hc_invoke_def hc_call_def root_path_def Let_def)
  define h2 where "h2 = hc_prepareNext ?h1"
  have h2: "hcPending h2 = [?rq]" "hcHostName h2 = Some host" "hcPort h2 = hcPort h" "hcSocket h2 = hcSocket h" "hcAuthenticator h2 = None"
      "hcSent h2 = hcSent h" "hcCalls h2 = []" "hcRba h2 = []" "hcState h2 = Unconnected" "hcPendingPost h2 = hcPendingPost h" "hcProxy h2 = hcProxy h"
      "hcOut h2 = hcOut h @ [RequestStarted (hcNextId h)]"
    using assms(1) host by (simp_all add: h2_def hc_prepareNext_def hc_emit_def hc_readAll_def hc_read_def idle_def
        hc_bytesAvailable_def Let_def)
  have hv: "host_value h2 = host_value h" using h2(2,3) host by (simp add: host_value_def)
  define h3 where "h3 = hc_startPGH env header data to h2"
  have 2: "hc_startNextRequest env ?h1 = h3"
    by (simp add: hc_startNextRequest.simps h2_def h3_def)
  obtain op where p: "h3 = hc_slotSendRequest env (prepared data to (sent_header header data h2)
      (h2\<lparr> hcSocket := SockUnconnected, hcOpen := op,
         hcPending := [?rq\<lparr> rqKind := PGHRequest (hh_setValue ''Host'' (host_value h2) header) data to \<rparr>] \<rparr>))"
    using startPGH_prepared [of h2 env header data to] assms(1) h2(1,4) by (auto simp: h3_def idle_def)
  define k where "k = prepared data to (sent_header header data h2)
      (h2\<lparr> hcSocket := SockUnconnected, hcOpen := op,
         hcPending := [?rq\<lparr> rqKind := PGHRequest (hh_setValue ''Host'' (host_value h2) header) data to \<rparr>] \<rparr>)"
  have "direct env k" using assms(1) h2 direct_same [of k h] by (simp add: k_def prepared_def idle_def)
  then have h3k: "h3 = sock_connectToHost host (hcPort k) (hc_setState Connecting (k\<lparr> hcProxy := used_proxy env k \<rparr>))"
    unfolding p k_def [symmetric] using h2 by (intro send_connects) (simp_all add: k_def prepared_def)
  have k: "hcProxy k = hcProxy h" "sent_header header data h2 = sent_header header data h"
    using h2 hv by (simp_all add: k_def prepared_def sent_header_def)
  have h3: "hcSocket h3 = SockConnecting" "hcOpen h3" "hcSent h3 = hcSent h" "hcCalls h3 = []" "hcRba h3 = []" "hcState h3 = Connecting"
    "hcIn h3 = []" "hcToWrite h3 = 0" "hcHeader h3 = sent_header header data h" "hcToDevice h3 = to"
    "hcPending h3 = [?rq\<lparr> rqKind := PGHRequest (hh_setValue ''Host'' (host_value h) header) data to \<rparr>]"
    "hcBuffer h3 = (case data of ByteData b \<Rightarrow> b | _ \<Rightarrow> [])"
    "hcPostDevice h3 = (case data of DeviceData c \<Rightarrow> Some (c, 0) | _ \<Rightarrow> None)"
    "hcPendingPost h3 = hcPendingPost h" "hcHostName h3 = hcHostName h" "hcAuthenticator h3 = None" "hcProxy h3 = used_proxy env h"
    "hcOut h3 = hcOut h @ [RequestStarted (hcNextId h), StateChanged Connecting]"
    using k h2 hv host
    by (simp_all add: h3k sock_connectToHost_def hc_setState_def hc_emit_def used_proxy_def) (simp_all add: k_def prepared_def)

  have "hc_run env (hc_addRequest (PGHRequest header data to) h) [EvCall, EvConnected] =
      hc_slotConnected (h3\<lparr> hcSocket := SockConnected \<rparr>)"
    unfolding run_Cons run_Nil 1 2 using h3(1) by simp
  then show thesis using h3 by (intro that [of "h3\<lparr> hcSocket := SockConnected \<rparr>"]) simp_all
qed

lemma get_sent:
  fixes env :: http_env
  assumes "idle env h" "path \<noteq> []"
  defines "g \<equiv> hc_run env (hc_get path h) [EvCall, EvConnected]"
  shows "frame g g" "hcState g = Sending" "hcIn g = []" "hcRba g = []" "hcSent g = hcSent h @ request_text path h"
    "\<exists>rq. hcPending g = [rq] \<and> \<not> rqFinished rq \<and> rqId rq = hcNextId h"
    "\<exists>sigs. hcOut g = hcOut h @ sigs \<and> list_all quiet sigs" "hcHostName g = hcHostName h" "hcAuthenticator g = None"
    "hcProxy g = used_proxy env h"
proof -
  have path: "hqPath (keep_alive_header ''GET'' path) \<noteq> []"
    using assms(2) by (simp add: keep_alive_header_def hq_new_def hh_setValue_def hh_addValue_def)
  have m: "hqMethod (hh_setValue ''Host'' x (keep_alive_header ''GET'' path)) = ''GET''" for x
    by (simp add: hh_setValue_def keep_alive_header_def hq_new_def hh_addValue_def split: option.split)
  obtain h3 where g: "g = hc_slotConnected h3" and
    h3: "hcSocket h3 = SockConnected" "hcOpen h3" "hcSent h3 = hcSent h" "hcCalls h3 = []" "hcRba h3 = []" "hcState h3 = Connecting"
      "hcIn h3 = []" "hcHeader h3 = sent_header (keep_alive_header ''GET'' path) NullData h" "hcToDevice h3 = None"
      "hcPending h3 = [\<lparr> rqId = hcNextId h, rqFinished = False,
         rqKind = PGHRequest (hh_setValue ''Host'' (host_value h) (keep_alive_header ''GET'' path)) NullData None \<rparr>]"
      "hcBuffer h3 = []" "hcPostDevice h3 = None" "hcHostName h3 = hcHostName h" "hcAuthenticator h3 = None" "hcProxy h3 = used_proxy env h"
      "hcOut h3 = hcOut h @ [RequestStarted (hcNextId h), StateChanged Connecting]"
    using pgh_connected [OF assms(1) path, of NullData None] unfolding g_def hc_get_def hc_get_to_def by auto
  note slot = g hc_slotConnected_def sock_write_def hc_setState_def hc_emit_def Let_def
  show "hcState g = Sending" "hcIn g = []" "hcRba g = []"
    "\<exists>sigs. hcOut g = hcOut h @ sigs \<and> list_all quiet sigs"
    "hcHostName g = hcHostName h" "hcAuthenticator g = None" "hcProxy g = used_proxy env h"
    "\<exists>rq. hcPending g = [rq] \<and> \<not> rqFinished rq \<and> rqId rq = hcNextId h"
    using h3 by (simp_all add: slot)
  show "hcSent g = hcSent h @ request_text path h"
    using h3 get_header_text [of "host_value h" path] by (simp add: slot sent_header_def request_text_def)
  show "frame g g" using h3 m by (simp add: slot frame_def hc_method_def)
qed

text \<open>The queued end of the request.\<close>

lemma exchange_ends:
  assumes "exchange_read g r body h" "hcPending g = [rq]" "\<not> rqFinished rq"
  shows "\<exists>h'. hc_step env h EvCall = heDone env False h' \<and> hcRba h' = body \<and> hcResponse h' = r \<and> hcPending h' = [] \<and>
    hcCalls h' = [] \<and> hcState h' = Connected \<and> hcSocket h' = SockConnected \<and> hcOpen h' \<and> hcSent h' = hcSent g \<and>
    hcHostName h' = hcHostName g \<and> hcAuthenticator h' = hcAuthenticator g \<and> hcProxy h' = hcProxy g \<and>
    (\<exists>sigs. hcOut h' = hcOut g @ sigs @ [RequestFinished (rqId rq) False, Done False] \<and> list_all quiet sigs)"
proof -
  have h: "hcCalls h = [CallDoFinished]" "hcState h = Connected" "hcPending h = [rq]" "hcRba h = body" "hcResponse h = r"
    using assms by (simp_all add: exchange_read_def frame_def)
  let ?h' = "hc_emit (Done False) (hc_removeFinished (h\<lparr> hcCalls := [] \<rparr>))"
  have "hc_step env h EvCall = heDone env False ?h'"
    using h assms(3) by (simp add: hc_call_def hc_slotDoFinished_def hc_finishedWithSuccess.simps)
  moreover have "hcOut ?h' = hcOut h @ [RequestFinished (rqId rq) False, Done False]"
    using h by (simp add: hc_removeFinished_def hc_emit_def Let_def)
  moreover have "hcRba ?h' = body" "hcResponse ?h' = r" "hcPending ?h' = []" "hcCalls ?h' = []" "hcState ?h' = Connected"
      "hcSocket ?h' = hcSocket h" "hcOpen ?h' = hcOpen h" "hcSent ?h' = hcSent h" "hcHostName ?h' = hcHostName h"
      "hcAuthenticator ?h' = hcAuthenticator h" "hcProxy ?h' = hcProxy h"
    using h by (simp_all add: hc_removeFinished_def hc_emit_def Let_def)
  ultimately show ?thesis using assms(1)
    by (intro exI [of _ ?h']) (auto simp: exchange_read_def frame_def)
qed

lemma get_exchange:
  assumes "idle env h" "path \<noteq> []"
    and "exchange_read (hc_run env (hc_get path h) [EvCall, EvConnected]) r body
      (hc_run env (hc_run env (hc_get path h) [EvCall, EvConnected]) (map EvReadyRead segs))"
  shows "\<exists>h'. hc_run env (hc_get path h) (EvCall # EvConnected # map EvReadyRead segs @ [EvCall]) = heDone env False h' \<and>
    hcRba h' = body \<and> hcResponse h' = r \<and> hcPending h' = [] \<and> hcCalls h' = [] \<and> hcState h' = Connected \<and>
    hcSocket h' = SockConnected \<and> hcOpen h' \<and> hcHostName h' \<noteq> None \<and> hcAuthenticator h' = None \<and> direct env h' \<and>
    hcSent h' = hcSent h @ request_text path h \<and>
    (\<exists>sigs. hcOut h' = hcOut h @ sigs @ [RequestFinished (hcNextId h) False, Done False] \<and> list_all quiet sigs)"
proof -
  define g where "g = hc_run env (hc_get path h) [EvCall, EvConnected]"
  obtain rq where rq: "hcPending g = [rq]" "\<not> rqFinished rq" "rqId rq = hcNextId h"
    using get_sent(6) [OF assms(1,2)] by (auto simp: g_def)
  have "hc_run env (hc_get path h) (EvCall # EvConnected # map EvReadyRead segs @ [EvCall]) =
      hc_step env (hc_run env g (map EvReadyRead segs)) EvCall"
    by (simp add: g_def run_append)
  moreover obtain h' where h': "hc_step env (hc_run env g (map EvReadyRead segs)) EvCall = heDone env False h'"
      "hcRba h' = body" "hcResponse h' = r" "hcPending h' = []" "hcCalls h' = []" "hcState h' = Connected"
      "hcSocket h' = SockConnected" "hcOpen h'" "hcSent h' = hcSent g" "hcHostName h' = hcHostName g"
      "hcAuthenticator h' = hcAuthenticator g" "hcProxy h' = hcProxy g"
      "\<exists>sigs. hcOut h' = hcOut g @ sigs @ [RequestFinished (rqId rq) False, Done False] \<and> list_all quiet sigs"
    using exchange_ends [OF assms(3)[folded g_def] rq(1,2), of env] by blast
  moreover obtain sigs sigs' where "hcOut g = hcOut h @ sigs" "list_all quiet sigs"
      "hcOut h' = hcOut g @ sigs' @ [RequestFinished (rqId rq) False, Done False]" "list_all quiet sigs'"
    using h'(13) get_sent(7) [OF assms(1,2), folded g_def] by blast
  moreover from this have "\<exists>sigs. hcOut h' = hcOut h @ sigs @ [RequestFinished (hcNextId h) False, Done False] \<and> list_all quiet sigs"
    using rq(3) by (intro exI [of _ "sigs @ sigs'"]) simp
  ultimately show ?thesis
    using get_sent(5,8,9,10) [OF assms(1,2), folded g_def] direct_used [of h' env h] assms(1) by (intro exI [of _ h']) (simp add: idle_def)
qed

text \<open>
  C13. A request for a path, and a response with a content length, in whatever segments TCP brings it:
  the client puts exactly the request on the wire, and ends it once and without an error, with the header
  and the whole body of the response.  The response is plain: it keeps the connection, has a body, and
  does not ask for credentials.\<close>

theorem http_sized_exchange:
  assumes "idle env h" "path \<noteq> []" "sized_reply r body body" "concat segs = hr_toString r @ body" "last segs \<noteq> []"
  shows "\<exists>h'. hc_run env (hc_get path h) (EvCall # EvConnected # map EvReadyRead segs @ [EvCall]) = heDone env False h' \<and>
    hcRba h' = body \<and> hcResponse h' = r \<and> hcPending h' = [] \<and> hcCalls h' = [] \<and> hcState h' = Connected \<and>
    hcSocket h' = SockConnected \<and> hcOpen h' \<and> hcHostName h' \<noteq> None \<and> hcAuthenticator h' = None \<and> direct env h' \<and>
    hcSent h' = hcSent h @ request_text path h \<and>
    (\<exists>sigs. hcOut h' = hcOut h @ sigs @ [RequestFinished (hcNextId h) False, Done False] \<and> list_all quiet sigs)"
  by (rule get_exchange [OF assms(1,2)], rule sized.response_read [OF assms(3,4)])
    (use assms(5) get_sent [OF assms(1,2)] in \<open>simp_all add: Suc_le_eq\<close>)

text \<open>
  C14. The same for a response in the chunked coding, however the server cuts its body into chunks and
  however TCP cuts the response into segments, as long as the last segment has at least two octets: the
  client ends the request once, with the data of all chunks.\<close>

theorem http_chunked_exchange:
  assumes "idle env h" "path \<noteq> []" "chunked_reply r payload body" "concat segs = hr_toString r @ payload"
    and "2 \<le> length (last segs)"
  shows "\<exists>h'. hc_run env (hc_get path h) (EvCall # EvConnected # map EvReadyRead segs @ [EvCall]) = heDone env False h' \<and>
    hcRba h' = body \<and> hcResponse h' = r \<and> hcPending h' = [] \<and> hcCalls h' = [] \<and> hcState h' = Connected \<and>
    hcSocket h' = SockConnected \<and> hcOpen h' \<and> hcHostName h' \<noteq> None \<and> hcAuthenticator h' = None \<and> direct env h' \<and>
    hcSent h' = hcSent h @ request_text path h \<and>
    (\<exists>sigs. hcOut h' = hcOut h @ sigs @ [RequestFinished (hcNextId h) False, Done False] \<and> list_all quiet sigs)"
  by (rule get_exchange [OF assms(1,2)], rule chunked.response_read [OF assms(3,4)])
    (use assms(5) get_sent [OF assms(1,2)] in simp_all)

subsection \<open>Witnesses\<close>

definition demo_response :: "(string \<times> string) list \<Rightarrow> http_response_header" where
  "demo_response kvs = \<lparr> hhValues = kvs, hhValid = True, hrStatusCode = 200, hrReasonPhrase = ''OK'', hrMajorVersion = 1,
     hrMinorVersion = 1 \<rparr>"

definition demo_http_env :: http_env where
  "demo_http_env = \<lparr> neMd4 = id, neMd5 = id, neUpper = id, neNow = 0, neFill = (\<lambda>_. CHR ''x''), heCnonce = ''c'',
     heFresh = demo_response [], heApplicationProxy = proxy_default, heUrl = (\<lambda>host port path. path), heReadFails = (\<lambda>_ _. False), heWrite = (\<lambda>_ arr. int (length arr)), heDone = (\<lambda>_ h. h) \<rparr>"

definition demo_client :: http_client where
  "demo_client =
     \<lparr> hcSocket = NoSocket, hcOpen = False, hcPeer = ([], 0), hcIn = [], hcSent = [], hcToWrite = 0, hcReconnectAttempts = 2, hcPending = [],
       hcNextId = 1, hcState = Unconnected, hcError = HttpNoError, hcErrorString = [], hcHostName = Some ''fronius'', hcPort = 80,
       hcBuffer = [], hcToDevice = None, hcPostDevice = None, hcBytesDone = 0, hcBytesTotal = 0, hcChunkedSize = -1, hcHeader = hq_new [] [] 1 1, hcReadHeader = False,
       hcHeaderStr = [], hcResponse = demo_response [], hcRba = [], hcAuthenticator = None, hcProxyAuthenticator = None,
       hcProxy = proxy_default, hcRepost = False, hcPendingPost = False, hcContinueTimer = False, hcHasFinishedWithError = False, hcCalls = [], hcOut = [] \<rparr>"

lemma demo_idle: "idle demo_http_env demo_client"
  by (simp add: idle_def direct_def used_proxy_def demo_client_def demo_http_env_def proxy_default_def)

lemma demo_plain:
  "list_all plain_value kvs \<Longrightarrow> toLower (hh_value ''connection'' (demo_response kvs)) \<noteq> ''close'' \<Longrightarrow>
   plain_reply (demo_response kvs)"
  by (simp add: plain_reply_def plain_response_def demo_response_def plain_text_def trimmed_def latin1_space_def)

lemma demo_lower:
  "toLower ''Content-Length'' = ''content-length''" "toLower ''content-length'' = ''content-length''"
  "toLower ''Transfer-Encoding'' = ''transfer-encoding''" "toLower ''transfer-encoding'' = ''transfer-encoding''"
  "toLower ''connection'' = ''connection''" "toLower ''chunked'' = ''chunked''" "toLower [] = []"
  by code_simp+

lemmas demo_simps = demo_response_def plain_value_def trimmed_def latin1_space_def hh_value_def same_key_def demo_lower
  is_chunked_def hh_hasKey_def hh_hasContentLength_def hh_contentLength_def text_toUInt_def is_digit_def undec_def digit_value_def
  contains_def starts_with_def upt_rec

lemma demo_sized: "sized_reply (demo_response [(''Content-Length'', ''5'')]) ''hello'' ''hello''"
proof -
  have "plain_reply (demo_response [(''Content-Length'', ''5'')])" by (rule demo_plain) (simp_all add: demo_simps)
  then show ?thesis by (simp add: sized_reply_def) (simp add: demo_simps)
qed

theorem http_sized_exchange_witness:
  "\<exists>h. hc_run demo_http_env (hc_get ''/a'' demo_client)
      [EvCall, EvConnected, EvReadyRead (hr_toString (demo_response [(''Content-Length'', ''5'')]) @ ''hel''), EvReadyRead ''lo'',
       EvCall] = h \<and>
    hcRba h = ''hello'' \<and> hcState h = Connected \<and> hcSent h = request_text ''/a'' demo_client"
  using http_sized_exchange [OF demo_idle _ demo_sized, of "''/a''"
    "[hr_toString (demo_response [(''Content-Length'', ''5'')]) @ ''hel'', ''lo'']"]
  by (simp add: demo_http_env_def demo_client_def del: hc_step.simps run_Cons)

lemma demo_chunk_size: "chunk_size (''3;x'' @ CRLF) = Some 3" "chunk_size (''0'' @ CRLF) = Some 0"
  by (simp_all add: chunk_size_def hex_toInt_def trimmed_def latin1_space_def hex_value_def unhex_def)

lemma demo_chunked:
  "chunked_reply (demo_response [(''Transfer-Encoding'', ''chunked'')]) (''3;x'' @ CRLF @ ''abc'' @ CRLF @ ''0'' @ CRLF @ CRLF) ''abc''"
proof -
  have "plain_reply (demo_response [(''Transfer-Encoding'', ''chunked'')])" by (rule demo_plain) (simp_all add: demo_simps)
  moreover have "is_chunked (demo_response [(''Transfer-Encoding'', ''chunked'')])" by (simp add: demo_simps)
  moreover have "chunk_text (''3;x'' @ CRLF @ ''abc'' @ CRLF @ ''0'' @ CRLF @ CRLF) (''abc'' @ [])"
    by (intro chunk last_chunk) (simp_all add: LF_def demo_chunk_size [simplified])
  ultimately show ?thesis by (simp add: chunked_reply_def)
qed

theorem http_chunked_exchange_witness:
  "\<exists>h. hc_run demo_http_env (hc_get ''/a'' demo_client)
      [EvCall, EvConnected, EvReadyRead (hr_toString (demo_response [(''Transfer-Encoding'', ''chunked'')]) @ ''3;x'' @ CRLF @ ''a''),
       EvReadyRead (''bc'' @ CRLF @ ''0'' @ CRLF), EvReadyRead CRLF, EvCall] = h \<and>
    hcRba h = ''abc'' \<and> hcState h = Connected"
  using http_chunked_exchange [OF demo_idle _ demo_chunked, of "''/a''"
    "[hr_toString (demo_response [(''Transfer-Encoding'', ''chunked'')]) @ ''3;x'' @ CRLF @ ''a'', ''bc'' @ CRLF @ ''0'' @ CRLF, CRLF]"]
  by (simp add: demo_http_env_def demo_client_def del: hc_step.simps run_Cons)

subsection \<open>Between exchanges\<close>

text \<open>
  The slot of the solar API client takes the body and closes the connection; with that the client is
  ready for the next request.
\<close>

lemma client_ready_again:
  assumes "hcPending h = []" "hcCalls h = []" "hcState h = Connected" "hcSocket h = SockConnected" "hcOpen h"
    "hcHostName h \<noteq> None" "hcAuthenticator h = None" "direct env h"
  shows "\<exists>h'. hc_run env (hc_close (snd (hc_readAll h))) [EvCall, EvCall] = heDone env False h' \<and> idle env h' \<and> hcSent h' = hcSent h"
proof -
  let ?rq = "\<lparr> rqId = hcNextId h, rqFinished = False, rqKind = CloseRequest \<rparr>"
  define h1 where "h1 = hc_prepareNext ((snd (hc_readAll h))\<lparr> hcPending := [?rq], hcNextId := hcNextId h + 1, hcCalls := [] \<rparr>)"
  have h1: "hcPending h1 = [?rq]" "hcCalls h1 = []" "hcState h1 = Connected" "hcSocket h1 = SockConnected" "hcOpen h1"
      "hcHostName h1 \<noteq> None" "hcAuthenticator h1 = None" "hcSent h1 = hcSent h" "hcProxy h1 = hcProxy h"
    using assms by (simp_all add: h1_def hc_prepareNext_def hc_emit_def hc_readAll_def hc_read_def Let_def)
  have 1: "hc_step env (hc_close (snd (hc_readAll h))) EvCall = hc_closeConn env h1"
    using assms by (simp add: hc_close_def hc_enqueue_def hc_invoke_def hc_call_def Let_def hc_startNextRequest.simps h1_def
        hc_readAll_def hc_read_def)
  define h2 where "h2 = hc_closeConn env h1"
  have h2: "hcPending h2 = [?rq]" "hcCalls h2 = [CallDoFinished]" "hcState h2 = Closing" "hcSocket h2 = SockUnconnected"
      "hcHostName h2 \<noteq> None" "hcAuthenticator h2 = None" "hcSent h2 = hcSent h" "hcProxy h2 = hcProxy h"
    using h1 by (simp_all add: h2_def hc_closeConn_def sock_close_def hc_slotClosed_def hc_invoke_def hc_setState_def hc_emit_def Let_def)
  let ?h' = "hc_emit (Done False) (hc_removeFinished (hc_setState Unconnected (h2\<lparr> hcCalls := [] \<rparr>)))"
  have "hc_step env h2 EvCall = heDone env False ?h'"
    using h2 by (simp add: hc_call_def hc_slotDoFinished_def hc_finishedWithSuccess.simps hc_setState_def hc_emit_def Let_def)
  moreover have "idle env ?h'" "hcSent ?h' = hcSent h"
    using h2 assms(8) direct_same [of ?h' h] by (simp_all add: idle_def hc_removeFinished_def hc_setState_def hc_emit_def Let_def)
  ultimately show ?thesis unfolding run_Cons run_Nil 1 h2_def [symmetric] by blast
qed

subsection \<open>What the reader does not get right\<close>

text \<open>
  A connection that the server has closed leaves the client unconnected, and a request to close it then
  never ends: whatever happens, the next request waits behind it.
\<close>

lemma close_blocks:
  fixes env :: http_env
  assumes "hcPending h = []" "hcCalls h = []" "hcState h = Unconnected" "hcSocket h = SockUnconnected"
    "\<not> hcContinueTimer h"
  defines "h1 \<equiv> hc_step env (hc_close h) EvCall"
  shows "map rqKind (hcPending h1) = [CloseRequest]"
    and "path \<noteq> [] \<Longrightarrow> hc_run env (hc_get path h1) es = hc_get path h1"
proof -
  let ?rq = "\<lparr> rqId = hcNextId h, rqFinished = False, rqKind = CloseRequest \<rparr>"
  have 1: "h1 = hc_closeConn env (hc_prepareNext (h\<lparr> hcPending := [?rq], hcNextId := hcNextId h + 1, hcCalls := [] \<rparr>))"
    using assms(1-5) by (simp add: h1_def hc_close_def hc_enqueue_def hc_invoke_def hc_call_def Let_def hc_startNextRequest.simps)
  have h1: "hcPending h1 = [?rq]" "hcCalls h1 = []" "hcSocket h1 = SockUnconnected" "\<not> hcContinueTimer h1"
    using assms(1-5) by (simp_all add: 1 hc_closeConn_def hc_prepareNext_def hc_emit_def hc_readAll_def hc_read_def Let_def)
  show "map rqKind (hcPending h1) = [CloseRequest]" by (simp add: h1)
  have stuck: "hc_step env k e = k" if "hcCalls k = []" "hcSocket k = SockUnconnected" "\<not> hcContinueTimer k" for k e
    using that by (cases e) (simp_all add: hc_call_def)
  have "hc_run env k es = k" if "hcCalls k = []" "hcSocket k = SockUnconnected" "\<not> hcContinueTimer k" for k
    using that stuck [of k] by (induction es) auto
  then show "hc_run env (hc_get path h1) es = hc_get path h1"
    using h1 by (auto simp: hc_get_def hc_get_to_def hc_enqueue_def Let_def)
qed

text \<open>
  A line end behind the last chunk that is cut in two is taken for data, and the reader waits for ever.
\<close>

lemma trailer_cut:
  "chunk_loop [CHR 0x0D] (-2) [] = (ChunkMore, [], -3, [CHR 0x0D])"
  "chunk_loop [LF] (-3) [] = (ChunkMore, [], -4, [LF])"
  by (simp_all add: chunk_loop.simps [of "_ # _"] chunk_loop.simps [of "[]"] chunk_step_def chunk_start_def chunk_read_def
      read_trailer.simps [of "_ # _"] LF_def)

text \<open>
  Octets behind a body that came in more than one segment: the reader takes as many as the whole body
  has, and goes past its end.
\<close>

lemma sized_overrun:
  assumes "in_body g r h" "sized_reply r body body" "hcChunkedSize h = -1" "hcIn h = []" "hcRba h @ s = body @ t" "t \<noteq> []"
    "length s \<le> length body" "s \<noteq> []"
  shows "hcState (hc_readBody env (h\<lparr> hcIn := hcIn h @ s \<rparr>)) = Reading"
    and "hcRba (hc_readBody env (h\<lparr> hcIn := hcIn h @ s \<rparr>)) = body @ t"
proof -
  have "int (length (hcRba h)) + int (length s) \<noteq> int (length body)" using arg_cong [OF assms(5), of length] assms(6) by (cases t) auto
  moreover have "min (int (length body)) (int (length s)) = int (length s)" using assms(7) by simp
  ultimately have "hc_readBody env (h\<lparr> hcIn := hcIn h @ s \<rparr>) = hc_store env s (h\<lparr> hcIn := [] \<rparr>)"
    using assms(1-5) by (simp add: hc_readBody_def in_body_def frame_def sized_reply_def plain_reply_def
        hc_bytesAvailable_def Let_def)
  then show "hcState (hc_readBody env (h\<lparr> hcIn := hcIn h @ s \<rparr>)) = Reading"
      "hcRba (hc_readBody env (h\<lparr> hcIn := hcIn h @ s \<rparr>)) = body @ t"
    using assms(1,5) by (simp_all add: store_fields in_body_def frame_def)
qed

end
