(* ===== verification/Solar_Http.thy ===== *)
theory Solar_Http
  imports Solar_Api Http_Exchange
begin

text \<open>
  The solar API client together with its HTTP client (\<^verbatim>\<open>froniussolar_api.cpp\<close> and \<^verbatim>\<open>qhttp/\<close>): what the
  slot of \<^verbatim>\<open>done\<close> does with the HTTP client, and a measurement on its way from the wire to the updater.
\<close>

text \<open>
  \<^verbatim>\<open>onDone\<close> with \<^verbatim>\<open>processReply\<close>: without an error the body is taken and the connection closed.  The body
  is text of one octet per character.
\<close>

definition sap_slotDone ::
    "json_env \<Rightarrow> bool \<Rightarrow> solar_api \<Rightarrow> http_client \<Rightarrow> (solar_api \<times> api_signal option) \<times> http_client" where
  "sap_slotDone env error s h =
     (let networkError = (if error then hcErrorString h else [])
      in if sapRequest s = None \<or> networkError \<noteq> [] then (sap_onDone env (Some networkError) [] s, h)
         else let (bytes, h) = hc_readAll h in (sap_onDone env None bytes s, hc_close h))"

lemma readAll_body: "fst (hc_readAll h) = hcRba h"
  by (simp add: hc_readAll_def hc_read_def)


definition common_response :: http_response_header where
  "common_response = demo_response [(''Content-Length'', ''2'')]"

lemma common_sized: "sized_reply common_response ''{}'' ''{}''"
proof -
  have "plain_reply common_response" unfolding common_response_def by (rule demo_plain) (simp_all add: demo_simps)
  then show ?thesis by (simp add: sized_reply_def) (simp add: common_response_def demo_simps)
qed

definition common_env :: json_env where
  "common_env = \<lparr> jeParse = (\<lambda>_. reply_json ''1'' 0 [] (common_json demo_common)), jeToDouble = (\<lambda>_. Fin 0), jeNumber = (\<lambda>_. []) \<rparr>"


end
