(* ===== verification/Http_Post.thy ===== *)
theory Http_Post
  imports Http_Exchange
begin

text \<open>
  A request whose body comes from a device (\<^verbatim>\<open>post\<close> and \<^verbatim>\<open>postMoreData\<close> in \<^verbatim>\<open>qhttp/qhttp.cpp\<close>): the body goes
  out piece by piece, as the socket tells how much it has sent.
\<close>

subsection \<open>The header\<close>

definition post_header :: "string \<Rightarrow> nat \<Rightarrow> http_client \<Rightarrow> http_request_header" where
  "post_header path n h = hh_setContentLength (int n) (hh_setValue ''Host'' (host_value h) (keep_alive_header ''POST'' path))"

definition post_text :: "string \<Rightarrow> nat \<Rightarrow> http_client \<Rightarrow> string" where
  "post_text path n h = ''POST '' @ path @ '' HTTP/1.1'' @ CRLF @ ''Connection: Keep-Alive'' @ CRLF @
     ''Host: '' @ host_value h @ CRLF @ ''content-length: '' @ dec n @ CRLF @ CRLF"

lemma post_header_values:
  "post_header path n h =
    \<lparr> hhValues = [(''Connection'', ''Keep-Alive''), (''Host'', host_value h), (''content-length'', dec n)], hhValid = True,
      hqMethod = ''POST'', hqPath = path, hqMajorVersion = 1, hqMinorVersion = 1 \<rparr>"
  by (simp add: post_header_def hh_setContentLength_def keep_alive_header_def hq_new_def hh_setValue_def hh_addValue_def
      same_key_def toLower_def latin1_lower_def dec_int_def)

lemma post_header_text: "hq_toString (post_header path n h) = post_text path n h"
  unfolding post_header_values hq_toString_def using qarg_two [of "''POST''" path]
  by (simp add: qarg_version [simplified] hh_toString_def hh_text_def post_text_def)

lemma post_header_plain: "\<not> expects_continue (post_header path n h)"
  by (simp add: expects_continue_def post_header_values hh_value_def same_key_def toLower_def latin1_lower_def contains_def
      starts_with_def)

subsection \<open>The body\<close>

text \<open>
  The client has put the text of the header and \<open>pos\<close> octets of the device on the wire.  Until the device
  is at its end, the socket has something to send, or the body waits for the answer of the server.
\<close>

definition posting :: "octets \<Rightarrow> octets \<Rightarrow> octets \<Rightarrow> nat \<Rightarrow> http_client \<Rightarrow> bool" where
  "posting sent hdr c pos h \<longleftrightarrow> hcSocket h = SockConnected \<and> pos \<le> length c \<and> hcSent h = sent @ hdr @ take pos c \<and>
     hcBytesDone h + int (hcToWrite h) = int (length hdr + pos) \<and> hcBytesTotal h = int (length hdr + length c) \<and>
     hcToWrite h \<le> max (length hdr) 4096 \<and>
     (case hcPostDevice h of
        None \<Rightarrow> pos = length c
      | Some device \<Rightarrow> device = (c, pos) \<and> (hcPendingPost h \<or> 0 < hcToWrite h))"

text \<open>One report of the socket.\<close>

lemma bytes_written_posting:
  assumes "posting sent hdr c pos h" "n \<le> hcToWrite h" "\<And>p. \<not> heReadFails env c p" "\<not> hcPendingPost h"
  shows "\<exists>pos'. posting sent hdr c pos' (hc_step env h (EvBytesWritten n)) \<and>
    \<not> hcPendingPost (hc_step env h (EvBytesWritten n)) \<and>
    hcBytesDone (hc_step env h (EvBytesWritten n)) = hcBytesDone h + int n"
proof -
  let ?h = "h\<lparr> hcToWrite := hcToWrite h - n, hcBytesDone := hcBytesDone h + int n,
    hcOut := hcOut h @ [DataSendProgress (hcBytesDone h + int n) (hcBytesTotal h)] \<rparr>"
  have step: "hc_step env h (EvBytesWritten n) = hc_postMoreData env ?h"
    using assms(1) by (simp add: posting_def hc_slotBytesWritten_def hc_emit_def Let_def)
  show ?thesis
  proof (cases "hcPostDevice h = None \<or> n < hcToWrite h")
    case True
    then have "hc_postMoreData env ?h = ?h" using assms(4) by (auto simp: hc_postMoreData_def split: option.split)
    then show ?thesis unfolding step using assms True
      by (intro exI [of _ pos]) (auto simp: posting_def split: option.splits)
  next
    case False
    then have p: "hcPostDevice h = Some (c, pos)" "n = hcToWrite h" "pos \<le> length c"
      using assms(1,2) by (auto simp: posting_def)
    define arr where "arr = take (min 4096 (length c - pos)) (drop pos c)"
    have "hc_postMoreData env ?h = sock_write arr
        (?h\<lparr> hcPostDevice := (if pos + length arr = length c then None else Some (c, pos + length arr)) \<rparr>)"
      using p assms(3,4) by (simp add: hc_postMoreData_def arr_def Let_def)
    moreover have "take pos c @ arr = take (pos + length arr) c"
      by (simp add: arr_def take_add)
    moreover have "length arr = min 4096 (length c - pos)" by (simp add: arr_def)
    ultimately show ?thesis unfolding step using assms(1,4) p
      by (intro exI [of _ "pos + length arr"]) (auto simp: posting_def sock_write_def)
  qed
qed

text \<open>Reports of the socket that it can give: each is of octets that it has not reported before.\<close>

fun reports :: "http_env \<Rightarrow> http_client \<Rightarrow> nat list \<Rightarrow> bool" where
  "reports env h [] \<longleftrightarrow> True"
| "reports env h (n # ns) \<longleftrightarrow> 0 < n \<and> n \<le> hcToWrite h \<and> reports env (hc_step env h (EvBytesWritten n)) ns"

lemma reports_posting:
  assumes "posting sent hdr c pos h" "reports env h ns" "\<And>p. \<not> heReadFails env c p" "\<not> hcPendingPost h"
  shows "\<exists>pos'. posting sent hdr c pos' (hc_run env h (map EvBytesWritten ns)) \<and>
    hcBytesDone (hc_run env h (map EvBytesWritten ns)) = hcBytesDone h + int (sum_list ns) \<and>
    \<not> hcPendingPost (hc_run env h (map EvBytesWritten ns))"
  using assms(1,2,4)
proof (induction ns arbitrary: h pos)
  case (Cons n ns)
  then obtain pos' where "posting sent hdr c pos' (hc_step env h (EvBytesWritten n))"
      "\<not> hcPendingPost (hc_step env h (EvBytesWritten n))"
      "hcBytesDone (hc_step env h (EvBytesWritten n)) = hcBytesDone h + int n"
    using bytes_written_posting [of sent hdr c pos h n env] assms(3) by auto
  then show ?case using Cons.IH [of pos' "hc_step env h (EvBytesWritten n)"] Cons.prems(2)
    by (simp del: hc_step.simps)
qed auto

lemma post_connected:
  fixes env :: http_env and c :: octets and to :: "octets option"
  assumes "idle env h" "path \<noteq> []" "\<not> hcPendingPost h"
  defines "g \<equiv> hc_run env (hc_post_device path c to h) [EvCall, EvConnected]"
  shows "posting (hcSent h) (post_text path (length c) h) c 0 g" "hcBytesDone g = 0" "\<not> hcPendingPost g"
proof -
  have path: "hqPath (keep_alive_header ''POST'' path) \<noteq> []"
    using assms(2) by (simp add: keep_alive_header_def hq_new_def hh_setValue_def hh_addValue_def)
  have hd: "sent_header (keep_alive_header ''POST'' path) (DeviceData c) h = post_header path (length c) h"
    by (simp add: sent_header_def post_header_def)
  have hdr: "hq_toString (post_header path (length c) h) \<noteq> []"
    unfolding post_header_text by (simp add: post_text_def)
  obtain h3 where g: "g = hc_slotConnected h3" and
    h3: "hcSocket h3 = SockConnected" "hcSent h3 = hcSent h" "hcState h3 = Connecting" "hcToWrite h3 = 0"
      "hcHeader h3 = post_header path (length c) h" "hcPostDevice h3 = Some (c, 0)" "\<not> hcPendingPost h3"
    using pgh_connected [OF assms(1) path, of "DeviceData c" to] assms(3) unfolding g_def hc_post_device_def hd by auto
  show "posting (hcSent h) (post_text path (length c) h) c 0 g" "hcBytesDone g = 0" "\<not> hcPendingPost g"
    using h3 hdr post_header_plain
    by (simp_all add: g hc_slotConnected_def sock_write_def hc_setState_def hc_emit_def Let_def posting_def post_header_text)
qed

text \<open>
  A request that posts the content of a device: whatever portions the socket reports as sent, the wire
  carries the header and then the content from its beginning, no more than 4096 octets of it wait in the
  socket, and as long as not all is reported the socket has something to send; when all is, the whole
  content has been sent.
\<close>

theorem http_post_device_sent:
  fixes env :: http_env and c :: octets and to :: "octets option"
  assumes "idle env h" "path \<noteq> []" "\<not> hcPendingPost h" "\<And>p. \<not> heReadFails env c p"
    and "reports env (hc_run env (hc_post_device path c to h) [EvCall, EvConnected]) ns"
  defines "h' \<equiv> hc_run env (hc_post_device path c to h) (EvCall # EvConnected # map EvBytesWritten ns)"
    and "hdr \<equiv> post_text path (length c) h"
  shows "(\<exists>k \<le> length c. hcSent h' = hcSent h @ hdr @ take k c) \<and> hcToWrite h' \<le> max (length hdr) 4096 \<and>
    hcBytesDone h' = int (sum_list ns) \<and> hcBytesTotal h' = int (length hdr + length c) \<and> hcBytesDone h' \<le> hcBytesTotal h' \<and>
    (if sum_list ns < length hdr + length c then 0 < hcToWrite h'
     else hcSent h' = hcSent h @ hdr @ c \<and> hcPostDevice h' = None)"
proof -
  obtain pos where p: "posting (hcSent h) hdr c pos h'" "hcBytesDone h' = int (sum_list ns)" "\<not> hcPendingPost h'"
    using reports_posting [OF post_connected(1) [OF assms(1-3)] assms(5,4) post_connected(3) [OF assms(1-3)]]
      post_connected(2) [OF assms(1-3), of c to] by (auto simp: h'_def hdr_def)
  show ?thesis
  proof (cases "hcPostDevice h'")
    case None
    then show ?thesis using p by (auto simp: posting_def intro!: exI [of _ "length c"])
  next
    case (Some device)
    then show ?thesis using p by (auto simp: posting_def)
  qed
qed

lemma demo_reads: "\<not> heReadFails demo_http_env c p"
  by (simp add: demo_http_env_def)

lemma demo_pending: "\<not> hcPendingPost demo_client" "hcSent demo_client = []"
  by (simp_all add: demo_client_def)

theorem http_post_device_sent_witness:
  "let h' = hc_run demo_http_env (hc_post_device ''/a'' ''xyz'' None demo_client)
     [EvCall, EvConnected, EvBytesWritten (length (post_text ''/a'' 3 demo_client)), EvBytesWritten 3]
   in hcSent h' = post_text ''/a'' 3 demo_client @ ''xyz'' \<and> hcPostDevice h' = None"
proof -
  let ?n = "length (post_text ''/a'' 3 demo_client)"
  have "reports demo_http_env (hc_run demo_http_env (hc_post_device ''/a'' ''xyz'' None demo_client) [EvCall, EvConnected]) [?n, 3]"
    by code_simp
  from http_post_device_sent [OF demo_idle _ _ _ this] show ?thesis
    by (simp add: demo_reads demo_pending numeral_3_eq_3 del: hc_step.simps run_Cons)
qed

subsection \<open>Waiting for the server\<close>

text \<open>
  A body that waits for \<^verbatim>\<open>100-continue\<close> is not touched by the socket; the answer, or the timer, starts it.
\<close>

lemma pending_post_waits:
  assumes "hcPendingPost h" "hcSocket h = SockConnected"
  shows "hcSent (hc_step env h (EvBytesWritten n)) = hcSent h" "hcPostDevice (hc_step env h (EvBytesWritten n)) = hcPostDevice h"
  using assms by (simp_all add: hc_slotBytesWritten_def hc_postMoreData_def hc_emit_def Let_def)

lemma continue_timer_sends:
  assumes "hcPendingPost h" "hcContinueTimer h" "hcPostDevice h = Some (c, 0)" "hcToWrite h = 0" "\<not> heReadFails env c 0"
  shows "hcSent (hc_step env h EvContinueTimer) = hcSent h @ take 4096 c"
    and "hcPostDevice (hc_step env h EvContinueTimer) = (if length c \<le> 4096 then None else Some (c, 4096))"
  using assms by (auto simp: hc_continuePost_def hc_slotBytesWritten_def hc_postMoreData_def hc_setState_def hc_emit_def
      sock_write_def min_def Let_def)

lemma continue_answer_queued:
  assumes "hcState h = Sending" "hcSocket h = SockConnected" "hcOpen h" "hcPendingPost h" "plain_response r" "hrStatusCode r = 100"
    "hcIn h = []"
  shows "hcCalls (hc_step env h (EvReadyRead (hr_toString r))) = hcCalls h @ [CallContinuePost]"
    and "\<not> hcContinueTimer (hc_step env h (EvReadyRead (hr_toString r)))"
proof -
  have i: "header_input (hr_toString r) [] = (True, [], response_text r)"
    using header_input_response [OF assms(5), of "[]"] hr_toString_lines [OF assms(5)] by simp
  have r: "hr_new (heFresh env) (response_text r) = r" using hr_new_text [OF assms(5), of "[]"] by simp
  have "hhValid r" using assms(5) by (simp add: plain_response_def)
  then show "hcCalls (hc_step env h (EvReadyRead (hr_toString r))) = hcCalls h @ [CallContinuePost]"
      "\<not> hcContinueTimer (hc_step env h (EvReadyRead (hr_toString r)))"
    using assms i r
    by (simp_all add: hc_slotReadyRead_def hc_readHeaders.simps hc_setState_def hc_emit_def hc_invoke_def Let_def)
qed

subsection \<open>Through a proxy\<close>

text \<open>With a proxy the connection goes to the proxy, and the request names the whole address.\<close>

lemma proxy_connects:
  assumes "hcHostName h = Some host" "used_proxy env h = px" "pxType px \<in> {HttpProxy, HttpCachingProxy}" "pxHost px \<noteq> []"
    and "hcProxyAuthenticator h = None" "hcAuthenticator h = None" "hcSocket h = SockUnconnected"
  defines "h' \<equiv> hc_slotSendRequest env h"
  shows "hcPeer h' = (pxHost px, pxPort px)" "hcSocket h' = SockConnecting" "hcState h' = Connecting"
    and "hqPath (hcHeader h') = heUrl env host (if hcPort h \<in> {0, 80} then 0 else hcPort h) (hqPath (hcHeader h))"
  using assms(1-7)
  by (auto simp: h'_def hc_slotSendRequest_def hc_chooseProxy_def hc_proxyRequest_def hc_authorize_def sock_abort_def
      sock_connectToHost_def hc_setState_def hc_emit_def hq_setRequest_def hh_setValue_def hh_addValue_def Let_def split: option.split)

text \<open>A proxy without an address is none.\<close>

lemma proxy_without_host:
  "pxHost (used_proxy env h) = [] \<Longrightarrow> pxType (used_proxy env h) \<in> {HttpProxy, HttpCachingProxy} \<Longrightarrow>
     hc_chooseProxy env h = (False, h\<lparr> hcProxy := (used_proxy env h)\<lparr> pxType := NoProxy \<rparr> \<rparr>)"
  by (auto simp: hc_chooseProxy_def Let_def)

subsection \<open>What the sender does not get right\<close>

text \<open>
  A connection that the server closes while the request is sent is made again, but the device is forgotten:
  the second time the header, with its length, goes out without the body.
\<close>

lemma retry_loses_body:
  fixes env :: http_env
  assumes "hcSocket h = SockConnected" "hcState h = Sending" "hcReconnectAttempts h \<noteq> 0" "hcPostDevice h = Some device"
    "hcCalls h = []" "hcHostName h = Some host" "hcAuthenticator h = None" "hcBuffer h = []"
    "direct env h"
  defines "h' \<equiv> hc_run env h [EvConnectionLost RemoteHostClosedError, EvCall, EvConnected]"
  shows "hcSent h' = hcSent h @ hq_toString (hcHeader h)" "hcHeader h' = hcHeader h" "hcPostDevice h' = None" "hcCalls h' = []"
proof -
  have "hc_chooseProxy env k = (False, k\<lparr> hcProxy := used_proxy env h \<rparr>)" if "hcProxy k = hcProxy h" for k
    using that assms(9) direct_choose [of env k] direct_same [of k h] by (simp add: used_proxy_def)
  then show "hcSent h' = hcSent h @ hq_toString (hcHeader h)" "hcHeader h' = hcHeader h" "hcPostDevice h' = None" "hcCalls h' = []"
    using assms(1-8)
    by (simp_all add: h'_def hc_connectionLost_def hc_slotError_def sock_abort_def sock_close_def sock_connectToHost_def hc_call_def
      hc_slotSendRequest_def hc_authorize_def hc_slotConnected_def sock_write_def hc_setState_def hc_emit_def hc_invoke_def Let_def)
qed

text \<open>The timer outlives the connection: it sets the state of a client without a connection to sending.\<close>

lemma stale_continue:
  assumes "hcSocket h = SockUnconnected" "hcState h = Unconnected" "hcPendingPost h" "hcContinueTimer h" "hcPostDevice h = None"
  shows "hcState (hc_step env h EvContinueTimer) = Sending" "hcSocket (hc_step env h EvContinueTimer) = SockUnconnected"
  using assms by (simp_all add: hc_continuePost_def hc_slotBytesWritten_def hc_postMoreData_def hc_setState_def hc_emit_def Let_def)

lemma closed_keeps_continue:
  assumes "hcPendingPost h" "hcContinueTimer h" "hcState h = Sending" "hcSocket h = SockConnected" "hcOpen h"
  shows "hcPendingPost (hc_closeConn env h) \<and> hcContinueTimer (hc_closeConn env h) \<and> hcPostDevice (hc_closeConn env h) = None"
  using assms by (simp add: hc_closeConn_def sock_close_def hc_slotClosed_def hc_setState_def hc_emit_def hc_invoke_def Let_def)

end
