(* ===== verification/Sunspec_Measurement.thy ===== *)
theory Sunspec_Measurement
  imports Sunspec_Updater Modbus_Tcp
begin

text \<open>
  A measurement on its whole way through the program: the request of the updater, the answer of the
  inverter in whatever segments TCP delivers it, the registers of the reply object, the scaled
  values of \<^verbatim>\<open>sunspec_tools.cpp\<close>, the items on the D-Bus.
\<close>

subsection \<open>The reply that a handler looks at\<close>

text \<open>
  \<^verbatim>\<open>handleModbusError\<close> and \<^verbatim>\<open>reply->registers()\<close>: the registers of a reply without an error.
\<close>

definition reply_registers :: "modbus_reply \<Rightarrow> u16 list option" where
  "reply_registers r = (if mError r = NoException then Some (mRegisters r) else None)"

lemma request_registered:
  assumes "tcp_readHoldingRegisters uid start count c = (rid, c1)"
  shows "rid = mNextReply c" "mBuffer c1 = mBuffer c" "mReplies c1 rid = Some new_reply"
    "map_of (mPendingReplies c1) (mTransactionId c1) = Some rid"
  using assms
  by (auto simp: tcp_readHoldingRegisters_def tcp_readRegisters_def tcp_createFrame_def
      tcp_sendFrame_def Let_def update_conv)

lemma request_inv:
  "tcp_inv c \<Longrightarrow> tcp_readHoldingRegisters uid start count c = (rid, c1) \<Longrightarrow> tcp_inv c1"
  using tcp_inv_requests(1) [of c ReadHoldingRegisters uid start count]
  by (simp add: tcp_readHoldingRegisters_def)

text \<open>The answer to a request, in any segments, ends up in the reply object of that request.\<close>

lemma answer_reaches_reply:
  assumes c: "tcp_inv c" "mBuffer c = []"
    and req: "tcp_readHoldingRegisters uid start count c = (rid, c1)"
    and len: "length values < 128"
    and ch: "concat chunks = response_frame (mTransactionId c1) uid (ReadResponse True values)"
  shows "\<exists>r. mReplies (foldl (tcp_onReadyRead (slot_read_next nxt)) c1 chunks) rid = Some r \<and>
    isFinished r \<and> reply_registers r = Some values"
proof -
  let ?answer = "(mTransactionId c1, uid, ReadResponse True values)"
  let ?c2 = "c1\<lparr> mPendingReplies := AList.delete (mTransactionId c1) (mPendingReplies c1) \<rparr>"
  note r = request_registered [OF req]
  have "foldl (tcp_onReadyRead (slot_read_next nxt)) c1 chunks = foldl (deliver (slot_read_next nxt)) c1 [?answer]"
    using len ch c(2) r(2) by (intro tcp.chunks_deliver) simp_all
  also have "\<dots> = tcp_finish (slot_read_next nxt) rid (Registers values) ?c2"
    using r(4) by (simp add: deliver_def tcp_setFinished_def tcp_popReply_def)
  also have "mReplies \<dots> rid = Some (fst (setResult (Registers values) new_reply))"
    using tcp.finish_reply [of ?c2 rid new_reply nxt rid "Registers values"] r(3)
      tcp_inv_delete [OF request_inv [OF c(1) req]] by simp
  finally show ?thesis by (auto simp: new_reply_def reply_registers_def)
qed

subsection \<open>Decimal values of registers\<close>

definition ten_to :: "int \<Rightarrow> rat" where
  "ten_to n = (if 0 \<le> n then 10 ^ nat n else 1 / 10 ^ nat (- n))"

text \<open>What a register and its scale factor stand for.\<close>

definition decimal :: "int \<Rightarrow> int \<Rightarrow> rat" where
  "decimal v n = of_int v * ten_to n"

lemma ten_to_rng: "\<bar>n\<bar> \<le> 10 \<Longrightarrow> rng 10 (ten_to n)"
proof -
  assume n: "\<bar>n\<bar> \<le> 10"
  have pos: "rng 10 (10 ^ k)" if "k \<le> 10" for k :: nat
  proof -
    have "(10 :: rat) ^ k \<le> 10 ^ 10" using that by (intro power_increasing) simp_all
    moreover have "1 / 10 ^ 10 \<le> (1 :: rat)" "(1 :: rat) \<le> 10 ^ k" by simp_all
    ultimately show ?thesis unfolding rng_def by (blast intro: order_trans)
  qed
  show ?thesis
    using n pos [of "nat n"] rng_inverse [OF pos [of "nat (- n)"]] by (auto simp: ten_to_def)
qed

lemma register_rng:
  assumes "0 \<le> v" "v < 2 ^ 32"
  shows "rng 10 (of_int v)"
proof (cases "v = 0")
  case False
  then have "of_int 1 \<le> (of_int v :: rat)" "of_int v \<le> (of_int (2 ^ 32) :: rat)"
    using assms unfolding of_int_le_iff by linarith+
  then show ?thesis by (simp add: rng_def)
qed simp

lemma times_pow10_near:
  assumes "0 \<le> v" "v < 2 ^ 32" "\<bar>n\<bar> \<le> 10"
  shows "\<exists>q. of_integer v * pow10 n = Fin q \<and> near 2 (decimal v n) q \<and> rng 22 q"
proof -
  obtain s where s: "pow10 n = Fin s" "near 1 (ten_to n) s" "rng 11 s"
    using rnd_rng [OF ten_to_rng [OF assms(3)]] by (auto simp: pow10_def ten_to_def)
  note vr = register_rng [OF assms(1,2)]
  obtain q where q: "rnd (of_int v * s) = Fin q" "near 1 (of_int v * s) q" "rng 22 q"
    using rnd_rng [OF rng_mult [OF vr s(3)]] by auto
  have "near (0 + 1) (decimal v n) (of_int v * s)"
    unfolding decimal_def using s(2) assms(1) rng_nonneg [OF ten_to_rng [OF assms(3)]]
    by (intro near_mult) simp_all
  from near_trans [OF this q(2)] have "near 2 (decimal v n) q" by (simp add: numeral_2_eq_2)
  moreover have "of_integer v = Fin (of_int v)" using assms by (intro of_integer_small) simp
  ultimately show ?thesis using s(1) q by simp
qed

text \<open>A published number is the decimal value up to a relative error of 2 to the power -49.\<close>

definition close_to :: "rat \<Rightarrow> dbl \<Rightarrow> bool" where
  "close_to x d \<longleftrightarrow> (\<exists>q. d = Fin q \<and> \<bar>q - x\<bar> \<le> x / 2 ^ 49)"

lemma decimal_nonneg: "0 \<le> v \<Longrightarrow> 0 \<le> decimal v n"
  by (simp add: decimal_def ten_to_def)

lemma close_to_decimal:
  assumes "0 \<le> v" "v < 2 ^ 32" "\<bar>n\<bar> \<le> 10"
  shows "close_to (decimal v n) (of_integer v * pow10 n)"
    "close_to (decimal v n / 1000) (of_integer v * pow10 n div Fin 1000)"
proof -
  obtain q where q: "of_integer v * pow10 n = Fin q" "near 2 (decimal v n) q" "rng 22 q"
    using times_pow10_near [OF assms] by auto
  have "rng 3 1000" by (simp add: rng_def)
  then obtain p where p: "rnd (q / 1000) = Fin p" "near 1 (q / 1000) p"
    using rnd_rng [OF rng_divide [OF q(3)], of 3 1000] by auto
  have "near (2 + 0) (decimal v n / 1000) (q / 1000)"
    using q(2) decimal_nonneg [OF assms(1)] by (intro near_divide) simp_all
  from near_trans [OF this p(2)] have n3: "near 3 (decimal v n / 1000) p" by (simp add: numeral_3_eq_3)
  show "close_to (decimal v n) (of_integer v * pow10 n)"
    using q(1) near_error [OF q(2)] decimal_nonneg [OF assms(1)] by (simp add: close_to_def)
  show "close_to (decimal v n / 1000) (of_integer v * pow10 n div Fin 1000)"
    using q(1) p(1) near_error [OF n3] decimal_nonneg [OF assms(1)] by (simp add: close_to_def)
qed

lemma close_to_published: "close_to x d \<Longrightarrow> close_to x (as_published d)"
  by (auto simp: close_to_def)

subsection \<open>The frame of an integer register map\<close>

text \<open>
  What a single phase inverter (model 101) puts into the 52 registers: the value and the scale factor
  of each measurement, the energy as two registers, the operating state.
\<close>

record reading =
  rdCurrent :: int
  rdCurrentScale :: int
  rdVoltage :: int
  rdVoltageScale :: int
  rdPower :: int
  rdPowerScale :: int
  rdEnergy :: int
  rdEnergyScale :: int
  rdState :: int

definition reading_frame :: "reading \<Rightarrow> u16 list \<Rightarrow> bool" where
  "reading_frame r values \<longleftrightarrow> length values = 52 \<and> values ! 0 = 101 \<and>
     uint (values ! 2) = rdCurrent r \<and> sint (values ! 6) = rdCurrentScale r \<and>
     uint (values ! 10) = rdVoltage r \<and> sint (values ! 13) = rdVoltageScale r \<and>
     sint (values ! 14) = rdPower r \<and> sint (values ! 15) = rdPowerScale r \<and>
     uint (values ! 24) * 2 ^ 16 + uint (values ! 25) = rdEnergy r \<and>
     sint (values ! 26) = rdEnergyScale r \<and> uint (values ! 38) = rdState r"

text \<open>A reading that is there: no reserved value, and scale factors within ten decimal places.\<close>

definition reading_ok :: "reading \<Rightarrow> bool" where
  "reading_ok r \<longleftrightarrow> rdCurrent r \<noteq> 0xFFFF \<and> rdVoltage r \<noteq> 0xFFFF \<and> 0 \<le> rdPower r \<and>
     rdEnergy r \<noteq> 0xFFFFFFFF \<and> \<bar>rdCurrentScale r\<bar> \<le> 10 \<and> \<bar>rdVoltageScale r\<bar> \<le> 10 \<and>
     \<bar>rdPowerScale r\<bar> \<le> 10 \<and> \<bar>rdEnergyScale r\<bar> \<le> 10"

lemma getScale_small:
  assumes "sint (reg_at vs i) = n" "\<bar>n\<bar> \<le> 10"
  shows "getScale vs i = pow10 n" "qIsFinite (getScale vs i)"
proof -
  obtain s where "pow10 n = Fin s"
    using rnd_rng [OF ten_to_rng [OF assms(2)]] by (auto simp: pow10_def ten_to_def)
  moreover have "reg_at vs i \<noteq> 0x8000" using assms by auto
  ultimately show "getScale vs i = pow10 n" "qIsFinite (getScale vs i)"
    using assms(1) by (simp_all add: getScale_def Let_def)
qed

lemma scaled_regs:
  assumes "\<bar>n\<bar> \<le> 10" "sint (reg_at vs k) = n"
  shows "uint (reg_at vs i) \<noteq> 0xFFFF \<Longrightarrow>
      getScaledValue vs i 1 k False = of_integer (uint (reg_at vs i)) * pow10 n"
    "0 \<le> sint (reg_at vs i) \<Longrightarrow>
      getScaledValue vs i 1 k True = of_integer (sint (reg_at vs i)) * pow10 n"
    "uint (reg32 vs i) \<noteq> 0xFFFFFFFF \<Longrightarrow>
      getScaledValue vs i 2 k False = of_integer (uint (reg32 vs i)) * pow10 n"
  using getScale_small [OF assms(2,1)] by (auto simp: getScaledValue_def Let_def)

lemma reading_regs:
  assumes "reading_frame r vs" "reading_ok r"
  shows "getScaledValue vs 2 1 6 False = of_integer (rdCurrent r) * pow10 (rdCurrentScale r)"
    "getScaledValue vs 10 1 13 False = of_integer (rdVoltage r) * pow10 (rdVoltageScale r)"
    "getScaledValue vs 14 1 15 True = of_integer (rdPower r) * pow10 (rdPowerScale r)"
    "getScaledValue vs 24 2 26 False = of_integer (rdEnergy r) * pow10 (rdEnergyScale r)"
    "uint (reg_at vs 38) = rdState r"
  using assms scaled_regs [of _ vs]
  by (auto simp: reading_frame_def reading_ok_def reg_at_def uint_reg32)

lemma reading_bounds:
  assumes "reading_frame r vs" "reading_ok r"
  shows "0 \<le> rdCurrent r" "rdCurrent r < 2 ^ 32" "0 \<le> rdVoltage r" "rdVoltage r < 2 ^ 32"
    "0 \<le> rdPower r" "rdPower r < 2 ^ 32" "0 \<le> rdEnergy r" "rdEnergy r < 2 ^ 32"
proof -
  have lt: "uint (vs ! i) < 65536" "sint (vs ! i) < 32768" for i
    using uint_lt2p [of "vs ! i"] sint_lt [of "vs ! i"] by simp_all
  note f = assms [unfolded reading_frame_def reading_ok_def]
  have "0 \<le> uint (vs ! 2)" "0 \<le> uint (vs ! 10)" by (rule uint_ge_0)+
  then show "0 \<le> rdCurrent r" "0 \<le> rdVoltage r" "0 \<le> rdPower r" using f by (simp_all only:)
  show "rdCurrent r < 2 ^ 32" "rdVoltage r < 2 ^ 32" "rdPower r < 2 ^ 32"
    using f lt(1) [of 2] lt(1) [of 10] lt(2) [of 14] by auto
  have e: "rdEnergy r = uint (vs ! 24) * 65536 + uint (vs ! 25)" using f by simp
  show "0 \<le> rdEnergy r" unfolding e by (intro add_nonneg_nonneg mult_nonneg_nonneg) simp_all
  show "rdEnergy r < 2 ^ 32" unfolding e using lt(1) [of 24] lt(1) [of 25] by simp
qed

lemma reading_close:
  assumes "reading_frame r vs" "reading_ok r"
  shows "close_to (decimal (rdCurrent r) (rdCurrentScale r)) (getScaledValue vs 2 1 6 False)"
    "close_to (decimal (rdVoltage r) (rdVoltageScale r)) (getScaledValue vs 10 1 13 False)"
    "close_to (decimal (rdPower r) (rdPowerScale r)) (getScaledValue vs 14 1 15 True)"
    "close_to (decimal (rdEnergy r) (rdEnergyScale r) / 1000) (getScaledValue vs 24 2 26 False div Fin 1000)"
  using assms(2) unfolding reading_regs [OF assms]
  by (auto intro!: close_to_decimal reading_bounds [OF assms] simp: reading_ok_def)

subsection \<open>From the frame to the D-Bus\<close>

text \<open>What is published for a reading, with the phase of the settings.\<close>

definition reading_published :: "reading \<Rightarrow> string \<Rightarrow> items \<Rightarrow> bool" where
  "reading_published r li m \<longleftrightarrow>
     close_to (decimal (rdPower r) (rdPowerScale r)) (getDouble ''Ac/Power'' m) \<and>
     close_to (decimal (rdPower r) (rdPowerScale r)) (getDouble (li @ ''/Power'') m) \<and>
     close_to (decimal (rdEnergy r) (rdEnergyScale r) / 1000) (getDouble ''Ac/Energy/Forward'' m) \<and>
     close_to (decimal (rdEnergy r) (rdEnergyScale r) / 1000) (getDouble (li @ ''/Energy/Forward'') m) \<and>
     close_to (decimal (rdCurrent r) (rdCurrentScale r)) (getDouble (li @ ''/Current'') m) \<and>
     close_to (decimal (rdVoltage r) (rdVoltageScale r)) (getDouble (li @ ''/Voltage'') m) \<and>
     item_value ''StatusCode'' m =
       (case sunspec_status (rdState r) of None \<Rightarrow> Invalid | Some s \<Rightarrow> VInt s)"

lemma setInverterState_items:
  "p \<noteq> ''StatusCode'' \<Longrightarrow> getDouble p (invItems (su_setInverterState s iv)) = getDouble p (invItems iv)"
  "item_value ''StatusCode'' (invItems (su_setInverterState s iv)) =
    (case sunspec_status s of None \<Rightarrow> Invalid | Some c \<Rightarrow> VInt c)"
  "invInfo (su_setInverterState s iv) = invInfo iv"
  by (simp_all add: su_setInverterState_def inv_setStatusCode_def inv_invalidateStatusCode_def
      split: option.split)

lemma su_int_map_single:
  assumes "reading_frame r vs" "reading_ok r"
    and iv: "phaseCount (invInfo iv) = 1" "inv_getPowerInfo (phase st) = Some li"
  obtains iv' where "su_int_map st vs (prev, iv) = Some (prev, iv')"
    "reading_published r li (invItems iv')" "invInfo iv' = invInfo iv"
proof -
  note cl = reading_close [OF assms(1,2)]
  define cid where "cid = su_common (getScaledValue vs 2 1 6 False) (getScaledValue vs 14 1 15 True)
    (getScaledValue vs 10 1 13 False) (getScaledValue vs 24 2 26 False)"
  obtain iv1 where iv1: "dp_process_common st cid iv = Some iv1"
    "getDouble ''Ac/Power'' (invItems iv1) = as_published (cdAcPower cid)"
    "getDouble ''Ac/Energy/Forward'' (invItems iv1) = as_published (cdTotalEnergy cid div Fin 1000)"
    "getDouble (li @ ''/Power'') (invItems iv1) = as_published (cdAcPower cid)"
    "getDouble (li @ ''/Energy/Forward'') (invItems iv1) = as_published (cdTotalEnergy cid div Fin 1000)"
    "getDouble (li @ ''/Current'') (invItems iv1) = as_published (cdAcCurrent cid)"
    "getDouble (li @ ''/Voltage'') (invItems iv1) = as_published (cdAcVoltage cid)"
    using dp_common_single_lemma [of iv st li cid] iv by auto
  have li: "li \<in> {''Ac/L1'', ''Ac/L2'', ''Ac/L3''}" "phase st \<noteq> MultiPhase"
    using iv(2) by (auto simp: inv_getPowerInfo_def phases split: if_splits)
  have "qIsFinite (getScaledValue vs 14 1 15 True)" using cl(3) by (auto simp: close_to_def)
  moreover have "\<not> phaseCount (invInfo iv1) > 1" using iv(1) dp_process_common_info [OF iv1(1)] by simp
  ultimately have "su_int_map st vs (prev, iv) = Some (prev, su_setInverterState (rdState r) iv1)"
    using iv1(1) li(2) reading_regs(5) [OF assms(1,2)]
    by (simp add: su_int_map_def su_measured_def Let_def cid_def)
  moreover have "reading_published r li (invItems (su_setInverterState (rdState r) iv1))"
    unfolding reading_published_def using iv1(2-7) cl li(1)
    by (auto simp: setInverterState_items cid_def su_common_def intro!: close_to_published)
  ultimately show thesis
    using that dp_process_common_info [OF iv1(1)] by (simp add: setInverterState_items)
qed

text \<open>The slot of a finished reply: the measurement is published, and the engine goes on.\<close>

lemma su_step_reading:
  assumes "reading_frame r vs" "reading_ok r"
    and u: "suState u = ReadPowerAndVoltage" "retrievalMode (su_info u) = ProtocolSunSpecIntSf"
      "phaseCount (su_info u) = 1" "inv_getPowerInfo (phase (suSettings u)) = Some li"
      "inv_validateSunspecMonitorFrame (suInverter u) vs"
  obtains u' where "su_step pr u (SuReadReply (Some vs)) = Some u'"
    "reading_published r li (invItems (suInverter u'))"
    "suState u' = (if suWriteRequested u then WritePowerLimit else Idle)" "suRetryCount u' = 0"
proof -
  obtain iv' where iv': "su_int_map (suSettings u) vs (suPrevious u, suInverter u) = Some (suPrevious u, iv')"
    "reading_published r li (invItems iv')"
    using su_int_map_single [OF assms(1,2) u(3) [unfolded su_info_def] u(4), of "suPrevious u"] by blast
  let ?u = "u\<lparr> suPending := tl (suPending u), suRetryCount := 0 \<rparr>"
  let ?s = "if suWriteRequested u then WritePowerLimit else Idle"
  have "vs \<noteq> []" "uint (vs ! 0) = 101" "length vs = 52" using assms(1) by (auto simp: reading_frame_def)
  then have "su_readPowerAndVoltage vs ?u = Some (?s, ?u\<lparr> suPrevious := suPrevious u, suInverter := iv' \<rparr>)"
    using u iv'(1) by (simp add: su_readPowerAndVoltage_def su_info_def Let_def)
  then have "su_step pr u (SuReadReply (Some vs)) =
      Some (su_startNextAction ?s (?u\<lparr> suPrevious := suPrevious u, suInverter := iv' \<rparr>))"
    using u(1) by (simp add: su_onReadCompleted_def Let_def)
  moreover have "suRetryCount (su_startNextAction s v) = suRetryCount v" for s v
    by (cases s) (simp_all add: su_startNextAction_def su_readHoldingRegisters_def
        su_writeMultipleHoldingRegisters_def su_startIdleTimer_def Let_def)
  ultimately show thesis using that iv'(2) by simp
qed

subsection \<open>Properties\<close>

text \<open>
  C5. A measurement of a single phase inverter with the integer register map gets from the wire to the
  D-Bus.  However TCP cuts the answer to the request of the updater into segments, the reply object
  of that request gets its registers, and the slot of the updater publishes the power, the energy in
  kWh, the current and the voltage that the registers and their scale factors stand for, with a
  relative error of at most 2^-49, for the inverter and for its phase, and the status code of the
  operating state; then the engine writes a power limit that was asked for meanwhile, or rests.
\<close>

theorem sunspec_reading_reaches_dbus:
  assumes "reading_frame r vs" "reading_ok r"
    and "suState u = ReadPowerAndVoltage" "retrievalMode (su_info u) = ProtocolSunSpecIntSf"
    and "phaseCount (su_info u) = 1" "inv_getPowerInfo (phase (suSettings u)) = Some li"
    and "inv_validateSunspecMonitorFrame (suInverter u) vs"
    and "tcp_inv c" "mBuffer c = []" "tcp_readHoldingRegisters uid start 52 c = (rid, c1)"
    and "concat chunks = response_frame (mTransactionId c1) uid (ReadResponse True vs)"
  shows "\<exists>reply u'. mReplies (foldl (tcp_onReadyRead (slot_read_next nxt)) c1 chunks) rid = Some reply \<and>
    su_step pr u (SuReadReply (reply_registers reply)) = Some u' \<and>
    reading_published r li (invItems (suInverter u')) \<and>
    suState u' = (if suWriteRequested u then WritePowerLimit else Idle) \<and> suRetryCount u' = 0"
proof -
  have "length vs < 128" using assms(1) by (simp add: reading_frame_def)
  with answer_reaches_reply [OF assms(8-10) _ assms(11)] obtain reply where
    "mReplies (foldl (tcp_onReadyRead (slot_read_next nxt)) c1 chunks) rid = Some reply"
    "reply_registers reply = Some vs" by blast
  moreover obtain u' where "su_step pr u (SuReadReply (Some vs)) = Some u'"
    "reading_published r li (invItems (suInverter u'))"
    "suState u' = (if suWriteRequested u then WritePowerLimit else Idle)" "suRetryCount u' = 0"
    using su_step_reading [OF assms(1-7)] .
  ultimately show ?thesis by (intro exI [of _ reply] exI [of _ u']) simp
qed

definition demo_frame :: "u16 list" where
  "demo_frame = [101, 50, 985, 985, 0xFFFF, 0xFFFF, 0xFFFE, 0xFFFF, 0xFFFF, 0xFFFF, 2301, 0xFFFF, 0xFFFF,
     0xFFFF, 2266, 0, 0, 0, 0, 0, 0, 0, 0, 0, 3, 53392, 0,
     0, 0, 0, 0, 0, 0, 0, 0, 0, 0, 0, 4, 0, 0, 0, 0, 0, 0, 0, 0, 0, 0, 0, 0, 0]"

definition demo_reading :: reading where
  "demo_reading = \<lparr> rdCurrent = 985, rdCurrentScale = - 2, rdVoltage = 2301, rdVoltageScale = - 1,
     rdPower = 2266, rdPowerScale = 0, rdEnergy = 250000, rdEnergyScale = 0, rdState = 4 \<rparr>"

definition demo_reader :: sunspec_updater where
  "demo_reader = (su_new (inverter_new BaseInverter ''dbus-fronius'' ''1.0''
       (new_device_info\<lparr> retrievalMode := ProtocolSunSpecIntSf, phaseCount := 1 \<rparr>) 20)
     inverter_settings_new)\<lparr> suState := ReadPowerAndVoltage \<rparr>"

lemma demo_frame: "reading_frame demo_reading demo_frame" "reading_ok demo_reading"
  by (simp_all add: reading_frame_def reading_ok_def demo_reading_def demo_frame_def)

lemma demo_reader:
  "suState demo_reader = ReadPowerAndVoltage" "retrievalMode (su_info demo_reader) = ProtocolSunSpecIntSf"
  "phaseCount (su_info demo_reader) = 1" "inv_getPowerInfo (phase (suSettings demo_reader)) = Some ''Ac/L1''"
  "inv_validateSunspecMonitorFrame (suInverter demo_reader) demo_frame" "\<not> suWriteRequested demo_reader"
  by (simp_all add: demo_reader_def su_info_def su_new_def su_connectToServer_def inverter_new_def
      inv_validateSunspecMonitorFrame_def phase_def inverter_settings_new_def inv_getPowerInfo_def)

definition demo_request :: "nat \<times> tcp_client" where
  "demo_request = tcp_readHoldingRegisters 126 40069 52 tcp_new"

definition demo_answer :: bytes where
  "demo_answer = response_frame (mTransactionId (snd demo_request)) 126 (ReadResponse True demo_frame)"

theorem sunspec_reading_reaches_dbus_witness:
  "\<exists>reply u'. mReplies (foldl (tcp_onReadyRead (slot_read_next (\<lambda>_ _. None))) (snd demo_request)
       [take 7 demo_answer, drop 7 demo_answer]) (fst demo_request) = Some reply \<and>
     su_step demo_products demo_reader (SuReadReply (reply_registers reply)) = Some u' \<and>
     close_to 2266 (getDouble ''Ac/Power'' (invItems (suInverter u'))) \<and>
     close_to 250 (getDouble ''Ac/L1/Energy/Forward'' (invItems (suInverter u'))) \<and>
     close_to (985 / 100) (getDouble ''Ac/L1/Current'' (invItems (suInverter u'))) \<and>
     item_value ''StatusCode'' (invItems (suInverter u')) = VInt 11 \<and> suState u' = Idle"
proof -
  let ?c = "foldl (tcp_onReadyRead (slot_read_next (\<lambda>_ _. None))) (snd demo_request)
    [take 7 demo_answer, drop 7 demo_answer]"
  have "mBuffer tcp_new = []" by (simp add: tcp_new_def)
  moreover have "tcp_readHoldingRegisters 126 40069 52 tcp_new = (fst demo_request, snd demo_request)"
    by (simp add: demo_request_def)
  moreover have "concat [take 7 demo_answer, drop 7 demo_answer] =
      response_frame (mTransactionId (snd demo_request)) 126 (ReadResponse True demo_frame)"
    by (simp add: demo_answer_def)
  ultimately obtain reply u' where r: "mReplies ?c (fst demo_request) = Some reply"
    and u': "su_step demo_products demo_reader (SuReadReply (reply_registers reply)) = Some u'"
      "reading_published demo_reading ''Ac/L1'' (invItems (suInverter u'))"
      "suState u' = (if suWriteRequested demo_reader then WritePowerLimit else Idle)"
    using sunspec_reading_reaches_dbus [OF demo_frame demo_reader(1-5) tcp_inv_new,
        where nxt = "\<lambda>_ _. None" and pr = demo_products] by blast
  have "close_to 2266 (getDouble ''Ac/Power'' (invItems (suInverter u')))"
    "close_to 250 (getDouble ''Ac/L1/Energy/Forward'' (invItems (suInverter u')))"
    "close_to (985 / 100) (getDouble ''Ac/L1/Current'' (invItems (suInverter u')))"
    "item_value ''StatusCode'' (invItems (suInverter u')) = VInt 11"
    using u'(2) by (simp_all add: reading_published_def demo_reading_def decimal_def ten_to_def sunspec_status_def)
  then show ?thesis using r u' demo_reader(6) by (intro exI [of _ reply] exI [of _ u']) simp
qed

end
