(* ===== verification/Item_Consumer.thy ===== *)
theory Item_Consumer
  imports Settings Inverter_Settings
begin

text \<open>
  How the settings objects connect to their items (\<^verbatim>\<open>VeQItemConsumer::connectItem\<close> in
  \<^verbatim>\<open>ve_qitem_consumer.cpp\<close>, and the constructors in \<^verbatim>\<open>settings.cpp\<close> and \<^verbatim>\<open>inverter_settings.cpp\<close>): the
  calls to localsettings, the items of the tree below the root, and the signals or slots that a change
  of an item is connected to.  An item is its path below the services of the producer.  Whether an item
  is a \<^verbatim>\<open>NoStorageQItem\<close> is the parameter \<open>noStorage\<close>.
\<close>

record setting_call =
  scSilent :: bool
  scGroup :: string
  scName :: string
  scDefault :: variant
  scType :: char
  scMin :: variant
  scMax :: variant

record item_consumer =
  icRoot :: string
  icItems :: "string list"
  icConnections :: "(string \<times> string) list"
  icForceSync :: "string list"
  icRead :: "string list"
  icSettings :: "setting_call list"

definition item_consumer_new :: "string \<Rightarrow> item_consumer" where
  "item_consumer_new base =
     \<lparr> icRoot = base, icItems = [], icConnections = [], icForceSync = [], icRead = [], icSettings = [] \<rparr>"

definition ic_setRoot :: "string \<Rightarrow> item_consumer \<Rightarrow> item_consumer" where
  "ic_setRoot base st = st\<lparr> icRoot := base \<rparr>"

fun default_of :: "variant \<Rightarrow> setting_default" where
  "default_of (VInt i) = DefInt i"
| "default_of (VDouble _) = DefDouble"
| "default_of (VString s) = DefString s"
| "default_of Invalid = DefOther"

text \<open>\<^verbatim>\<open>addSetting\<close> with the call that it makes.\<close>

definition ic_addSetting ::
    "string \<Rightarrow> variant \<Rightarrow> variant \<Rightarrow> variant \<Rightarrow> bool \<Rightarrow> item_consumer \<Rightarrow> item_consumer" where
  "ic_addSetting path defaultValue minValue maxValue silent st =
     (case addSetting (icRoot st) path (default_of defaultValue) of
        None \<Rightarrow> st
      | Some (grp, name, ty) \<Rightarrow>
          st\<lparr> icSettings := icSettings st @
               [\<lparr> scSilent = silent, scGroup = grp, scName = name, scDefault = defaultValue, scType = ty,
                  scMin = minValue, scMax = maxValue \<rparr>] \<rparr>)"

text \<open>
  \<^verbatim>\<open>connectItem\<close> for a variable that holds \<open>item\<close> before: the new content of the variable.  A null
  pointer for the signal connects nothing.
\<close>

definition ic_item :: "string \<Rightarrow> item_consumer \<Rightarrow> string" where
  "ic_item path st = icRoot st @ ''/'' @ path"

definition ic_disconnect :: "string option \<Rightarrow> string option \<Rightarrow> item_consumer \<Rightarrow> item_consumer" where
  "ic_disconnect item signal st =
     (case (item, signal) of
        (Some i, Some s) \<Rightarrow> st\<lparr> icConnections := filter (\<lambda>c. c \<noteq> (i, s)) (icConnections st) \<rparr>
      | _ \<Rightarrow> st)"

definition ic_connect :: "string \<Rightarrow> string option \<Rightarrow> item_consumer \<Rightarrow> item_consumer" where
  "ic_connect item signal st =
     (case signal of None \<Rightarrow> st | Some s \<Rightarrow> st\<lparr> icConnections := icConnections st @ [(item, s)] \<rparr>)"

definition connectItem ::
    "(string \<Rightarrow> bool) \<Rightarrow> string option \<Rightarrow> string \<Rightarrow> string option \<Rightarrow> bool \<Rightarrow> item_consumer \<Rightarrow> string \<times> item_consumer" where
  "connectItem noStorage item path signal forceSync st =
     (let newItem = ic_item path st;
          st = (if newItem \<in> set (icItems st) then st else st\<lparr> icItems := icItems st @ [newItem] \<rparr>)
      in if item = Some newItem then (newItem, st)
         else
           let st = ic_connect newItem signal (ic_disconnect item signal st);
               st = (if forceSync \<and> noStorage newItem then st\<lparr> icForceSync := icForceSync st @ [newItem] \<rparr> else st)
           in (newItem, st\<lparr> icRead := icRead st @ [newItem] \<rparr>))"

text \<open>The overloads that return the item.\<close>

definition connectItem_new ::
    "(string \<Rightarrow> bool) \<Rightarrow> string \<Rightarrow> string option \<Rightarrow> bool \<Rightarrow> item_consumer \<Rightarrow> string \<times> item_consumer" where
  "connectItem_new noStorage path signal forceSync st = connectItem noStorage None path signal forceSync st"

definition connectItem_double ::
    "(string \<Rightarrow> bool) \<Rightarrow> string \<Rightarrow> dbl \<Rightarrow> dbl \<Rightarrow> dbl \<Rightarrow> string option \<Rightarrow> bool \<Rightarrow> item_consumer \<Rightarrow> string \<times> item_consumer" where
  "connectItem_double noStorage path defaultValue minValue maxValue signal silent st =
     connectItem_new noStorage path signal False
       (ic_addSetting path (VDouble defaultValue) (VDouble minValue) (VDouble maxValue) silent st)"

definition connectItem_int ::
    "(string \<Rightarrow> bool) \<Rightarrow> string \<Rightarrow> int \<Rightarrow> string option \<Rightarrow> bool \<Rightarrow> item_consumer \<Rightarrow> string \<times> item_consumer" where
  "connectItem_int noStorage path defaultValue signal silent st =
     connectItem_new noStorage path signal False (ic_addSetting path (VInt defaultValue) (VInt 0) (VInt 0) silent st)"

definition connectItem_string ::
    "(string \<Rightarrow> bool) \<Rightarrow> string \<Rightarrow> string \<Rightarrow> string option \<Rightarrow> bool \<Rightarrow> item_consumer \<Rightarrow> string \<times> item_consumer" where
  "connectItem_string noStorage path defaultValue signal silent st =
     connectItem_new noStorage path signal False (ic_addSetting path (VString defaultValue) (VInt 0) (VInt 0) silent st)"

text \<open>The slots and signals that a change of an item calls, in their order.\<close>

definition ic_valueChanged :: "string \<Rightarrow> item_consumer \<Rightarrow> string list" where
  "ic_valueChanged item st = map snd (filter (\<lambda>c. fst c = item) (icConnections st))"

subsection \<open>The constructors\<close>

definition inverter_settings_connect :: "(string \<Rightarrow> bool) \<Rightarrow> item_consumer \<Rightarrow> item_consumer" where
  "inverter_settings_connect ns =
     snd \<circ> connectItem_string ns ''SerialNumber'' [] None False \<circ>
     snd \<circ> connectItem_double ns ''L3Energy'' (Fin 0) (Fin 0) (Fin 1000000) (Some ''l3EnergyChanged'') True \<circ>
     snd \<circ> connectItem_double ns ''L2Energy'' (Fin 0) (Fin 0) (Fin 1000000) (Some ''l2EnergyChanged'') True \<circ>
     snd \<circ> connectItem_double ns ''L1Energy'' (Fin 0) (Fin 0) (Fin 1000000) (Some ''l1EnergyChanged'') True \<circ>
     snd \<circ> connectItem_int ns ''IsActive'' 1 (Some ''isActiveChanged'') False \<circ>
     snd \<circ> connectItem_string ns ''CustomName'' [] (Some ''customNameChanged'') False \<circ>
     snd \<circ> connectItem_int ns ''Position'' Input1 (Some ''positionChanged'') False \<circ>
     snd \<circ> connectItem_int ns ''PhaseCount'' 1 None False \<circ>
     snd \<circ> connectItem_int ns ''Phase'' PhaseL1 (Some ''phaseChanged'') False"

definition settings_connect :: "(string \<Rightarrow> bool) \<Rightarrow> item_consumer \<Rightarrow> item_consumer" where
  "settings_connect ns =
     snd \<circ> connectItem_int ns ''AutoScan'' 1 None False \<circ>
     snd \<circ> connectItem_string ns ''InverterIds'' [] (Some ''onInverterdIdsChanged'') False \<circ>
     snd \<circ> connectItem_string ns ''KnownIPAddresses'' [] None False \<circ>
     snd \<circ> connectItem_string ns ''IPAddresses'' [] (Some ''ipAddressesChanged'') False \<circ>
     snd \<circ> connectItem_int ns ''PortNumber'' 80 (Some ''portNumberChanged'') False \<circ>
     snd \<circ> connectItem_int ns ''UnitId'' 3 (Some ''unitIdChanged'') False \<circ>
     snd \<circ> connectItem_string ns ''GridCode'' [] (Some ''gridCodeChanged'') False"

subsection \<open>The calls to localsettings\<close>

lemma remove_all_absent: "x \<in> set before \<Longrightarrow> x \<notin> set s \<Longrightarrow> remove_all before s = s"
proof (induction s)
  case (Cons c cs)
  have "take (length before) (c # cs) \<noteq> before"
    using Cons.prems by (metis in_set_takeD)
  then show ?case using Cons by (simp add: remove_all.simps [of before "c # cs"])
qed (simp add: remove_all.simps)

lemma remove_all_prefix: "before \<noteq> [] \<Longrightarrow> remove_all before (before @ s) = remove_all before s"
  by (cases before) (simp_all add: remove_all.simps [of _ "_ # _"])

lemma index_of_first:
  assumes "i < length s" "from \<le> i" "s ! i = c" "\<And>j. from \<le> j \<Longrightarrow> j < i \<Longrightarrow> s ! j \<noteq> c"
  shows "index_of c from s = Some i"
  unfolding index_of_def find_Some_iff
  using assms by (intro exI [of _ "i - from"]) auto

lemma last_index_of_last:
  assumes "c \<notin> set b"
  shows "last_index_of c (a @ c # b) = Some (length a)"
  unfolding last_index_of_def find_Some_iff
proof (intro exI [of _ "length b"] conjI allI impI)
  fix j
  assume "j < length b"
  then have "rev [0..<length (a @ c # b)] ! j = length a + Suc (length b - Suc j)"
    by (subst rev_nth) (simp_all del: upt_Suc)
  then have "(a @ c # b) ! (rev [0..<length (a @ c # b)] ! j) = b ! (length b - Suc j)"
    by (simp only: nth_append_length_plus nth_Cons_Suc)
  then show "(a @ c # b) ! (rev [0..<length (a @ c # b)] ! j) \<noteq> c"
    using \<open>j < length b\<close> assms nth_mem [of "length b - Suc j" b] by auto
next
  have "rev [0..<length (a @ c # b)] ! length b = length a"
    by (subst rev_nth) (simp_all del: upt_Suc)
  then show "(a @ c # b) ! (rev [0..<length (a @ c # b)] ! length b) = c"
      "length a = rev [0..<length (a @ c # b)] ! length b"
    by simp_all
qed simp

definition settings_root :: string where
  "settings_root = ''/com.victronenergy.settings/Settings/''"

lemma addSetting_group:
  assumes "grp \<noteq> []" "CHR ''.'' \<notin> set grp" "{CHR ''.'', CHR ''/''} \<inter> set name = {}" "setting_type def = Some t"
  shows "addSetting (settings_root @ grp) name def = Some (grp, name, t)"
proof -
  let ?px = "''/Settings/'' @ grp @ ''/'' @ name"
  have "remove_all ''/com.victronenergy.settings'' ((settings_root @ grp) @ ''/'' @ name) = ?px"
    using assms remove_all_prefix [of "''/com.victronenergy.settings''" ?px]
      remove_all_absent [of "CHR ''.''" "''/com.victronenergy.settings''" ?px]
    by (simp add: settings_root_def)
  moreover have "index_of (CHR ''/'') 1 ?px = Some 9"
  proof (rule index_of_first)
    fix j :: nat
    assume "1 \<le> j" "j < 9"
    then have "j \<in> {1, 2, 3, 4, 5, 6, 7, 8}" by auto
    then show "?px ! j \<noteq> CHR ''/''" by auto
  qed simp_all
  moreover have "last_index_of (CHR ''/'') ?px = Some (length ''/Settings/'' + length grp)"
    using last_index_of_last [of "CHR ''/''" name "''/Settings/'' @ grp"] assms(3) by simp
  ultimately show ?thesis
    using assms(1,4) by (simp add: addSetting_def mid_def Let_def)
qed

text \<open>One call for a setting, with the group of its root.\<close>

lemma ic_addSetting_group:
  assumes "icRoot st = settings_root @ grp" "grp \<noteq> []" "CHR ''.'' \<notin> set grp" "{CHR ''.'', CHR ''/''} \<inter> set name = {}"
    and "setting_type (default_of v) = Some t"
  shows "ic_addSetting name v lo hi silent st =
      st\<lparr> icSettings := icSettings st @
        [\<lparr> scSilent = silent, scGroup = grp, scName = name, scDefault = v, scType = t, scMin = lo, scMax = hi \<rparr>] \<rparr>"
  using addSetting_group [OF assms(2-5)] assms(1) by (simp add: ic_addSetting_def)

lemma connectItem_new_simps:
  "icRoot (snd (connectItem_new ns path signal f st)) = icRoot st"
  "icSettings (snd (connectItem_new ns path signal f st)) = icSettings st"
  "icConnections (snd (connectItem_new ns path signal f st)) =
     icConnections st @ (case signal of None \<Rightarrow> [] | Some s \<Rightarrow> [(ic_item path st, s)])"
  by (simp_all add: connectItem_new_def connectItem_def ic_disconnect_def ic_connect_def Let_def split: option.split)

lemmas connect_overloads = connectItem_double_def connectItem_int_def connectItem_string_def

lemma createInverterId_plain: "{CHR ''.'', CHR ''/''} \<inter> set (createInverterId s) = {}"
proof -
  have "\<not> id_char (CHR ''.'')" "\<not> id_char (CHR ''/'')" by (simp_all add: id_char_def)
  then show ?thesis using createInverterId_chars [of s] by (auto simp: list_all_iff)
qed

definition inverter_group :: "string \<Rightarrow> string" where
  "inverter_group serial = ''Fronius/Inverters/'' @ createInverterId serial"

lemma inverter_group_plain: "inverter_group serial \<noteq> []" "CHR ''.'' \<notin> set (inverter_group serial)"
  using createInverterId_plain [of serial] by (auto simp: inverter_group_def)

text \<open>A call with the limits of an integer or a text, and one for an energy.\<close>

definition plain_call :: "string \<Rightarrow> string \<Rightarrow> variant \<Rightarrow> char \<Rightarrow> setting_call" where
  "plain_call grp name v t =
     \<lparr> scSilent = False, scGroup = grp, scName = name, scDefault = v, scType = t, scMin = VInt 0, scMax = VInt 0 \<rparr>"

definition energy_call :: "string \<Rightarrow> string \<Rightarrow> setting_call" where
  "energy_call grp name =
     \<lparr> scSilent = True, scGroup = grp, scName = name, scDefault = VDouble (Fin 0), scType = CHR ''f'',
        scMin = VDouble (Fin 0), scMax = VDouble (Fin 1000000) \<rparr>"

text \<open>
  C39. Whatever the serial number of an inverter, its settings object asks localsettings for its nine
  settings in the group of the inverter, and each of its items that may change is connected to the one
  signal of the object.
\<close>

theorem inverter_settings_registered:
  "let base = settings_root @ inverter_group serial;
       st = inverter_settings_connect ns (item_consumer_new base);
       grp = inverter_group serial
   in icSettings st =
        [plain_call grp ''Phase'' (VInt PhaseL1) (CHR ''i''), plain_call grp ''PhaseCount'' (VInt 1) (CHR ''i''),
         plain_call grp ''Position'' (VInt Input1) (CHR ''i''), plain_call grp ''CustomName'' (VString []) (CHR ''s''),
         plain_call grp ''IsActive'' (VInt 1) (CHR ''i''), energy_call grp ''L1Energy'', energy_call grp ''L2Energy'',
         energy_call grp ''L3Energy'', plain_call grp ''SerialNumber'' (VString []) (CHR ''s'')] \<and>
      map (\<lambda>name. ic_valueChanged (base @ ''/'' @ name) st)
        [''Phase'', ''PhaseCount'', ''Position'', ''CustomName'', ''IsActive'', ''L1Energy'', ''L2Energy'', ''L3Energy'', ''SerialNumber''] =
        [[''phaseChanged''], [], [''positionChanged''], [''customNameChanged''], [''isActiveChanged''],
         [''l1EnergyChanged''], [''l2EnergyChanged''], [''l3EnergyChanged''], []]"
  unfolding Let_def inverter_settings_connect_def comp_apply connect_overloads
  by (simp add: ic_addSetting_group [where grp = "inverter_group serial"] inverter_group_plain connectItem_new_simps
      item_consumer_new_def ic_valueChanged_def ic_item_def plain_call_def energy_call_def)

subsection \<open>Connecting again\<close>

text \<open>A variable that holds the item is left alone; another item takes the connection over.\<close>

lemma connectItem_same:
  "ic_item path st \<in> set (icItems st) \<Longrightarrow> connectItem ns (Some (ic_item path st)) path signal f st = (ic_item path st, st)"
  by (simp add: connectItem_def Let_def)

lemma connectItem_moves:
  assumes "connectItem ns (Some old) path (Some s) f st = (new, st')" "old \<noteq> new"
  shows "s \<notin> set (ic_valueChanged old st')" "ic_valueChanged new st' = ic_valueChanged new st @ [s]"
  using assms
  by (auto simp: connectItem_def ic_disconnect_def ic_connect_def ic_valueChanged_def Let_def
      split: if_splits intro!: arg_cong [where f = "map snd"] filter_cong)

text \<open>The overloads that return the item do not know of an earlier connection: called twice they connect twice.\<close>

lemma connectItem_new_twice:
  "ic_valueChanged (ic_item path st)
     (snd (connectItem_new ns path (Some s) f (snd (connectItem_new ns path (Some s) f st)))) =
   ic_valueChanged (ic_item path st) st @ [s, s]"
  by (simp add: ic_valueChanged_def connectItem_new_simps ic_item_def)

end
