(* ===== verification/Json.thy ===== *)
theory Json
  imports Dbl Strings "HOL-Library.AList" "HOL-Library.List_Lexorder"
begin

text \<open>
  The JSON converter (\<^verbatim>\<open>json/json.cpp\<close>): values of Qt become values of the script engine, on which the
  functions \<^verbatim>\<open>JSON.stringify\<close> and \<^verbatim>\<open>JSON.parse\<close> of the engine work.  These two are the environment.  A
  \<^verbatim>\<open>QVariantMap\<close> is the list of its entries in the order of the keys; an object of the engine is the list
  of its properties in the order of their definition.
\<close>

datatype qvariant =
    QInvalid
  | QMap "(string \<times> qvariant) list"
  | QList "qvariant list"
  | QString string
  | QInt "32 word"
  | QUInt "32 word"
  | QBool bool
  | QByteArray string
  | QDouble dbl
  | QOther bool nat

datatype script_value =
    ScriptUndefined
  | ScriptNull
  | ScriptBool bool
  | ScriptNumber dbl
  | ScriptString string
  | ScriptArray "script_value list"
  | ScriptObject "(string \<times> script_value) list"
  | ScriptVariant qvariant

text \<open>\<^verbatim>\<open>isNull\<close> of a variant that is of none of the types before; the first argument of \<open>QOther\<close> is its answer.\<close>

fun qvariant_isNull :: "qvariant \<Rightarrow> bool" where
  "qvariant_isNull QInvalid \<longleftrightarrow> True"
| "qvariant_isNull (QOther null _) \<longleftrightarrow> null"
| "qvariant_isNull _ \<longleftrightarrow> False"

lemma size_entry: "(k, v) \<in> set m \<Longrightarrow> f v < Suc (size_list (size_prod (\<lambda>_. 0) f) m)"
  by (induction m) auto

lemma size_element: "v \<in> set l \<Longrightarrow> f v < Suc (size_list f l)"
  by (induction l) auto

function CreateValue :: "qvariant \<Rightarrow> script_value" where
  "CreateValue (QMap m) = ScriptObject (foldl (\<lambda>obj (k, v). AList.update k (CreateValue v) obj) [] m)"
| "CreateValue (QList l) =
     ScriptArray (foldl (\<lambda>array i. array[i := CreateValue (l ! i)]) (replicate (length l) ScriptUndefined) [0..<length l])"
| "CreateValue (QString s) = ScriptString s"
| "CreateValue (QInt i) = ScriptNumber (Fin (of_int (sint i)))"
| "CreateValue (QUInt i) = ScriptNumber (Fin (of_int (uint i)))"
| "CreateValue (QBool b) = ScriptBool b"
| "CreateValue (QByteArray s) = ScriptString (takeWhile (\<lambda>c. c \<noteq> CHR 0x00) s)"
| "CreateValue (QDouble d) = ScriptNumber d"
| "CreateValue QInvalid = ScriptNull"
| "CreateValue (QOther null n) = (if qvariant_isNull (QOther null n) then ScriptNull else ScriptVariant (QOther null n))"
  by pat_completeness auto
termination
  by (relation "measure size") (auto intro: size_entry size_element)

text \<open>\<^verbatim>\<open>QScriptValue::toVariant\<close>.\<close>

function toVariant :: "script_value \<Rightarrow> qvariant" where
  "toVariant ScriptUndefined = QInvalid"
| "toVariant ScriptNull = QInvalid"
| "toVariant (ScriptBool b) = QBool b"
| "toVariant (ScriptNumber d) = QDouble d"
| "toVariant (ScriptString s) = QString s"
| "toVariant (ScriptArray l) = QList (map toVariant l)"
| "toVariant (ScriptObject m) = QMap (sort_key fst (map (\<lambda>(k, v). (k, toVariant v)) m))"
| "toVariant (ScriptVariant v) = v"
  by pat_completeness auto
termination
  by (relation "measure size") (auto intro: size_entry size_element)

record script_engine =
  sgParse :: "string \<Rightarrow> script_value"
  sgStringify :: "script_value \<Rightarrow> script_value"
  sgToString :: "script_value \<Rightarrow> string"

definition json_parse :: "script_engine \<Rightarrow> string \<Rightarrow> qvariant" where
  "json_parse engine s = toVariant (sgParse engine s)"

definition json_serialize :: "script_engine \<Rightarrow> qvariant \<Rightarrow> string" where
  "json_serialize engine v = sgToString engine (sgStringify engine (CreateValue v))"

subsection \<open>There and back\<close>

text \<open>What is left of a value in the script engine: all numbers are doubles, and all texts strings.\<close>

fun plain_value :: "qvariant \<Rightarrow> qvariant" where
  "plain_value (QMap m) = QMap (map (\<lambda>(k, v). (k, plain_value v)) m)"
| "plain_value (QList l) = QList (map plain_value l)"
| "plain_value (QInt i) = QDouble (Fin (of_int (sint i)))"
| "plain_value (QUInt i) = QDouble (Fin (of_int (uint i)))"
| "plain_value (QByteArray s) = QString (takeWhile (\<lambda>c. c \<noteq> CHR 0x00) s)"
| "plain_value (QOther null n) = (if null then QInvalid else QOther null n)"
| "plain_value v = v"

fun keys_ordered :: "qvariant \<Rightarrow> bool" where
  "keys_ordered (QMap m) \<longleftrightarrow> sorted_wrt (<) (map fst m) \<and> list_all (\<lambda>(_, v). keys_ordered v) m"
| "keys_ordered (QList l) \<longleftrightarrow> list_all keys_ordered l"
| "keys_ordered _ \<longleftrightarrow> True"

lemma update_new_key: "k \<notin> set (map fst obj) \<Longrightarrow> AList.update k v obj = obj @ [(k, v)]"
  by (induction obj) auto

text \<open>The loops over the entries of a map and over the elements of a list.\<close>

lemma update_loop:
  "distinct (map fst obj @ map fst m) \<Longrightarrow>
     foldl (\<lambda>obj (k, v). AList.update k (f v) obj) obj m = obj @ map (\<lambda>(k, v). (k, f v)) m"
proof (induction m arbitrary: obj)
  case (Cons kv m)
  obtain k v where kv: "kv = (k, v)" by (cases kv)
  have "AList.update k (f v) obj = obj @ [(k, f v)]"
    using Cons.prems kv by (intro update_new_key) simp
  then show ?case using Cons.prems kv by (auto simp: Cons.IH)
qed simp

lemma set_loop:
  "foldl (\<lambda>array i. array[i := f i]) array [0..<n] = map f [0..<min n (length array)] @ drop n array"
proof (induction n)
  case (Suc n)
  show ?case
  proof (cases "n < length array")
    case True
    then have "drop n array = array ! n # drop (Suc n) array" by (simp add: Cons_nth_drop_Suc)
    then show ?thesis using Suc True by (simp add: list_update_append min_def)
  qed (simp add: Suc list_update_beyond)
qed simp

lemma CreateValue_list: "CreateValue (QList l) = ScriptArray (map CreateValue l)"
proof -
  have "map (\<lambda>i. CreateValue (l ! i)) [0..<length l] = map CreateValue l"
    by (rule nth_equalityI) simp_all
  then show ?thesis by (simp add: set_loop [of "\<lambda>i. CreateValue (l ! i)"])
qed

lemma CreateValue_map:
  "distinct (map fst m) \<Longrightarrow> CreateValue (QMap m) = ScriptObject (map (\<lambda>(k, v). (k, CreateValue v)) m)"
  by (simp add: update_loop [of "[]", simplified])

declare CreateValue.simps(1,2) [simp del]

text \<open>No entry, no element and no order is lost.\<close>

theorem toVariant_CreateValue: "keys_ordered v \<Longrightarrow> toVariant (CreateValue v) = plain_value v"
proof (induction v rule: plain_value.induct)
  case (1 m)
  have s: "sorted_wrt (<) (map fst m)" using 1 by simp
  have entries: "map (\<lambda>x. (fst x, toVariant (CreateValue (snd x)))) m = map (\<lambda>(k, v). (k, plain_value v)) m"
    using 1 by (auto simp: list_all_iff)
  have sorted: "sort_key fst (map (\<lambda>(k, v). (k, plain_value v)) m) = map (\<lambda>(k, v). (k, plain_value v)) m"
    using s by (intro sort_key_id_if_sorted) (simp add: comp_def split_beta strict_sorted_imp_sorted)
  have "distinct (map fst m)" using s by (simp add: strict_sorted_iff)
  then show ?case
    by (simp add: CreateValue_map comp_def split_beta del: map_eq_conv) (simp only: entries sorted split_beta [symmetric])
qed (simp_all add: CreateValue_list list_all_iff comp_def)

text \<open>An engine whose parser reads back what it has written gives back the plain value.\<close>

theorem json_round_trip:
  assumes "keys_ordered v"
    and "sgParse engine (sgToString engine (sgStringify engine (CreateValue v))) = CreateValue v"
  shows "json_parse engine (json_serialize engine v) = plain_value v"
  using assms by (simp add: json_parse_def json_serialize_def toVariant_CreateValue)

end
