(* ===== verification/Program_Start.thy ===== *)
theory Program_Start
  imports Ve_Consumer
begin

text \<open>
  The start of the program (\<^verbatim>\<open>main.cpp\<close>): the arguments, the logger, the wait for localsettings and the
  service on the D-Bus.  The logger is its level and its timestamp flag; the log levels of QsLog and the
  version of the build are the environment.  An output is a line on the debug stream.
\<close>

record start_env =
  seInfoLevel :: int
  seFatalLevel :: int
  seVersion :: string

record start =
  stExpectVerbosity :: bool
  stExpectDBusAddress :: bool
  stDBusAddress :: string
  stLogLevel :: int
  stTimestamp :: bool
  stPrinted :: "string list"

text \<open>\<^verbatim>\<open>initLogger\<close>, and the variables in front of the loop.\<close>

definition start_init :: "start_env \<Rightarrow> start" where
  "start_init env =
     \<lparr> stExpectVerbosity = False, stExpectDBusAddress = False, stDBusAddress = ''system'',
       stLogLevel = seInfoLevel env, stTimestamp = False, stPrinted = [] \<rparr>"

text \<open>The bounds of the level; a text that is no number is level 0.\<close>

definition log_level :: "start_env \<Rightarrow> string \<Rightarrow> int" where
  "log_level env arg =
     (let logLevel = (case to_int arg of None \<Rightarrow> 0 | Some l \<Rightarrow> l);
          logLevel = (if logLevel < 0 then 0 else logLevel)
      in if seFatalLevel env \<le> logLevel then seFatalLevel env else logLevel)"

text \<open>What an argument means for the option in front of it.\<close>

definition start_expected :: "start_env \<Rightarrow> string \<Rightarrow> start \<Rightarrow> start" where
  "start_expected env arg st =
     (if stExpectVerbosity st then st\<lparr> stLogLevel := log_level env arg, stExpectVerbosity := False \<rparr>
      else if stExpectDBusAddress st then st\<lparr> stDBusAddress := arg, stExpectDBusAddress := False \<rparr>
      else st)"

definition help_text :: "string \<Rightarrow> string list" where
  "help_text name =
     [name,
      CHR 0x09 # ''-h, --help'', CHR 0x09 # '' Show this message.'',
      CHR 0x09 # ''-V, --version'', CHR 0x09 # '' Show the application version.'',
      CHR 0x09 # ''-d level, --debug level'', CHR 0x09 # '' Set log level'',
      CHR 0x09 # ''-b, --dbus'', CHR 0x09 # '' dbus address or 'session' or 'system' '']"

text \<open>The loop over the arguments: \<open>Inl\<close> where \<^verbatim>\<open>main\<close> returns 0 from it.\<close>

fun start_loop :: "start_env \<Rightarrow> string \<Rightarrow> string list \<Rightarrow> start \<Rightarrow> start + start" where
  "start_loop env name [] st = Inr st"
| "start_loop env name (arg # args) st =
     (let st = start_expected env arg st
      in if arg = ''-h'' \<or> arg = ''--help'' then Inl (st\<lparr> stPrinted := stPrinted st @ help_text name \<rparr>)
         else if arg = ''-V'' \<or> arg = ''--version'' then Inl (st\<lparr> stPrinted := stPrinted st @ [seVersion env] \<rparr>)
         else
           start_loop env name args
             (if arg = ''-d'' \<or> arg = ''--debug'' then st\<lparr> stExpectVerbosity := True \<rparr>
              else if arg = ''-t'' \<or> arg = ''--timestamp'' then st\<lparr> stTimestamp := True \<rparr>
              else if arg = ''-b'' \<or> arg = ''--dbus'' then st\<lparr> stExpectDBusAddress := True \<rparr>
              else st))"

text \<open>
  \<^verbatim>\<open>initDBus\<close>: \<open>synchronized k\<close> tells whether the item of localsettings is there at the k-th look at it;
  the result is the number of waits, and there is none if it never is.
\<close>

partial_function (option) initDBus :: "(nat \<Rightarrow> bool) \<Rightarrow> nat \<Rightarrow> nat option" where
  "initDBus synchronized k = (if synchronized k then Some k else initDBus synchronized (k + 1))"

text \<open>
  \<^verbatim>\<open>main\<close>: it exits after a help or version text, or serves at an address of the D-Bus, where both the
  consumer and the publisher of the items are opened, after some waits.
\<close>

datatype start_result =
    Exits (exit_code: int) (exit_logger: start)
  | Serves (consumer_address: string) (publisher_address: string) (serve_waits: nat) (serve_logger: start)

definition start_main :: "start_env \<Rightarrow> (nat \<Rightarrow> bool) \<Rightarrow> string list \<Rightarrow> start_result option" where
  "start_main env synchronized arguments =
     (case start_loop env (hd arguments) arguments (start_init env) of
        Inl st \<Rightarrow> Some (Exits 0 st)
      | Inr st \<Rightarrow> map_option (\<lambda>n. Serves (stDBusAddress st) (stDBusAddress st) n st) (initDBus synchronized 0))"

subsection \<open>The wait\<close>

lemma initDBus_finds:
  assumes "synchronized (k + n)" "\<And>i. i < n \<Longrightarrow> \<not> synchronized (k + i)"
  shows "initDBus synchronized k = Some (k + n)"
  using assms
proof (induction n arbitrary: k)
  case 0
  then show ?case by (simp add: initDBus.simps)
next
  case (Suc n)
  have "initDBus synchronized (k + 1) = Some (k + 1 + n)"
    using Suc.prems(1) Suc.prems(2) [of "Suc _"] by (intro Suc.IH) auto
  then show ?case using Suc.prems(2) [of 0] by (subst initDBus.simps) simp
qed

lemma initDBus_least: "synchronized n \<Longrightarrow> initDBus synchronized 0 = Some (LEAST k. synchronized k)"
  using initDBus_finds [of synchronized 0 "LEAST k. synchronized k"] LeastI [of synchronized n] not_less_Least
  by fastforce

text \<open>If the item is never there, the wait does not end.\<close>

lemma initDBus_found: "initDBus synchronized k = Some n \<Longrightarrow> synchronized n"
proof (induction rule: initDBus.raw_induct [rotated 1, consumes 1])
  case (1 initDBus synchronized k n)
  then show ?case by (auto split: if_splits)
qed

lemma initDBus_waits_forever: "(\<And>n. \<not> synchronized n) \<Longrightarrow> initDBus synchronized 0 = None"
  by (meson initDBus_found not_None_eq)

subsection \<open>The arguments\<close>

text \<open>The options of a command line, each in its short or its long form.\<close>

datatype start_option = Debug bool int | DBus bool string | Timestamp bool

fun option_words :: "start_option \<Rightarrow> string list" where
  "option_words (Debug long l) = [if long then ''--debug'' else ''-d'', dec_int l]"
| "option_words (DBus long a) = [if long then ''--dbus'' else ''-b'', a]"
| "option_words (Timestamp long) = [if long then ''--timestamp'' else ''-t'']"

definition option_names :: "string set" where
  "option_names = {''-h'', ''--help'', ''-V'', ''--version'', ''-d'', ''--debug'', ''-t'', ''--timestamp'', ''-b'', ''--dbus''}"

fun option_plain :: "start_option \<Rightarrow> bool" where
  "option_plain (Debug _ l) \<longleftrightarrow> - (2 ^ 31) \<le> l \<and> l < 2 ^ 31"
| "option_plain (DBus _ a) \<longleftrightarrow> a \<notin> option_names"
| "option_plain (Timestamp _) \<longleftrightarrow> True"

fun option_meaning :: "start_env \<Rightarrow> start_option \<Rightarrow> start \<Rightarrow> start" where
  "option_meaning env (Debug _ l) st = st\<lparr> stLogLevel := min (seFatalLevel env) (max 0 l) \<rparr>"
| "option_meaning env (DBus _ a) st = st\<lparr> stDBusAddress := a \<rparr>"
| "option_meaning env (Timestamp _) st = st\<lparr> stTimestamp := True \<rparr>"

abbreviation expects_nothing :: "start \<Rightarrow> bool" where
  "expects_nothing st \<equiv> \<not> stExpectVerbosity st \<and> \<not> stExpectDBusAddress st"

lemma to_int_negative: "0 < n \<Longrightarrow> n \<le> 2 ^ 31 \<Longrightarrow> to_int (CHR ''-'' # dec n) = Some (- int n)"
proof -
  assume n: "0 < n" "n \<le> 2 ^ 31"
  have d: "list_all is_digit (dec n)" by (rule dec_digits)
  obtain c cs where r: "rev (dec n) = c # cs" by (cases "rev (dec n)") auto
  have "is_digit c" using d r by (metis list.set_intros(1) list_all_iff set_rev)
  then have "c \<noteq> CHR '' ''" by (auto simp: is_digit_def)
  then have "strip (CHR ''-'' # dec n) = CHR ''-'' # dec n"
    using r by (simp add: strip_def)
  then show ?thesis using n d by (simp add: to_int_def Let_def)
qed

lemma to_int_dec_int: "- (2 ^ 31) \<le> l \<Longrightarrow> l < 2 ^ 31 \<Longrightarrow> to_int (dec_int l) = Some l"
  using to_int_dec [of "nat l"] to_int_negative [of "nat (- l)"] by (auto simp: dec_int_def nat_less_iff nat_le_iff)

lemma log_level_dec_int:
  "- (2 ^ 31) \<le> l \<Longrightarrow> l < 2 ^ 31 \<Longrightarrow> 0 \<le> seFatalLevel env \<Longrightarrow>
     log_level env (dec_int l) = min (seFatalLevel env) (max 0 l)"
  by (auto simp: log_level_def to_int_dec_int)

text \<open>A number is no option.\<close>

lemma dec_int_no_option: "dec_int l \<notin> option_names"
proof
  assume o: "dec_int l \<in> option_names"
  obtain c cs where c: "dec (nat (- l)) = c # cs" "is_digit c"
    using dec_digits [of "nat (- l)"] by (cases "dec (nat (- l))") auto
  obtain e es where e: "dec (nat l) = e # es" "is_digit e"
    using dec_digits [of "nat l"] by (cases "dec (nat l)") auto
  show False
    using o c e by (auto simp: option_names_def dec_int_def is_digit_def split: if_splits)
qed

lemma start_loop_value:
  "arg \<notin> option_names \<Longrightarrow> start_loop env name (arg # args) st = start_loop env name args (start_expected env arg st)"
  by (simp add: option_names_def Let_def)

lemma start_loop_option:
  assumes "option_plain opt" "expects_nothing st" "0 \<le> seFatalLevel env"
  shows "start_loop env name (option_words opt @ args) st = start_loop env name args (option_meaning env opt st)"
  using assms dec_int_no_option
  by (cases st; cases opt) (simp_all add: option_names_def start_expected_def log_level_dec_int Let_def)

lemma option_meaning_expects [simp]: "expects_nothing (option_meaning env opt st) \<longleftrightarrow> expects_nothing st"
  by (cases opt) simp_all

lemma start_loop_options:
  "list_all option_plain opts \<Longrightarrow> expects_nothing st \<Longrightarrow> 0 \<le> seFatalLevel env \<Longrightarrow>
     start_loop env name (concat (map option_words opts)) st = Inr (fold (option_meaning env) opts st)"
  by (induction opts arbitrary: st) (simp_all add: start_loop_option)

text \<open>
  C40. The arguments that are written for a list of options are read back: the service starts with the
  level, the address and the timestamp of the last options of each kind, the level within its bounds,
  as soon as localsettings is there.
\<close>

theorem start_arguments_read_back:
  assumes "name \<notin> option_names" "list_all option_plain opts" "0 \<le> seFatalLevel env" "synchronized k"
  shows "start_main env synchronized (name # concat (map option_words opts)) =
      (let st = fold (option_meaning env) opts (start_init env)
       in Some (Serves (stDBusAddress st) (stDBusAddress st) (LEAST k. synchronized k) st))"
proof -
  have "start_loop env name (name # concat (map option_words opts)) (start_init env) =
      Inr (fold (option_meaning env) opts (start_init env))"
    using assms(1-3) by (simp add: start_loop_value start_expected_def start_init_def start_loop_options del: start_loop.simps)
  then show ?thesis
    using initDBus_least [of synchronized, OF assms(4)] by (simp add: start_main_def Let_def del: start_loop.simps)
qed

definition start_example :: start_env where
  "start_example = \<lparr> seInfoLevel = 2, seFatalLevel = 5, seVersion = ''1.3'' \<rparr>"

theorem start_arguments_read_back_witness:
  "start_main start_example (\<lambda>k. 2 \<le> k) [''dbus-fronius'', ''-d'', ''-1'', ''--dbus'', ''session'', ''-t''] =
     Some (Serves ''session'' ''session'' 2 ((start_init start_example)\<lparr> stLogLevel := 0, stDBusAddress := ''session'', stTimestamp := True \<rparr>))"
proof -
  have least: "(LEAST k. 2 \<le> k) = (2 :: nat)" by (rule Least_equality) auto
  have "dec_int (-1) = ''-1''" by code_simp
  then show ?thesis
    using start_arguments_read_back [of "''dbus-fronius''" "[Debug False (-1), DBus True ''session'', Timestamp False]"
        start_example "\<lambda>k. 2 \<le> k" 2]
    by (simp add: option_names_def start_example_def start_init_def least Let_def)
qed

text \<open>
  An argument that belongs to the option in front of it is looked at as an option again, so the
  address \<^verbatim>\<open>-h\<close> shows the help, and the address \<^verbatim>\<open>-d\<close> takes the next argument as a level.
\<close>

lemma start_value_read_again:
  "start_loop env name [''-b'', ''-d'', ''3''] (start_init env) =
     Inr ((start_init env)\<lparr> stDBusAddress := ''-d'', stLogLevel := log_level env ''3'' \<rparr>)"
  "start_loop env name [''-b'', ''-h''] (start_init env) =
     Inl ((start_init env)\<lparr> stDBusAddress := ''-h'', stPrinted := help_text name \<rparr>)"
  by (simp_all add: start_init_def start_expected_def)

end
