(* ===== verification/Spec2Isabelle.thy ===== *)
theory Spec2Isabelle
  imports Crc16 Modbus_Tcp Modbus_Rtu Gateway Inverter_Settings Inverter Sunspec_Tools Data_Processor Sunspec_Updater Sma_Updater
    Detected_Devices Fronius_Device_Info Solar_Updater Ve_Init_Monitor Ring_Buffer Solar_Http Http_Post
    Sunspec_Measurement Item_Consumer Json Program_Start
begin

text \<open>
  \<^bold>\<open>Verification development for dbus-fronius\<close>

  dbus-fronius finds the PV inverters of the local network, reads their measurements and publishes
  them on the D-Bus; it also limits their power.  The sources are under \<^verbatim>\<open>src/software/src\<close>; file
  names below are relative to that directory.

  \<^bold>\<open>Parts and how they interact\<close>

  \<^verbatim>\<open>DBusFronius\<close> owns the gateway and one mediator per inverter.  The gateway scans hosts, taking
  addresses from the settings, from a UDP probe and from the address generator, and runs three
  detectors on each host: the solar API detector (HTTP), which starts a Sunspec detection for each
  inverter of a data manager, the Sunspec detector and the SMA detector (Modbus TCP).  What they find
  goes to the mediators; a mediator creates the inverter, whose items are published, and the updater
  that polls it: solar API, Sunspec or SMA.  The updaters hand their measurements to the data
  processor, which spreads power and energy over the phases.

  \<^bold>\<open>Theories and sources\<close>

  \<^item> \<open>Prelude\<close>: lemmas on lists, words and runs, the locales \<open>invariant_machine\<close> (an invariant of a
    state machine holds in its runs), \<open>data_refinement\<close> (runs of a machine are runs of its abstraction)
    and \<open>error_counter\<close> (report at every n-th error in a row).
  \<^item> \<open>Crc16\<close>, \<open>Modbus_Reply\<close>, \<open>Modbus_Tcp\<close>, \<open>Modbus_Rtu\<close> (\<^verbatim>\<open>modbus_tcp_client/\<close>): the checksum tables
    and byte step, replies that finish once, frames, transactions, the receive loop, and the byte
    driven engine of the serial client.  The socket and the serial port are the received chunks and
    the log of written frames.
  \<^item> \<open>Strings\<close>, \<open>Dbl\<close>, \<open>Dbl_Error\<close>: \<^verbatim>\<open>QString\<close> operations, and IEEE doubles as rationals with infinities
    and NaN, each operation rounded correctly to 53 bits; exponents are not bounded, so overflow and
    denormal numbers are not modelled.
  \<^item> \<open>Host_Address\<close>, \<open>Ip_Generator\<close> (\<^verbatim>\<open>local_ip_address_generator.cpp\<close>): the addresses of the local
    networks and their enumeration.
  \<^item> \<open>Ve_Consumer\<close>, \<open>Settings\<close>, \<open>Inverter_Settings\<close>, \<open>Ve_Init_Monitor\<close> (\<^verbatim>\<open>ve_qitem_consumer.cpp\<close>,
    \<^verbatim>\<open>settings.cpp\<close>, \<^verbatim>\<open>inverter_settings.cpp\<close>, \<^verbatim>\<open>ve_qitem_init_monitor.cpp\<close>): the settings kept by
    localsettings.  What localsettings stores for a written value is a parameter.
  \<^item> \<open>Item_Consumer\<close> (\<^verbatim>\<open>connectItem\<close> of \<^verbatim>\<open>ve_qitem_consumer.cpp\<close>): the items that the settings objects are
    connected to, the slots and signals behind them, and the calls to localsettings.
  \<^item> \<open>Program_Start\<close> (\<^verbatim>\<open>main.cpp\<close>), \<open>Json\<close> (\<^verbatim>\<open>json/json.cpp\<close>): the arguments and the wait for localsettings, and
    the conversion of Qt values to those of the script engine.
  \<^item> \<open>Defines\<close>, \<open>Ve_Service\<close>, \<open>Inverter\<close>, \<open>Sma_Inverter\<close> (\<^verbatim>\<open>defines.h\<close>, \<^verbatim>\<open>ve_service.cpp\<close>,
    \<^verbatim>\<open>inverter.cpp\<close>, \<^verbatim>\<open>power_info.cpp\<close>, \<^verbatim>\<open>pv_info.cpp\<close>, \<^verbatim>\<open>fronius_inverter.cpp\<close>, \<^verbatim>\<open>sma_inverter.cpp\<close>):
    the published items, as a map from paths to values and texts.
  \<^item> \<open>Gateway\<close> (\<^verbatim>\<open>inverter_gateway.cpp\<close>, \<^verbatim>\<open>fronius_udp_detector.cpp\<close>): scans, host scans and timers as one
    event machine; \<open>gw_step\<close> is one signal or call.
  \<^item> \<open>Detection\<close>, \<open>Sunspec_Detector\<close>, \<open>Sma_Detector\<close>, \<open>Solar_Detector\<close>, \<open>Fronius_Device_Info\<close>
    (\<^verbatim>\<open>abstract_detector.h\<close> and the files of the same names): one detection each, with the contract of
    \<^verbatim>\<open>AbstractDetector\<close> as the locale \<open>detector\<close>, interpreted on both Modbus detectors.
  \<^item> \<open>Sunspec_Tools\<close>, \<open>Data_Processor\<close> (\<^verbatim>\<open>sunspec_tools.cpp\<close>, \<^verbatim>\<open>data_processor.cpp\<close>): values in registers,
    and the distribution over the phases.
  \<^item> \<open>Polling\<close>, \<open>Sunspec_Updater\<close>, \<open>Sma_Updater\<close>, \<open>Solar_Api\<close>, \<open>Solar_Updater\<close>
    (\<^verbatim>\<open>sunspec_updater.cpp\<close>, \<^verbatim>\<open>sma_updater.cpp\<close>, \<^verbatim>\<open>froniussolar_api.cpp\<close>, \<^verbatim>\<open>solar_api_updater.cpp\<close>): the
    polling engines; a Modbus client is its pending requests, its connection and the log of requests.
  \<^item> \<open>Sunspec_Measurement\<close>: a measurement on its whole way, from the segments of the answer through the
    TCP client and the updater to the items on the D-Bus.
  \<^item> \<open>Ring_Buffer\<close>, \<open>Http_Header\<close>, \<open>Http_Ntlm\<close>, \<open>Http_Authenticator\<close>, \<open>Http_Client\<close>, \<open>Http_Exchange\<close>,
    \<open>Http_Post\<close> (\<^verbatim>\<open>qhttp/\<close>: \<^verbatim>\<open>qringbuffer_p.h\<close>, \<^verbatim>\<open>qhttp.cpp\<close>, \<^verbatim>\<open>qhttpauthenticator.cpp\<close>): the byte buffer as blocks
    with head and tail, header lists, NTLM messages, Basic, Digest and NTLM answers to a challenge, and
    the client as an event machine \<open>hc_step\<close> whose socket is the received bytes and the log of what it
    was told; \<open>Http_Exchange\<close> reads whole responses, with the locale \<open>body_reading\<close> interpreted for
    sized and for chunked bodies; \<open>Http_Post\<close> sends bodies from devices.
  \<^item> \<open>Solar_Http\<close>: the slot of \<^verbatim>\<open>froniussolar_api.cpp\<close> that takes a finished request from the HTTP client,
    and both composed.
  \<^item> \<open>Mediator\<close>, \<open>Dbus_Fronius\<close>, \<open>Detected_Devices\<close> (\<^verbatim>\<open>inverter_mediator.cpp\<close>, \<^verbatim>\<open>dbus_fronius.cpp\<close>):
    the whole service as one event machine \<open>df_step\<close>, and the detectors composed with it.

  \<^bold>\<open>Conventions\<close>

  A class is a record, an object that emits signals carries the list of what it emitted, and a slot
  is a function of the record.  Machine integers are words of their width.  A step that follows a
  null pointer, reads out of bounds or casts to a wrong class has no result (\<open>None\<close>).  Assertions are
  those of a release build: \<^verbatim>\<open>Q_ASSERT\<close> does nothing.  A timer is a flag or a counter of running
  timers; its event may come at any moment while it runs.  Reachable states are inductive
  predicates (\<open>su_reach\<close>, \<open>sma_reach\<close>, \<open>sl_reach\<close>, \<open>det_reach\<close>, \<open>df_reach\<close>) over the events
  that the outside may deliver in that state.

  \<^bold>\<open>What is shown\<close>

  \<^item> Wire formats: requests are well-formed, a stream of responses cut in any way is decoded, the
    checksum is the CRC of the standard, corrupt responses are rejected, strings, scaled numbers and
    measurements are read back; a Sunspec measurement is published with the value its registers stand for,
    to a relative error of 2^-49.
  \<^item> Engines: invariants of reachable states (one request at a time, never stuck, at most 64 hosts,
    one mediator per inverter), ends of scans, detections and polling cycles, error reports.
  \<^item> Contracts: the detectors report each device once and in the right order; the Sunspec detector
    refines an abstract reading of the chain of models; the binary search is a lookup; whatever the
    detectors report is taken by the service without failing.
  \<^item> HTTP: the byte buffer refines a queue; a response of known or chunked length, cut into pieces in
    any way, is delivered completely, finishes its request and leaves the client ready for the next;
    a measurement sent as such a response is the measurement the solar API reports.
  \<^item> Numbers: energies of the phases sum up to the total and powers are shares, to a relative error
    of \<open>2 powr -49\<close>; a written limit is within 0.51 steps of the request.

  \<^bold>\<open>Bounds and fuel\<close>

  The only fuel is the number of exchanges in \<open>det_dialog\<close>: two per model and three more are shown to
  be enough for any chain.  All other loops are structural or have a measure.

  \<^bold>\<open>Not modelled\<close>

  Of \<^verbatim>\<open>qhttp/\<close>: TLS, a socket that the user of the class brings along, the exchange with
  \<^verbatim>\<open>QAuthenticator\<close> and the NTLM messages of version 1; the program uses none of them.
  \<^verbatim>\<open>JSON.parse\<close> and \<^verbatim>\<open>JSON.stringify\<close> run in a script engine of Qt and are parameters.  velib (items, D-Bus
  transport), localsettings and the product ids of velib are not part of the repository; they are
  parameters.  The Qt event loop, logging and wall clock time are left out, and so are the tests.
\<close>

end
